(* ===== verification/Prelude.thy ===== *)
theory Prelude
  imports "HOL-Library.Word"
begin

text \<open>
  The shared vocabulary of the development.

  A byte of C memory is an Isabelle \<^typ>\<open>char\<close> (exactly 256 values), so that guest memory, C
  strings and string literals have one type; \<open>byte_val\<close> reads a byte as \<open>unsigned char\<close>.
  Fixed-width integers whose wrap-around matters are words; lengths that come from lists are
  \<^typ>\<open>nat\<close>. The theory holds the C library routines the sources call (\<open>strlen\<close>, \<open>strstr\<close>,
  \<open>memchr\<close>, \<open>strncasecmp\<close>, \<open>snprintf\<close> with \<open>%u\<close>, \<open>memcpy\<close> of little-endian integers), the
  \<open>strlcpy\<close> of \<^verbatim>\<open>src/compat.h\<close>, and the generic lemmas on lists, chunks and decimal numerals the
  component theories share. The collections are \<open>cstr_simps\<close> (C strings), \<open>chunk_simps\<close> (reads
  and writes of list chunks) and \<open>inv_intros\<close> (invariants kept by operations).
\<close>

section \<open>Types\<close>

type_synonym byte = char
type_synonym bytes = "byte list"
type_synonym u8 = "8 word"
type_synonym u16 = "16 word"
type_synonym u32 = "32 word"
type_synonym u64 = "64 word"

text \<open>Whether the \<open>k\<close>-th heap allocation of a call succeeds. Every C routine that allocates
  takes one of these, so that its out-of-memory branches are branches of the model.\<close>

type_synonym malloc = "nat \<Rightarrow> bool"

abbreviation mem_ok :: malloc where "mem_ok \<equiv> (\<lambda>_. True)"

abbreviation byte_val :: "byte \<Rightarrow> nat" where "byte_val c \<equiv> of_char c"

named_theorems cstr_simps \<open>C string routines\<close>
named_theorems chunk_simps \<open>reads and writes of list chunks\<close>
named_theorems inv_intros \<open>invariants kept by operations\<close>

section \<open>C strings\<close>

abbreviation NUL :: byte where "NUL \<equiv> CHR 0x00"
abbreviation CR :: byte where "CR \<equiv> CHR 0x0D"
abbreviation LF :: byte where "LF \<equiv> CHR 0x0A"
abbreviation HT :: byte where "HT \<equiv> CHR 0x09"
abbreviation SP :: byte where "SP \<equiv> CHR 0x20"

text \<open>The C string at the start of a buffer: the bytes before the first NUL.\<close>

definition cstr :: "bytes \<Rightarrow> bytes" where
  "cstr s = takeWhile (\<lambda>c. c \<noteq> NUL) s"

definition nul_free :: "bytes \<Rightarrow> bool" where
  "nul_free s \<longleftrightarrow> NUL \<notin> set s"

definition is_blank :: "byte \<Rightarrow> bool" where
  "is_blank c \<longleftrightarrow> c = SP \<or> c = HT"

text \<open>\<open>while (*p == ' ' || *p == '\t') p++\<close> and its mirror image at the end of a token.\<close>

definition skip_blanks :: "bytes \<Rightarrow> bytes" where
  "skip_blanks s = dropWhile is_blank s"

definition trim_end :: "bytes \<Rightarrow> bytes" where
  "trim_end s = rev (dropWhile is_blank (rev s))"

definition c_tolower :: "byte \<Rightarrow> byte" where
  "c_tolower c = (if 65 \<le> byte_val c \<and> byte_val c \<le> 90 then char_of (byte_val c + 32) else c)"

text \<open>\<open>strncasecmp(a, b, n) == 0\<close> on two buffers that hold at least \<open>n\<close> bytes or end before
  in a NUL: the first \<open>n\<close> bytes agree up to case, stopping at a common NUL.\<close>

fun strncaseeq :: "nat \<Rightarrow> bytes \<Rightarrow> bytes \<Rightarrow> bool" where
  "strncaseeq 0 _ _ = True"
| "strncaseeq (Suc n) [] [] = True"
| "strncaseeq (Suc n) [] (b # bs) = (b = NUL)"
| "strncaseeq (Suc n) (a # as) [] = (a = NUL)"
| "strncaseeq (Suc n) (a # as) (b # bs) =
     (c_tolower a = c_tolower b \<and> (a = NUL \<or> strncaseeq n as bs))"

text \<open>\<open>memchr(s, c, len)\<close>: the offset of the first occurrence.\<close>

fun memchr :: "byte \<Rightarrow> bytes \<Rightarrow> nat option" where
  "memchr c [] = None"
| "memchr c (x # xs) = (if x = c then Some 0 else map_option Suc (memchr c xs))"

text \<open>Offset of the first occurrence of a pattern; \<open>strstr\<close> searches the C string only.\<close>

fun find_sub :: "bytes \<Rightarrow> bytes \<Rightarrow> nat option" where
  "find_sub pat [] = (if pat = [] then Some 0 else None)"
| "find_sub pat (x # xs) =
     (if take (length pat) (x # xs) = pat then Some 0 else map_option Suc (find_sub pat xs))"

definition strstr :: "bytes \<Rightarrow> bytes \<Rightarrow> nat option" where
  "strstr s pat = find_sub pat (cstr s)"

text \<open>\<open>strlcpy(dst, src, dstsize)\<close> of \<^verbatim>\<open>src/compat.h\<close>: what \<open>dst\<close> holds afterwards
  (\<open>None\<close> when it is left untouched) and the return value.\<close>

definition strlcpy :: "bytes \<Rightarrow> nat \<Rightarrow> bytes option \<times> nat" where
  "strlcpy src dstsize =
     (let srclen = length (cstr src)
      in (if dstsize > 0
          then Some (take (if srclen \<ge> dstsize then dstsize - 1 else srclen) (cstr src))
          else None, srclen))"

text \<open>\<open>strlcpy\<close> into a fixed array of positive size, as every caller uses it.\<close>

definition strlcpy_to :: "bytes \<Rightarrow> nat \<Rightarrow> bytes" where
  "strlcpy_to src dstsize = the (fst (strlcpy src dstsize))"

section \<open>Decimal numerals\<close>

fun dec :: "nat \<Rightarrow> bytes" where
  "dec n = (if n < 10 then [char_of (48 + n)] else dec (n div 10) @ [char_of (48 + n mod 10)])"

declare dec.simps [simp del]

definition is_digit :: "byte \<Rightarrow> bool" where
  "is_digit c \<longleftrightarrow> 48 \<le> byte_val c \<and> byte_val c \<le> 57"

definition undec :: "bytes \<Rightarrow> nat" where
  "undec s = foldl (\<lambda>v c. v * 10 + (byte_val c - 48)) 0 s"

section \<open>Slices and little-endian integers\<close>

text \<open>\<open>memcpy\<close> out of and into a buffer.\<close>

definition chunk :: "nat \<Rightarrow> nat \<Rightarrow> 'a list \<Rightarrow> 'a list" where
  "chunk off n xs = take n (drop off xs)"

definition put :: "nat \<Rightarrow> 'a list \<Rightarrow> 'a list \<Rightarrow> 'a list" where
  "put off ys xs = take off xs @ ys @ drop (off + length ys) xs"

text \<open>\<open>memcpy(dst, &value, 4)\<close> and \<open>memcpy(&value, src, 4)\<close> on a little-endian host, the only
  layout Wasm linear memory has; and the 8-byte forms.\<close>

fun le_bytes :: "nat \<Rightarrow> nat \<Rightarrow> bytes" where
  "le_bytes 0 n = []"
| "le_bytes (Suc k) n = char_of (n mod 256) # le_bytes k (n div 256)"

fun le_val :: "bytes \<Rightarrow> nat" where
  "le_val [] = 0"
| "le_val (b # bs) = byte_val b + 256 * le_val bs"

definition put32 :: "u32 \<Rightarrow> bytes" where
  "put32 w = le_bytes 4 (unat w)"

definition get32 :: "bytes \<Rightarrow> u32" where
  "get32 bs = of_nat (le_val (take 4 bs))"

definition put64 :: "u64 \<Rightarrow> bytes" where
  "put64 w = le_bytes 8 (unat w)"

section \<open>Searching an array by index\<close>

text \<open>\<open>for (i = 0; i < n; i++) if (P(a[i])) return i;\<close>\<close>

fun find_index :: "('a \<Rightarrow> bool) \<Rightarrow> 'a list \<Rightarrow> nat option" where
  "find_index P [] = None"
| "find_index P (x # xs) = (if P x then Some 0 else map_option Suc (find_index P xs))"

text \<open>Texts with a separator between them.\<close>

definition join :: "bytes \<Rightarrow> bytes list \<Rightarrow> bytes" where
  "join sep xs = (case xs of [] \<Rightarrow> [] | y # ys \<Rightarrow> y @ concat (map (\<lambda>z. sep @ z) ys))"

section \<open>Lemmas: C strings\<close>

lemma cstr_nul_free [cstr_simps, simp]: "nul_free (cstr s)"
  by (auto simp: nul_free_def cstr_def dest: set_takeWhileD)

lemma cstr_id [cstr_simps]: "nul_free s \<Longrightarrow> cstr s = s"
  by (auto simp: nul_free_def cstr_def takeWhile_eq_all_conv)

lemma cstr_idem [simp]: "cstr (cstr s) = cstr s"
  by (simp add: cstr_id)

lemma length_cstr_le: "length (cstr s) \<le> length s"
  by (simp add: cstr_def length_takeWhile_le)

lemma cstr_eq_iff_nul_free: "length (cstr s) = length s \<longleftrightarrow> nul_free s"
proof
  assume "length (cstr s) = length s"
  then have "cstr s = s"
    by (metis cstr_def append_eq_conv_conj append.right_neutral takeWhile_dropWhile_id
        takeWhile_eq_take)
  then show "nul_free s" using cstr_nul_free [of s] by simp
qed (simp add: cstr_id)

lemma nul_free_append [simp]: "nul_free (a @ b) \<longleftrightarrow> nul_free a \<and> nul_free b"
  by (auto simp: nul_free_def)

lemma nul_free_Cons [simp]: "nul_free (c # s) \<longleftrightarrow> c \<noteq> NUL \<and> nul_free s" "nul_free []"
  by (auto simp: nul_free_def)

lemma nul_free_take [simp]: "nul_free s \<Longrightarrow> nul_free (take n s)"
  by (auto simp: nul_free_def dest: in_set_takeD)

lemma cstr_append_nul [cstr_simps]: "cstr (s @ NUL # t) = cstr s"
  by (induction s) (auto simp: cstr_def)

lemma strlcpy_to_id: "nul_free s \<Longrightarrow> length s < n \<Longrightarrow> strlcpy_to s n = s"
  by (simp add: strlcpy_to_def strlcpy_def Let_def cstr_id)

lemma strlcpy_to_bound: "0 < n \<Longrightarrow> length (strlcpy_to s n) < n \<and> nul_free (strlcpy_to s n)"
  by (auto simp: strlcpy_to_def strlcpy_def Let_def)

lemma memchr_None: "memchr c s = None \<longleftrightarrow> c \<notin> set s"
  by (induction s) auto

lemma memchr_Some:
  "memchr c s = Some i \<longleftrightarrow> i < length s \<and> s ! i = c \<and> c \<notin> set (take i s)"
proof (induction s arbitrary: i)
  case Nil
  then show ?case by simp
next
  case (Cons x xs)
  then show ?case by (cases i) auto
qed

lemma memchr_append: "c \<notin> set a \<Longrightarrow> memchr c (a @ c # b) = Some (length a)"
  by (induction a) auto

lemma memchr_split: "memchr c s = Some i \<Longrightarrow> s = take i s @ c # drop (Suc i) s"
  by (metis memchr_Some id_take_nth_drop)

lemma find_sub_Some:
  "find_sub pat s = Some i \<Longrightarrow> i + length pat \<le> length s \<and> chunk i (length pat) s = pat"
proof (induction s arbitrary: i)
  case Nil
  then show ?case by (auto simp: chunk_def split: if_splits)
next
  case (Cons x xs)
  show ?case
  proof (cases "take (length pat) (x # xs) = pat")
    case True
    then have "length pat \<le> length (x # xs)"
      by (metis length_take min.cobounded1)
    then show ?thesis using Cons.prems True by (auto simp: chunk_def)
  next
    case False
    then show ?thesis using Cons by (auto simp: chunk_def)
  qed
qed

section \<open>Lemmas: decimal numerals\<close>

lemma byte_val_less [simp]: "byte_val c < 256"
  by (metis of_char_mod_256 mod_less_divisor zero_less_numeral)

lemma is_digit_char_of [simp]: "(d :: nat) < 10 \<Longrightarrow> is_digit (char_of (48 + d))"
  by (simp add: is_digit_def)

lemma digit_char_val [simp]: "(d :: nat) < 10 \<Longrightarrow> byte_val (char_of (48 + d)) = 48 + d"
  by simp

lemma dec_digits: "\<forall>c \<in> set (dec n). is_digit c"
proof (induction n rule: dec.induct)
  case (1 n)
  show ?case
  proof (cases "n < 10")
    case False
    with 1 show ?thesis by (subst dec.simps) auto
  qed (subst dec.simps, simp)
qed

lemma dec_nonempty [simp]: "dec n \<noteq> []"
  by (subst dec.simps) simp

lemma undec_snoc: "undec (s @ [c]) = undec s * 10 + (byte_val c - 48)"
  by (simp add: undec_def)

lemma undec_dec [simp]: "undec (dec n) = n"
proof (induction n rule: dec.induct)
  case (1 n)
  show ?case
  proof (cases "n < 10")
    case True
    then show ?thesis by (subst dec.simps) (simp add: undec_def)
  next
    case False
    with 1 show ?thesis by (subst dec.simps) (simp add: undec_snoc)
  qed
qed

lemma dec_inj [simp]: "dec a = dec b \<longleftrightarrow> a = b"
  by (metis undec_dec)

lemma dec_length: "n < 10 ^ k \<Longrightarrow> 0 < k \<Longrightarrow> length (dec n) \<le> k"
proof (induction n arbitrary: k rule: dec.induct)
  case (1 n)
  show ?case
  proof (cases "n < 10")
    case True
    then show ?thesis using 1 by (subst dec.simps) simp
  next
    case False
    have "k \<noteq> 1" using 1(2) False by auto
    then obtain j where k: "k = Suc j" and "0 < j" using 1(3) by (cases k) auto
    have "n div 10 < 10 ^ j" using 1(2) k by (simp add: less_mult_imp_div_less mult.commute)
    then have "length (dec (n div 10)) \<le> j" using 1(1) False \<open>0 < j\<close> by blast
    then show ?thesis using False k by (subst dec.simps) simp
  qed
qed

lemma dec_no_char: "\<not> is_digit c \<Longrightarrow> c \<notin> set (dec n)"
  using dec_digits by blast

lemma dec_nul_free [simp]: "nul_free (dec n)"
  using dec_no_char [of NUL n] by (simp add: nul_free_def is_digit_def)

section \<open>Lemmas: chunks and integers\<close>

lemma length_chunk [chunk_simps]: "off + n \<le> length xs \<Longrightarrow> length (chunk off n xs) = n"
  by (simp add: chunk_def)

lemma length_chunk_le: "length (chunk off n xs) \<le> n"
  by (simp add: chunk_def)

lemma length_put [chunk_simps]:
  "off + length ys \<le> length xs \<Longrightarrow> length (put off ys xs) = length xs"
  by (simp add: put_def)

lemma chunk_put_same [chunk_simps]:
  "off + length ys \<le> length xs \<Longrightarrow> n = length ys \<Longrightarrow> chunk off n (put off ys xs) = ys"
  by (simp add: chunk_def put_def)

lemma chunk_put_before [chunk_simps]:
  "a + n \<le> off \<Longrightarrow> off \<le> length xs \<Longrightarrow> chunk a n (put off ys xs) = chunk a n xs"
  by (auto simp: chunk_def put_def take_drop min_def)

lemma chunk_put_after [chunk_simps]:
  "off + length ys \<le> a \<Longrightarrow> off + length ys \<le> length xs \<Longrightarrow>
   chunk a n (put off ys xs) = chunk a n xs"
  by (auto simp: chunk_def put_def)

lemma nth_put:
  "off + length ys \<le> length xs \<Longrightarrow> i < length xs \<Longrightarrow>
   put off ys xs ! i = (if off \<le> i \<and> i < off + length ys then ys ! (i - off) else xs ! i)"
  by (auto simp: put_def nth_append)

lemma length_le_bytes [simp]: "length (le_bytes k n) = k"
  by (induction k arbitrary: n) auto

lemma le_val_le_bytes: "le_val (le_bytes k n) = n mod 256 ^ k"
proof (induction k arbitrary: n)
  case 0
  then show ?case by simp
next
  case (Suc k)
  have "n mod 256 ^ Suc k = n mod 256 + 256 * (n div 256 mod 256 ^ k)"
    by (simp add: mod_mult2_eq)
  then show ?case using Suc by simp
qed

lemma length_put32 [simp]: "length (put32 w) = 4"
  by (simp add: put32_def)

lemma length_put64 [simp]: "length (put64 w) = 8"
  by (simp add: put64_def)

lemma get32_put32 [simp]: "get32 (put32 w @ rest) = w"
proof -
  have "unat w < 256 ^ 4" using unsigned_less [of w, where 'a = nat] by simp
  then show ?thesis by (simp add: get32_def put32_def le_val_le_bytes)
qed

lemma get32_put32' [simp]: "get32 (put32 w) = w"
  using get32_put32 [of w "[]"] by simp

lemma unat_of_nat_u32: "n < 2 ^ 32 \<Longrightarrow> unat (of_nat n :: u32) = n"
  by (simp add: unat_of_nat take_bit_nat_eq_self)

section \<open>Lemmas: array search\<close>

lemma find_index_None: "find_index P xs = None \<longleftrightarrow> (\<forall>x \<in> set xs. \<not> P x)"
  by (induction xs) auto

lemma find_index_Some:
  "find_index P xs = Some i \<longleftrightarrow> i < length xs \<and> P (xs ! i) \<and> (\<forall>j < i. \<not> P (xs ! j))"
proof (induction xs arbitrary: i)
  case Nil
  then show ?case by simp
next
  case (Cons x xs)
  show ?case
  proof (cases i)
    case 0
    then show ?thesis by auto
  next
    case (Suc j)
    then show ?thesis using Cons by (auto simp: nth_Cons' less_Suc_eq_0_disj)
  qed
qed

lemma find_index_lt: "find_index P xs = Some i \<Longrightarrow> i < length xs"
  by (simp add: find_index_Some)

lemma find_index_update_other:
  "\<not> P y \<Longrightarrow> find_index P xs = None \<Longrightarrow> find_index P (xs[i := y]) = None"
  by (auto simp: find_index_None dest: set_update_subset_insert [THEN subsetD])

lemma nth_list_update_if: "j < length xs \<Longrightarrow> xs[i := x] ! j = (if i = j then x else xs ! j)"
  by (simp add: nth_list_update)

lemma find_conv_index:
  "find P xs = (case find_index P xs of None \<Rightarrow> None | Some i \<Rightarrow> Some (xs ! i))"
  by (induction xs) (auto split: option.splits)

lemma find_update_other:
  "\<not> P (xs ! i) \<Longrightarrow> \<not> P y \<Longrightarrow> find P (xs[i := y]) = find P xs"
proof (induction xs arbitrary: i)
  case (Cons x xs)
  then show ?case by (cases i) auto
qed simp

lemma find_update_first:
  "find_index P xs = Some i \<Longrightarrow> P y \<Longrightarrow> find P (xs[i := y]) = Some y"
proof (induction xs arbitrary: i)
  case (Cons x xs)
  then show ?case by (cases i) (auto split: if_splits)
qed simp

lemma find_index_update_same:
  "P y = P (xs ! i) \<Longrightarrow> find_index P (xs[i := y]) = find_index P xs"
proof (induction xs arbitrary: i)
  case (Cons x xs)
  then show ?case by (cases i) auto
qed simp

section \<open>Invariants of step relations\<close>

text \<open>What every step keeps, every run keeps. Instances: a guest's run, the threads of a store pool.\<close>

locale step_invariant =
  fixes step :: "'s \<Rightarrow> 's \<Rightarrow> bool" and inv :: "'s \<Rightarrow> bool"
  assumes step_keeps: "step s t \<Longrightarrow> inv s \<Longrightarrow> inv t"
begin

lemma run_keeps: "step\<^sup>*\<^sup>* s t \<Longrightarrow> inv s \<Longrightarrow> inv t"
  by (induction rule: rtranclp_induct) (auto intro: step_keeps)

end

end
