(* ===== verification/Guest_Memory.thy ===== *)
theory Guest_Memory
  imports Prelude
begin

text \<open>
  Guest linear memory access: \<^verbatim>\<open>src/proxy_wasm_mem.h\<close>, and the part of \<open>struct vwasm_proxy_ctx\<close>
  it uses. Every proxy-wasm host function goes through these routines.

  The linear memory is a byte list. The guest's exported allocator is code of the loaded module:
  it is a function held in the record (as the struct holds the \<open>wasmtime_func_t\<close>), from the requested
  size and the current memory to the returned pointer (\<open>None\<close> for an error or a trap) and the memory
  it leaves, which it may have grown or rewritten. \<open>mem_fault\<close> is a ghost flag: it is raised by a
  \<open>memcpy\<close> into the linear memory that leaves its bounds.
\<close>

record guest =
  memory_valid :: bool
  wasm_ctx :: bool
  memory :: bytes
  allocator_valid :: bool
  allocator :: "u32 \<Rightarrow> bytes \<Rightarrow> u32 option \<times> bytes"
  mem_fault :: bool

section \<open>The access routines\<close>

definition pw_mem_base :: "'z guest_scheme \<Rightarrow> bytes option" where
  "pw_mem_base ctx = (if \<not> memory_valid ctx \<or> \<not> wasm_ctx ctx then None else Some (memory ctx))"

text \<open>The sum is taken in 64 bits, so it is the sum of the two numbers.\<close>

definition pw_validate_region :: "'z guest_scheme \<Rightarrow> u32 \<Rightarrow> u32 \<Rightarrow> bool" where
  "pw_validate_region ctx offset len =
     (case pw_mem_base ctx of
        None \<Rightarrow> False
      | Some base \<Rightarrow>
          (let mem_size = length base in
           if unat (ucast offset + ucast len :: u64) > mem_size then False else True))"

text \<open>A pointer into the linear memory is its offset from the base.\<close>

definition pw_mem_ptr :: "'z guest_scheme \<Rightarrow> u32 \<Rightarrow> nat option" where
  "pw_mem_ptr ctx offset = (case pw_mem_base ctx of None \<Rightarrow> None | Some _ \<Rightarrow> Some (unat offset))"

text \<open>\<open>memcpy\<close> into the linear memory.\<close>

definition mem_store :: "nat \<Rightarrow> bytes \<Rightarrow> 'z guest_scheme \<Rightarrow> 'z guest_scheme" where
  "mem_store p bs ctx =
     (if p + length bs \<le> length (memory ctx) then ctx\<lparr>memory := put p bs (memory ctx)\<rparr>
      else ctx\<lparr>mem_fault := True\<rparr>)"

text \<open>The buffer contents before the terminating NUL the routine appends; \<open>None\<close> is -1.\<close>

definition pw_read_string :: "'z guest_scheme \<Rightarrow> u32 \<Rightarrow> u32 \<Rightarrow> nat \<Rightarrow> bytes option" where
  "pw_read_string ctx ptr len bufsz =
     (if len = 0 then Some []
      else if unat len \<ge> bufsz then None
      else if \<not> pw_validate_region ctx ptr len then None
      else case pw_mem_ptr ctx ptr of
             None \<Rightarrow> None
           | Some src \<Rightarrow> Some (chunk src (unat len) (memory ctx)))"

definition pw_alloc_wasm :: "'z guest_scheme \<Rightarrow> u32 \<Rightarrow> 'z guest_scheme \<times> u32 option" where
  "pw_alloc_wasm ctx sz =
     (if \<not> allocator_valid ctx then (ctx, None)
      else let (r, m) = allocator ctx sz (memory ctx) in (ctx\<lparr>memory := m\<rparr>, r))"

text \<open>The Boolean is whether the C routine returned 0.\<close>

definition pw_write_u32 :: "'z guest_scheme \<Rightarrow> u32 \<Rightarrow> u32 \<Rightarrow> 'z guest_scheme \<times> bool" where
  "pw_write_u32 ctx offset value =
     (if \<not> pw_validate_region ctx offset 4 then (ctx, False)
      else case pw_mem_ptr ctx offset of
             None \<Rightarrow> (ctx, False)
           | Some dst \<Rightarrow> (mem_store dst (put32 value) ctx, True))"

definition pw_return_bytes ::
  "'z guest_scheme \<Rightarrow> bytes option \<Rightarrow> nat \<Rightarrow> u32 \<Rightarrow> u32 \<Rightarrow> 'z guest_scheme \<times> bool" where
  "pw_return_bytes ctx data len ret_data_offset ret_size_offset =
     (if data = None \<or> len = 0 then
        (case pw_write_u32 ctx ret_data_offset 0 of
           (ctx, False) \<Rightarrow> (ctx, False)
         | (ctx, True) \<Rightarrow> pw_write_u32 ctx ret_size_offset 0)
      else
        (case pw_alloc_wasm ctx (of_nat len) of
           (ctx, None) \<Rightarrow> (ctx, False)
         | (ctx, Some wasm_ptr) \<Rightarrow>
             if \<not> pw_validate_region ctx wasm_ptr (of_nat len) then (ctx, False)
             else
               (let ctx = (case pw_mem_ptr ctx wasm_ptr of
                             None \<Rightarrow> ctx
                           | Some p \<Rightarrow> mem_store p (take len (the data)) ctx)
                in case pw_write_u32 ctx ret_data_offset wasm_ptr of
                     (ctx, False) \<Rightarrow> (ctx, False)
                   | (ctx, True) \<Rightarrow> pw_write_u32 ctx ret_size_offset (of_nat len))))"

definition pw_return_string ::
  "'z guest_scheme \<Rightarrow> bytes option \<Rightarrow> nat \<Rightarrow> u32 \<Rightarrow> u32 \<Rightarrow> 'z guest_scheme \<times> bool" where
  "pw_return_string ctx str len ret_data_offset ret_size_offset =
     pw_return_bytes ctx str len ret_data_offset ret_size_offset"

section \<open>Lemmas\<close>

lemma unat_u32_sum64: "unat (ucast (a :: u32) + ucast (b :: u32) :: u64) = unat a + unat b"
proof -
  have "unat a < 2 ^ 32" "unat b < 2 ^ 32"
    using unsigned_less [of a, where 'a = nat] unsigned_less [of b, where 'a = nat] by simp_all
  then show ?thesis
    by (simp add: unat_word_ariths unsigned_ucast_eq take_bit_nat_eq_self)
qed

lemma validate_region_iff:
  "pw_validate_region ctx offset len \<longleftrightarrow>
     memory_valid ctx \<and> wasm_ctx ctx \<and> unat offset + unat len \<le> length (memory ctx)"
  by (auto simp: pw_validate_region_def pw_mem_base_def unat_u32_sum64)

lemma mem_ptr_valid: "pw_validate_region ctx p n \<Longrightarrow> pw_mem_ptr ctx p = Some (unat p)"
  by (simp add: validate_region_iff pw_mem_ptr_def pw_mem_base_def)

lemma write_u32_cases:
  "pw_write_u32 ctx off v =
     (if pw_validate_region ctx off 4
      then (ctx\<lparr>memory := put (unat off) (put32 v) (memory ctx)\<rparr>, True) else (ctx, False))"
  by (simp add: pw_write_u32_def mem_ptr_valid)
     (simp add: mem_store_def validate_region_iff)

text \<open>What a successful \<open>pw_return_bytes\<close> leaves in memory, and when it succeeds.\<close>

definition apart :: "nat \<Rightarrow> nat \<Rightarrow> nat \<Rightarrow> nat \<Rightarrow> bool" where
  "apart a n b m \<longleftrightarrow> a + n \<le> b \<or> b + m \<le> a"

lemma chunk_put_apart [chunk_simps]:
  "apart a n off (length ys) \<Longrightarrow> off + length ys \<le> length xs \<Longrightarrow>
   chunk a n (put off ys xs) = chunk a n xs"
  by (auto simp: apart_def chunk_put_before chunk_put_after)

lemma return_bytes_empty:
  "pw_return_bytes ctx data 0 d s =
     (if pw_validate_region ctx d 4 then pw_write_u32 (fst (pw_write_u32 ctx d 0)) s 0
      else (ctx, False))"
  by (simp add: pw_return_bytes_def write_u32_cases)

lemma return_bytes_nonempty:
  assumes "data \<noteq> []" "length data < 2 ^ 32"
    and "memory_valid ctx" "wasm_ctx ctx" "allocator_valid ctx"
    and "allocator ctx (of_nat (length data)) (memory ctx) = (Some p, m)"
    and "unat p + length data \<le> length m"
    and "unat d + 4 \<le> length m" "unat s + 4 \<le> length m"
  shows "pw_return_bytes ctx (Some data) (length data) d s =
    (ctx\<lparr>memory := put (unat s) (put32 (of_nat (length data)))
       (put (unat d) (put32 p) (put (unat p) data m))\<rparr>, True)"
  using assms
  by (simp add: pw_return_bytes_def pw_alloc_wasm_def write_u32_cases validate_region_iff
      unat_of_nat_u32 length_put pw_mem_ptr_def pw_mem_base_def mem_store_def)

lemma return_bytes_delivers:
  assumes "data \<noteq> []" "length data < 2 ^ 32"
    and "memory_valid ctx" "wasm_ctx ctx" "allocator_valid ctx"
    and "allocator ctx (of_nat (length data)) (memory ctx) = (Some p, m)"
    and "unat p + length data \<le> length m"
    and "unat d + 4 \<le> length m" "unat s + 4 \<le> length m"
    and "apart (unat p) (length data) (unat d) 4" "apart (unat p) (length data) (unat s) 4"
    and "apart (unat d) 4 (unat s) 4"
  shows "\<exists>ctx'. pw_return_bytes ctx (Some data) (length data) d s = (ctx', True) \<and>
    get32 (chunk (unat d) 4 (memory ctx')) = p \<and>
    get32 (chunk (unat s) 4 (memory ctx')) = of_nat (length data) \<and>
    pw_read_string ctx' p (of_nat (length data)) (length data + 1) = Some data"
proof -
  have "of_nat (length data) \<noteq> (0 :: u32)"
    using assms(1,2) unat_of_nat_u32 [of "length data"] by (metis length_0_conv unat_0)
  then show ?thesis
    using assms
    by (simp add: return_bytes_nonempty pw_read_string_def validate_region_iff pw_mem_ptr_def pw_mem_base_def
        unat_of_nat_u32 chunk_simps)
qed

lemma return_bytes_no_fault:
  assumes "len < 2 ^ 32"
  shows "mem_fault (fst (pw_return_bytes ctx data len d s)) = mem_fault ctx"
proof (cases "data = None \<or> len = 0")
  case True
  then show ?thesis by (auto simp: pw_return_bytes_def write_u32_cases)
next
  case False
  then obtain bs where bs: "data = Some bs" "len \<noteq> 0" by auto
  have "unat (of_nat len :: u32) = len" using assms by (rule unat_of_nat_u32)
  then show ?thesis
    by (auto simp: pw_return_bytes_def pw_alloc_wasm_def write_u32_cases bs pw_mem_ptr_def pw_mem_base_def
        mem_store_def validate_region_iff Let_def
        split: prod.splits option.splits)
qed

section \<open>Lemmas: what the routines leave alone\<close>

text \<open>They change the linear memory and the fault flag only.\<close>

definition mem_only :: "'z guest_scheme \<Rightarrow> 'z guest_scheme \<Rightarrow> bool" where
  "mem_only ctx ctx' \<longleftrightarrow> ctx'\<lparr>memory := [], mem_fault := False\<rparr> = ctx\<lparr>memory := [], mem_fault := False\<rparr>"

lemma mem_only_refl [simp]: "mem_only ctx ctx"
  by (simp add: mem_only_def)

lemma mem_only_trans: "mem_only a b \<Longrightarrow> mem_only b c \<Longrightarrow> mem_only a c"
  by (simp add: mem_only_def)

lemma mem_onlyE:
  assumes "mem_only ctx ctx'"
  obtains m f where "ctx' = ctx\<lparr>memory := m, mem_fault := f\<rparr>"
proof -
  have "ctx'\<lparr>memory := [], mem_fault := False\<rparr>\<lparr>memory := memory ctx', mem_fault := mem_fault ctx'\<rparr> =
      ctx\<lparr>memory := [], mem_fault := False\<rparr>\<lparr>memory := memory ctx', mem_fault := mem_fault ctx'\<rparr>"
    using assms by (simp only: mem_only_def)
  then show ?thesis using that by simp
qed

lemma mem_only_memory [simp]: "mem_only ctx (ctx'\<lparr>memory := m\<rparr>) = mem_only ctx ctx'"
  by (simp add: mem_only_def)

lemma store_mem_only [simp]: "mem_only ctx (mem_store p bs ctx') = mem_only ctx ctx'"
  by (simp add: mem_only_def mem_store_def)

lemma write_mem_only: "pw_write_u32 ctx' off v = (c, ok) \<Longrightarrow> mem_only ctx ctx' \<Longrightarrow> mem_only ctx c"
  by (auto simp: write_u32_cases split: if_splits)

lemma alloc_mem_only: "pw_alloc_wasm ctx n = (c, r) \<Longrightarrow> mem_only ctx c"
  by (auto simp: pw_alloc_wasm_def split: if_splits prod.splits)

lemma return_mem_only: "pw_return_bytes ctx data len d s = (c, ok) \<Longrightarrow> mem_only ctx c"
  by (auto simp: pw_return_bytes_def Let_def dest!: alloc_mem_only write_mem_only
      split: if_splits prod.splits option.splits bool.splits)

section \<open>Properties\<close>

text \<open>C22: a buffer handed to the guest arrives. When the guest's allocator returns a block that fits
  in the memory it leaves, and that block and the two result slots do not overlap, \<open>pw_return_bytes\<close>
  succeeds; the guest then reads the block's address and the length from the two slots, and the
  bytes at that address are the host's bytes.\<close>

theorem return_bytes_roundtrip:
  assumes "data \<noteq> []" "length data < 2 ^ 32"
    and "memory_valid ctx" "wasm_ctx ctx" "allocator_valid ctx"
    and "allocator ctx (of_nat (length data)) (memory ctx) = (Some p, m)"
    and "unat p + length data \<le> length m"
    and "unat d + 4 \<le> length m" "unat s + 4 \<le> length m"
    and "apart (unat p) (length data) (unat d) 4" "apart (unat p) (length data) (unat s) 4"
    and "apart (unat d) 4 (unat s) 4"
  shows "\<exists>ctx'. pw_return_bytes ctx (Some data) (length data) d s = (ctx', True) \<and>
    get32 (chunk (unat d) 4 (memory ctx')) = p \<and>
    get32 (chunk (unat s) 4 (memory ctx')) = of_nat (length data) \<and>
    pw_read_string ctx' p (of_nat (length data)) (length data + 1) = Some data"
  using assms by (rule return_bytes_delivers)

theorem return_bytes_roundtrip_witness:
  "\<exists>ctx'. pw_return_bytes
      \<lparr>memory_valid = True, wasm_ctx = True, memory = replicate 16 NUL, allocator_valid = True,
       allocator = (\<lambda>n m. (Some 8, m)), mem_fault = False\<rparr> (Some ''GET'') (length ''GET'') 0 4
      = (ctx', True) \<and>
    get32 (chunk 0 4 (memory ctx')) = 8 \<and> get32 (chunk 4 4 (memory ctx')) = 3 \<and>
    pw_read_string ctx' 8 3 (length ''GET'' + 1) = Some ''GET''"
  using return_bytes_roundtrip [of "''GET''"
      "\<lparr>memory_valid = True, wasm_ctx = True, memory = replicate 16 NUL, allocator_valid = True,
        allocator = (\<lambda>n m. (Some 8, m)), mem_fault = False\<rparr>" 8 "replicate 16 NUL" 0 4]
  by (simp add: apart_def)

text \<open>Handing a buffer to the guest never writes outside the linear memory, whatever pointer the
  guest's allocator returns, however it changes the memory, and wherever the result slots are, for
  every length that fits the 32-bit ABI.\<close>

theorem return_bytes_in_bounds:
  assumes "len < 2 ^ 32" "\<not> mem_fault ctx"
  shows "\<not> mem_fault (fst (pw_return_bytes ctx data len d s))"
  using assms by (simp add: return_bytes_no_fault)

theorem return_bytes_in_bounds_witness:
  "\<not> mem_fault (fst (pw_return_bytes
      \<lparr>memory_valid = True, wasm_ctx = True, memory = replicate 16 NUL, allocator_valid = True,
       allocator = (\<lambda>n m. (Some 0xFFFFFFFF, m)), mem_fault = False\<rparr>
      (Some ''GET'') 3 0 4))"
  using return_bytes_in_bounds [of 3
      "\<lparr>memory_valid = True, wasm_ctx = True, memory = replicate 16 NUL, allocator_valid = True,
        allocator = (\<lambda>n m. (Some 0xFFFFFFFF, m)), mem_fault = False\<rparr>" "Some ''GET''" 0 4]
  by simp

text \<open>A string argument read from the guest is exactly the guest's bytes, never overruns the host
  buffer (the terminating NUL included), and is refused unless the region lies in linear memory.\<close>

theorem read_string_spec:
  "pw_read_string ctx ptr len bufsz = Some s \<longleftrightarrow>
     (if len = 0 then s = []
      else unat len < bufsz \<and> memory_valid ctx \<and> wasm_ctx ctx \<and>
           unat ptr + unat len \<le> length (memory ctx) \<and>
           s = chunk (unat ptr) (unat len) (memory ctx))"
  by (auto simp: pw_read_string_def validate_region_iff pw_mem_ptr_def pw_mem_base_def)

end
