(* ===== verification/Shared_Data.thy ===== *)
theory Shared_Data
  imports Prelude
begin

unbundle bit_operations_syntax

text \<open>
  The shared key-value store of \<^verbatim>\<open>src/proxy_wasm_shared.c\<close>: a 64-bucket chained hash table with a
  compare-and-swap token per entry. Each operation runs under the store's \<open>rwlock\<close>, so it is one
  atomic step here. An entry's key buffer is kept as the code fills it, the key bytes and a NUL.

  The interface locale \<open>cas_store\<close> states what a client of such a store may rely on; the model is
  an instance of it, and the properties of the store rest on that.
\<close>

section \<open>State\<close>

definition VWASM_SHARED_DATA_BUCKETS :: nat where "VWASM_SHARED_DATA_BUCKETS = 64"
definition VWASM_SHARED_DATA_MAX_KEY :: nat where "VWASM_SHARED_DATA_MAX_KEY = 256"
definition VWASM_SHARED_DATA_MAX_VALUE :: nat where "VWASM_SHARED_DATA_MAX_VALUE = 65536"

lemmas shared_data_limits =
  VWASM_SHARED_DATA_BUCKETS_def VWASM_SHARED_DATA_MAX_KEY_def VWASM_SHARED_DATA_MAX_VALUE_def

record shared_entry =
  se_key :: bytes
  se_value :: "bytes option"
  se_value_len :: nat
  se_cas :: u32

record shared_data =
  sd_buckets :: "shared_entry list list"

section \<open>Operations\<close>

text \<open>FNV-1a: \<open>hash ^= byte; hash *= 16777619\<close> in 32 bits.\<close>

definition fnv1a :: "bytes \<Rightarrow> u32" where
  "fnv1a key = foldl (\<lambda>hash c. (hash XOR of_char c) * 16777619) 2166136261 key"

definition sd_bucket :: "bytes \<Rightarrow> nat" where
  "sd_bucket key = unat (fnv1a key mod of_nat VWASM_SHARED_DATA_BUCKETS)"

text \<open>\<open>strlen(entry->key) == key_len && memcmp(entry->key, key, key_len) == 0\<close>\<close>

definition sd_match :: "bytes \<Rightarrow> shared_entry \<Rightarrow> bool" where
  "sd_match key e \<longleftrightarrow> length (cstr (se_key e)) = length key \<and> take (length key) (se_key e) = key"

definition vwasm_shared_data_new :: "malloc \<Rightarrow> bool \<Rightarrow> shared_data option" where
  "vwasm_shared_data_new al rwlock_init_ok =
     (if \<not> al 0 then None
      else if \<not> rwlock_init_ok then None
      else Some \<lparr>sd_buckets = replicate VWASM_SHARED_DATA_BUCKETS []\<rparr>)"

text \<open>The caller's pointer afterwards, and the entries freed, in order.\<close>

definition vwasm_shared_data_destroy ::
  "shared_data option \<Rightarrow> shared_data option \<times> shared_entry list" where
  "vwasm_shared_data_destroy sdp =
     (case sdp of None \<Rightarrow> (None, []) | Some sd \<Rightarrow> (None, concat (sd_buckets sd)))"

text \<open>On success (\<open>Some\<close>, the C 0) the value pointer, its length and the token; \<open>None\<close> is -1.\<close>

definition vwasm_shared_data_get ::
  "malloc \<Rightarrow> shared_data option \<Rightarrow> bytes option \<Rightarrow> (bytes option \<times> nat \<times> u32) option" where
  "vwasm_shared_data_get al sdp keyp =
     (case (sdp, keyp) of
        (Some sd, Some key) \<Rightarrow>
          if key = [] then None
          else
            (case find (sd_match key) (sd_buckets sd ! sd_bucket key) of
               None \<Rightarrow> None
             | Some entry \<Rightarrow>
                 if se_value_len entry > 0 \<and> se_value entry \<noteq> None then
                   (if \<not> al 0 then None
                    else Some (Some (take (se_value_len entry) (the (se_value entry))),
                               se_value_len entry, se_cas entry))
                 else Some (None, 0, se_cas entry))
      | _ \<Rightarrow> None)"

text \<open>The allocations are, in order, the value copy, the entry and the key copy. The code's results:
  0 stored, -1 token mismatch, -2 refused or out of memory.\<close>

definition vwasm_shared_data_set ::
  "malloc \<Rightarrow> shared_data option \<Rightarrow> bytes option \<Rightarrow> bytes option \<Rightarrow> nat \<Rightarrow> u32
   \<Rightarrow> shared_data option \<times> int" where
  "vwasm_shared_data_set al sdp keyp value value_len cas =
     (case (sdp, keyp) of
        (Some sd, Some key) \<Rightarrow>
          if key = [] then (sdp, -2)
          else if length key > VWASM_SHARED_DATA_MAX_KEY then (sdp, -2)
          else if value_len > VWASM_SHARED_DATA_MAX_VALUE then (sdp, -2)
          else if value \<noteq> None \<and> value_len > 0 \<and> \<not> al 0 then (sdp, -2)
          else
            (let new_val = (if value \<noteq> None \<and> value_len > 0
                            then Some (take value_len (the value)) else None);
                 b = sd_bucket key;
                 chain = sd_buckets sd ! b
             in case find_index (sd_match key) chain of
                  Some i \<Rightarrow>
                    (let entry = chain ! i in
                     if cas \<noteq> 0 \<and> se_cas entry \<noteq> cas then (sdp, -1)
                     else (Some (sd\<lparr>sd_buckets := (sd_buckets sd)[b := chain[i :=
                             entry\<lparr>se_value := new_val, se_value_len := value_len,
                                    se_cas := se_cas entry + 1\<rparr>]]\<rparr>), 0))
                | None \<Rightarrow>
                    if \<not> al 1 then (sdp, -2)
                    else if \<not> al 2 then (sdp, -2)
                    else (Some (sd\<lparr>sd_buckets := (sd_buckets sd)[b :=
                            \<lparr>se_key = key @ [NUL], se_value = new_val,
                             se_value_len = value_len, se_cas = 1\<rparr> # chain]\<rparr>), 0))
      | _ \<Rightarrow> (sdp, -2))"

section \<open>Invariant and abstraction\<close>

definition sd_entry_key :: "shared_entry \<Rightarrow> bytes" where
  "sd_entry_key e = butlast (se_key e)"

definition sd_entry_ok :: "nat \<Rightarrow> shared_entry \<Rightarrow> bool" where
  "sd_entry_ok b e \<longleftrightarrow>
     se_key e = sd_entry_key e @ [NUL] \<and> sd_entry_key e \<noteq> [] \<and>
     length (sd_entry_key e) \<le> VWASM_SHARED_DATA_MAX_KEY \<and> sd_bucket (sd_entry_key e) = b \<and>
     se_value_len e \<le> VWASM_SHARED_DATA_MAX_VALUE \<and>
     (case se_value e of None \<Rightarrow> True | Some v \<Rightarrow> length v = se_value_len e \<and> 0 < se_value_len e)"

text \<open>Structure: every chain holds well-formed entries that hash to it.\<close>

definition sd_wf :: "shared_data \<Rightarrow> bool" where
  "sd_wf sd \<longleftrightarrow>
     length (sd_buckets sd) = VWASM_SHARED_DATA_BUCKETS \<and>
     (\<forall>b < VWASM_SHARED_DATA_BUCKETS. list_all (sd_entry_ok b) (sd_buckets sd ! b))"

text \<open>The store invariant: structure, keys without NUL bytes, and one entry per key.\<close>

definition sd_inv :: "shared_data \<Rightarrow> bool" where
  "sd_inv sd \<longleftrightarrow> sd_wf sd \<and>
     (\<forall>b < VWASM_SHARED_DATA_BUCKETS.
        list_all (\<lambda>e. nul_free (sd_entry_key e)) (sd_buckets sd ! b) \<and>
        distinct (map sd_entry_key (sd_buckets sd ! b)))"

definition sd_entry_val :: "shared_entry \<Rightarrow> bytes" where
  "sd_entry_val e = (case se_value e of None \<Rightarrow> [] | Some v \<Rightarrow> v)"

text \<open>The map the store implements.\<close>

definition sd_abs :: "shared_data \<Rightarrow> bytes \<Rightarrow> (bytes \<times> u32) option" where
  "sd_abs sd key = map_option (\<lambda>e. (sd_entry_val e, se_cas e))
     (find (sd_match key) (sd_buckets sd ! sd_bucket key))"

section \<open>Lemmas\<close>

lemma sd_bucket_lt [simp]: "sd_bucket key < VWASM_SHARED_DATA_BUCKETS"
proof -
  have "fnv1a key mod 64 < 64" by (rule word_mod_less_divisor) simp
  then show ?thesis by (simp add: sd_bucket_def shared_data_limits word_less_nat_alt)
qed

text \<open>The key comparison stops at the first NUL of the stored key.\<close>

lemma sd_match_entry:
  assumes "sd_entry_ok b e"
  shows "sd_match key e \<longleftrightarrow> cstr (sd_entry_key e) = key"
proof -
  let ?K = "sd_entry_key e"
  have key: "se_key e = ?K @ [NUL]" using assms by (simp add: sd_entry_ok_def)
  then have 1: "cstr (se_key e) = cstr ?K" using cstr_append_nul [of ?K "[]"] by simp
  have 2: "take (length (cstr ?K)) ?K = cstr ?K" by (metis cstr_def takeWhile_eq_take)
  have 3: "length (cstr ?K) \<le> length ?K" by (rule length_cstr_le)
  have "take (length (cstr ?K)) (se_key e) = cstr ?K" using 2 3 by (simp add: key)
  then show ?thesis unfolding sd_match_def 1 by auto
qed

lemma sd_wf_bucket: "sd_wf sd \<Longrightarrow> e \<in> set (sd_buckets sd ! sd_bucket k) \<Longrightarrow> sd_entry_ok (sd_bucket k) e"
  by (auto simp: sd_wf_def list_all_iff)

text \<open>What a successful store leaves, and when it stores.\<close>

definition sd_new_entry :: "bytes \<Rightarrow> bytes \<Rightarrow> shared_entry" where
  "sd_new_entry k v = \<lparr>se_key = k @ [NUL], se_value = (if v = [] then None else Some v),
     se_value_len = length v, se_cas = 1\<rparr>"

definition sd_upd_entry :: "shared_entry \<Rightarrow> bytes \<Rightarrow> shared_entry" where
  "sd_upd_entry e v = e\<lparr>se_value := (if v = [] then None else Some v),
     se_value_len := length v, se_cas := se_cas e + 1\<rparr>"

definition sd_okkey :: "bytes \<Rightarrow> bool" where
  "sd_okkey k \<longleftrightarrow> k \<noteq> [] \<and> length k \<le> VWASM_SHARED_DATA_MAX_KEY"

definition sd_okval :: "bytes \<Rightarrow> bool" where
  "sd_okval v \<longleftrightarrow> length v \<le> VWASM_SHARED_DATA_MAX_VALUE"

lemma set_new:
  assumes "sd_okkey k" "sd_okval v" "al 0" "al 1" "al 2"
    and "find_index (sd_match k) (sd_buckets sd ! sd_bucket k) = None"
  shows "vwasm_shared_data_set al (Some sd) (Some k) (Some v) (length v) cas =
    (Some (sd\<lparr>sd_buckets := (sd_buckets sd)[sd_bucket k :=
       sd_new_entry k v # sd_buckets sd ! sd_bucket k]\<rparr>), 0)"
  using assms
  by (auto simp: vwasm_shared_data_set_def sd_okkey_def sd_okval_def sd_new_entry_def Let_def)

lemma set_update:
  assumes "sd_okkey k" "sd_okval v" "al 0"
    and "find_index (sd_match k) (sd_buckets sd ! sd_bucket k) = Some i"
  shows "vwasm_shared_data_set al (Some sd) (Some k) (Some v) (length v) cas =
    (let e = sd_buckets sd ! sd_bucket k ! i in
     if cas \<noteq> 0 \<and> se_cas e \<noteq> cas then (Some sd, -1)
     else (Some (sd\<lparr>sd_buckets := (sd_buckets sd)[sd_bucket k :=
             (sd_buckets sd ! sd_bucket k)[i := sd_upd_entry e v]]\<rparr>), 0))"
  using assms
  by (auto simp: vwasm_shared_data_set_def sd_okkey_def sd_okval_def sd_upd_entry_def Let_def)

lemma new_entry_ok:
  "sd_okkey k \<Longrightarrow> sd_okval v \<Longrightarrow> sd_entry_ok (sd_bucket k) (sd_new_entry k v)"
  by (simp add: sd_entry_ok_def sd_entry_key_def sd_new_entry_def sd_okkey_def sd_okval_def)

lemma upd_entry_key [simp]: "sd_entry_key (sd_upd_entry e v) = sd_entry_key e"
  by (simp add: sd_entry_key_def sd_upd_entry_def)

lemma new_entry_key [simp]: "sd_entry_key (sd_new_entry k v) = k"
  by (simp add: sd_entry_key_def sd_new_entry_def)

lemma upd_entry_ok: "sd_entry_ok b e \<Longrightarrow> sd_okval v \<Longrightarrow> sd_entry_ok b (sd_upd_entry e v)"
  by (auto simp: sd_entry_ok_def sd_okval_def) (simp_all add: sd_upd_entry_def)

lemma entry_val_new [simp]: "sd_entry_val (sd_new_entry k v) = v" "se_cas (sd_new_entry k v) = 1"
  by (simp_all add: sd_entry_val_def sd_new_entry_def)

lemma entry_val_upd [simp]:
  "sd_entry_val (sd_upd_entry e v) = v" "se_cas (sd_upd_entry e v) = se_cas e + 1"
  by (simp_all add: sd_entry_val_def sd_upd_entry_def)

lemma sd_wf_update:
  "sd_wf sd \<Longrightarrow> list_all (sd_entry_ok b) chain \<Longrightarrow>
   sd_wf (sd\<lparr>sd_buckets := (sd_buckets sd)[b := chain]\<rparr>)"
  by (auto simp: sd_wf_def nth_list_update_if)

lemma sd_inv_length: "sd_inv sd \<Longrightarrow> length (sd_buckets sd) = VWASM_SHARED_DATA_BUCKETS"
  by (simp add: sd_inv_def sd_wf_def)

lemma sd_inv_update:
  assumes "sd_inv sd" "list_all (sd_entry_ok b) chain"
    and "list_all (\<lambda>e. nul_free (sd_entry_key e)) chain" "distinct (map sd_entry_key chain)"
  shows "sd_inv (sd\<lparr>sd_buckets := (sd_buckets sd)[b := chain]\<rparr>)"
  using assms sd_inv_length [OF assms(1)]
  by (auto simp: sd_inv_def sd_wf_update nth_list_update_if)

lemma sd_inv_chain:
  assumes "sd_inv sd"
  shows "list_all (sd_entry_ok (sd_bucket k)) (sd_buckets sd ! sd_bucket k)"
    and "list_all (\<lambda>e. nul_free (sd_entry_key e)) (sd_buckets sd ! sd_bucket k)"
    and "distinct (map sd_entry_key (sd_buckets sd ! sd_bucket k))"
  using assms by (simp_all add: sd_inv_def sd_wf_def)

lemma sd_inv_match:
  assumes "sd_inv sd" "e \<in> set (sd_buckets sd ! sd_bucket k)"
  shows "sd_match k' e \<longleftrightarrow> sd_entry_key e = k'"
proof -
  have "sd_entry_ok (sd_bucket k) e" "nul_free (sd_entry_key e)"
    using sd_inv_chain(1,2) [OF assms(1), of k] assms(2) by (auto simp: list_all_iff)
  then show ?thesis by (simp add: sd_match_entry cstr_id)
qed

lemma inv_set_new:
  assumes "sd_inv sd" "sd_okkey k" "nul_free k" "sd_okval v"
    and "find_index (sd_match k) (sd_buckets sd ! sd_bucket k) = None"
  shows "sd_inv (sd\<lparr>sd_buckets := (sd_buckets sd)[sd_bucket k :=
       sd_new_entry k v # sd_buckets sd ! sd_bucket k]\<rparr>)"
proof (rule sd_inv_update)
  have "k \<notin> sd_entry_key ` set (sd_buckets sd ! sd_bucket k)"
    using assms(5) sd_inv_match [OF assms(1)] by (force simp: find_index_None)
  then show "distinct (map sd_entry_key (sd_new_entry k v # sd_buckets sd ! sd_bucket k))"
    using sd_inv_chain(3) [OF assms(1), of k] by simp
qed (use assms sd_inv_chain [OF assms(1), of k] in \<open>simp_all add: new_entry_ok\<close>)

lemma inv_set_update:
  assumes "sd_inv sd" "sd_okval v"
    and "i < length (sd_buckets sd ! sd_bucket k)"
  shows "sd_inv (sd\<lparr>sd_buckets := (sd_buckets sd)[sd_bucket k := (sd_buckets sd ! sd_bucket k)[i :=
       sd_upd_entry (sd_buckets sd ! sd_bucket k ! i) v]]\<rparr>)"
proof (rule sd_inv_update)
  let ?c = "sd_buckets sd ! sd_bucket k"
  note chain = sd_inv_chain [OF assms(1), of k]
  show "list_all (sd_entry_ok (sd_bucket k)) (?c[i := sd_upd_entry (?c ! i) v])"
    using chain(1) assms(2,3) by (auto simp: list_all_length nth_list_update_if upd_entry_ok)
  show "list_all (\<lambda>e. nul_free (sd_entry_key e)) (?c[i := sd_upd_entry (?c ! i) v])"
    using chain(2) assms(3) by (auto simp: list_all_length nth_list_update_if)
  have "map sd_entry_key (?c[i := sd_upd_entry (?c ! i) v]) = map sd_entry_key ?c"
    using assms(3) by (simp add: map_update list_update_same_conv)
  then show "distinct (map sd_entry_key (?c[i := sd_upd_entry (?c ! i) v]))"
    using chain(3) by (metis (no_types))
qed (rule assms(1))

lemma sd_match_same_key: "se_key e = se_key e' \<Longrightarrow> sd_match k e = sd_match k e'"
  by (simp add: sd_match_def)

lemma upd_entry_se_key [simp]: "se_key (sd_upd_entry e v) = se_key e"
  by (simp add: sd_upd_entry_def)

lemma sd_abs_update:
  assumes "length (sd_buckets sd) = VWASM_SHARED_DATA_BUCKETS"
  shows "sd_abs (sd\<lparr>sd_buckets := (sd_buckets sd)[sd_bucket k := chain]\<rparr>) k' =
    (if sd_bucket k' = sd_bucket k
     then map_option (\<lambda>e. (sd_entry_val e, se_cas e)) (find (sd_match k') chain)
     else sd_abs sd k')"
  using assms by (auto simp: sd_abs_def nth_list_update_if)

lemma sd_match_new: "nul_free k \<Longrightarrow> sd_match k' (sd_new_entry k v) \<longleftrightarrow> k' = k"
  by (auto simp: sd_match_def sd_new_entry_def cstr_append_nul cstr_id)

lemma abs_set_new:
  assumes "sd_inv sd" "nul_free k"
  shows "sd_abs (sd\<lparr>sd_buckets := (sd_buckets sd)[sd_bucket k :=
       sd_new_entry k v # sd_buckets sd ! sd_bucket k]\<rparr>) = (sd_abs sd)(k \<mapsto> (v, 1))"
  using sd_inv_length [OF assms(1)] assms(2)
  by (auto simp: fun_eq_iff sd_abs_update sd_match_new) (simp add: sd_abs_def)

lemma abs_set_update:
  assumes "sd_inv sd" "find_index (sd_match k) (sd_buckets sd ! sd_bucket k) = Some i"
  shows "sd_abs (sd\<lparr>sd_buckets := (sd_buckets sd)[sd_bucket k := (sd_buckets sd ! sd_bucket k)[i :=
       sd_upd_entry (sd_buckets sd ! sd_bucket k ! i) v]]\<rparr>) =
    (sd_abs sd)(k \<mapsto> (v, se_cas (sd_buckets sd ! sd_bucket k ! i) + 1))" (is "?l = ?r")
proof
  fix k'
  let ?c = "sd_buckets sd ! sd_bucket k"
  let ?e = "sd_upd_entry (?c ! i) v"
  have i: "i < length ?c" "sd_match k (?c ! i)" using assms(2) by (auto simp: find_index_Some)
  have same: "sd_match k' ?e = sd_match k' (?c ! i)" by (rule sd_match_same_key) simp
  have "sd_match k' (?c ! i) \<longleftrightarrow> k' = k"
    using sd_inv_match [OF assms(1), of "?c ! i" k] i by auto
  then show "?l k' = ?r k'"
    using sd_inv_length [OF assms(1)] assms(2) same
    by (cases "k' = k") (auto simp: sd_abs_update find_update_first find_update_other,
        simp add: sd_abs_def)
qed

lemma sd_abs_index:
  "sd_abs sd k = (case find_index (sd_match k) (sd_buckets sd ! sd_bucket k) of None \<Rightarrow> None
     | Some i \<Rightarrow> Some (sd_entry_val (sd_buckets sd ! sd_bucket k ! i),
                       se_cas (sd_buckets sd ! sd_bucket k ! i)))"
  by (simp add: sd_abs_def find_conv_index split: option.splits)

lemma get_abs:
  assumes "sd_inv sd" "k \<noteq> []"
  shows "vwasm_shared_data_get mem_ok (Some sd) (Some k) =
    map_option (\<lambda>(v, c). (if v = [] then None else Some v, length v, c)) (sd_abs sd k)"
proof (cases "find (sd_match k) (sd_buckets sd ! sd_bucket k)")
  case None
  then show ?thesis using assms(2) by (simp add: vwasm_shared_data_get_def sd_abs_def)
next
  case (Some e)
  then have "e \<in> set (sd_buckets sd ! sd_bucket k)" by (auto simp: find_Some_iff)
  then have "sd_entry_ok (sd_bucket k) e"
    using sd_inv_chain(1) [OF assms(1), of k] by (auto simp: list_all_iff)
  then show ?thesis using Some assms(2)
    by (auto simp: vwasm_shared_data_get_def sd_abs_def sd_entry_ok_def sd_entry_val_def
        split: option.splits)
qed

section \<open>The interface: a store with compare-and-swap tokens\<close>

text \<open>A run of store operations by any number of clients, counting those that stored to \<open>k\<close>.\<close>

fun run_sets ::
  "('s \<Rightarrow> 'k \<Rightarrow> 'v \<Rightarrow> u32 \<Rightarrow> 's \<times> int) \<Rightarrow> 'k \<Rightarrow> ('k \<times> 'v \<times> u32) list \<Rightarrow> 's \<Rightarrow> 's \<times> nat" where
  "run_sets st k [] s = (s, 0)"
| "run_sets st k ((k', v, c) # ops) s =
     (let (s1, r) = st s k' v c; (s2, n) = run_sets st k ops s1
      in (s2, (if k' = k \<and> r = 0 then 1 else 0) + n))"

locale cas_store =
  fixes lookup :: "'s \<Rightarrow> 'k \<Rightarrow> ('v \<times> u32) option"
    and store :: "'s \<Rightarrow> 'k \<Rightarrow> 'v \<Rightarrow> u32 \<Rightarrow> 's \<times> int"
    and invar :: "'s \<Rightarrow> bool"
    and okkey :: "'k \<Rightarrow> bool"
    and okval :: "'v \<Rightarrow> bool"
  assumes store_fresh: "invar s \<Longrightarrow> okkey k \<Longrightarrow> okval v \<Longrightarrow> lookup s k = None \<Longrightarrow>
      \<exists>s'. store s k v c = (s', 0) \<and> invar s' \<and> lookup s' = (lookup s)(k \<mapsto> (v, 1))"
    and store_match: "invar s \<Longrightarrow> okkey k \<Longrightarrow> okval v \<Longrightarrow> lookup s k = Some (w, t) \<Longrightarrow>
      c = 0 \<or> c = t \<Longrightarrow>
      \<exists>s'. store s k v c = (s', 0) \<and> invar s' \<and> lookup s' = (lookup s)(k \<mapsto> (v, t + 1))"
    and store_stale: "invar s \<Longrightarrow> okkey k \<Longrightarrow> okval v \<Longrightarrow> lookup s k = Some (w, t) \<Longrightarrow>
      c \<noteq> 0 \<Longrightarrow> c \<noteq> t \<Longrightarrow> store s k v c = (s, -1)"
    and store_refused: "\<not> okval v \<Longrightarrow> store s k v c = (s, -2)"
begin

lemma store_cases:
  assumes "invar s" "okkey k'"
  obtains (stored) s' where "store s k' v c = (s', 0)" "invar s'"
      "lookup s' = (lookup s)(k' \<mapsto> (v, case lookup s k' of None \<Rightarrow> 1 | Some (w, t) \<Rightarrow> t + 1))"
    | (kept) r where "store s k' v c = (s, r)" "r \<noteq> 0"
proof (cases "okval v")
  case True
  show ?thesis
  proof (cases "lookup s k'")
    case None
    then show ?thesis using store_fresh [OF assms True None, of c] stored by auto
  next
    case (Some p)
    then obtain w t where p: "lookup s k' = Some (w, t)" by (cases p) auto
    show ?thesis
      using store_match [OF assms True p, of c] store_stale [OF assms True p, of c] stored kept p
      by (cases "c = 0 \<or> c = t") auto
  qed
next
  case False
  then show ?thesis using store_refused kept by auto
qed

lemma run_token:
  "invar s \<Longrightarrow> list_all (\<lambda>(k', v, c). okkey k') ops \<Longrightarrow> lookup s k = Some (w, t) \<Longrightarrow>
   run_sets store k ops s = (s', n) \<Longrightarrow> invar s' \<and> (\<exists>w'. lookup s' k = Some (w', t + of_nat n))"
proof (induction ops arbitrary: s w t n)
  case Nil
  then show ?case by simp
next
  case (Cons op ops)
  obtain k' v c where op: "op = (k', v, c)" by (cases op)
  have k': "okkey k'" using Cons.prems(2) op by simp
  from Cons.prems(1) k' show ?case
  proof (cases rule: store_cases [where v = v and c = c])
    case (stored s1)
    obtain m where run: "run_sets store k ops s1 = (s', m)" "n = (if k' = k then 1 else 0) + m"
      using Cons.prems(4) op stored(1) by (auto split: prod.splits)
    show ?thesis
      using Cons.IH [OF stored(2) _ _ run(1)] Cons.prems(2,3) stored(3) run(2)
      by (auto simp: add.assoc split: if_splits)
  next
    case (kept r)
    then have "run_sets store k ops s = (s', n)"
      using Cons.prems(4) op by (auto split: prod.splits)
    then show ?thesis using Cons.IH [OF Cons.prems(1)] Cons.prems(2,3) by auto
  qed
qed

lemma stale_token_refused:
  assumes "invar s" "list_all (\<lambda>(k', v, c). okkey k') ops" "lookup s k = Some (w, t)" "t \<noteq> 0"
    and "okkey k" "okval v" "run_sets store k ops s = (s', n)" "0 < n" "n < 2 ^ 32"
  shows "store s' k v t = (s', -1)"
proof -
  from run_token [OF assms(1-3,7)] obtain w'
    where s': "invar s'" "lookup s' k = Some (w', t + of_nat n)" by auto
  have "of_nat n \<noteq> (0 :: u32)"
    using assms(8,9) by (simp add: word_of_nat_eq_0_iff nat_dvd_not_less)
  then have "t \<noteq> t + of_nat n" by simp
  then show ?thesis by (rule store_stale [OF s'(1) assms(5,6) s'(2) assms(4)])
qed

end

section \<open>The store implements the interface\<close>

text \<open>The store operation as a client with memory to spare sees it.\<close>

definition sd_set :: "shared_data \<Rightarrow> bytes \<Rightarrow> bytes \<Rightarrow> u32 \<Rightarrow> shared_data \<times> int" where
  "sd_set sd k v cas =
     (let (sd', r) = vwasm_shared_data_set mem_ok (Some sd) (Some k) (Some v) (length v) cas
      in (the sd', r))"

definition sd_plain_key :: "bytes \<Rightarrow> bool" where
  "sd_plain_key k \<longleftrightarrow> sd_okkey k \<and> nul_free k"

interpretation sdstore: cas_store sd_abs sd_set sd_inv sd_plain_key sd_okval
proof
  fix sd k v c
  assume inv: "sd_inv sd" and k: "sd_plain_key k" and v: "sd_okval v" and none: "sd_abs sd k = None"
  have idx: "find_index (sd_match k) (sd_buckets sd ! sd_bucket k) = None"
    using none by (simp add: sd_abs_index split: option.splits)
  show "\<exists>s'. sd_set sd k v c = (s', 0) \<and> sd_inv s' \<and> sd_abs s' = (sd_abs sd)(k \<mapsto> (v, 1))"
    using inv k v idx unfolding sd_plain_key_def
    by (auto simp: sd_set_def set_new inv_set_new abs_set_new)
next
  fix sd k v w t c
  assume inv: "sd_inv sd" and k: "sd_plain_key k" and v: "sd_okval v"
    and some: "sd_abs sd k = Some (w, t)" and c: "c = 0 \<or> c = t"
  obtain i where idx: "find_index (sd_match k) (sd_buckets sd ! sd_bucket k) = Some i"
    and t: "se_cas (sd_buckets sd ! sd_bucket k ! i) = t"
    using some by (auto simp: sd_abs_index split: option.splits)
  show "\<exists>s'. sd_set sd k v c = (s', 0) \<and> sd_inv s' \<and> sd_abs s' = (sd_abs sd)(k \<mapsto> (v, t + 1))"
    using inv k v idx t c find_index_lt [OF idx] unfolding sd_plain_key_def
    by (auto simp: sd_set_def set_update inv_set_update abs_set_update Let_def)
next
  fix sd k v w t c
  assume "sd_plain_key k" "sd_okval v" "sd_abs sd k = Some (w, t)" "c \<noteq> 0" "c \<noteq> t"
  then show "sd_set sd k v c = (sd, - 1)"
    by (auto simp: sd_plain_key_def sd_abs_index sd_set_def set_update Let_def split: option.splits)
next
  fix sd k v c
  assume "\<not> sd_okval v"
  then show "sd_set sd k v c = (sd, - 2)"
    by (auto simp: sd_set_def sd_okval_def vwasm_shared_data_set_def)
qed

text \<open>The table \<open>vwasm_shared_data_new\<close> returns.\<close>

definition sd_empty :: shared_data where
  "sd_empty = \<lparr>sd_buckets = replicate VWASM_SHARED_DATA_BUCKETS []\<rparr>"

section \<open>Properties\<close>

text \<open>A value stored under a key is the value a lookup of that key returns, with its token (1 for
  a new key, the old token plus one otherwise, modulo \<open>2^32\<close>), and every other key keeps its value
  and token. Keys are up to 256 bytes without NUL, values up to 64 KiB, and the token presented is 0 or
  the current one.\<close>

theorem shared_data_get_after_set:
  assumes "sd_inv sd" "sd_plain_key k" "sd_okval v" "k' \<noteq> []"
    and "\<forall>w t. sd_abs sd k = Some (w, t) \<longrightarrow> cas = 0 \<or> cas = t"
  shows "\<exists>sd'. vwasm_shared_data_set mem_ok (Some sd) (Some k) (Some v) (length v) cas = (Some sd', 0) \<and>
    sd_inv sd' \<and>
    vwasm_shared_data_get mem_ok (Some sd') (Some k') =
      (if k' = k
       then Some (if v = [] then None else Some v, length v,
              case vwasm_shared_data_get mem_ok (Some sd) (Some k) of
                None \<Rightarrow> 1 | Some (_, _, t) \<Rightarrow> t + 1)
       else vwasm_shared_data_get mem_ok (Some sd) (Some k'))"
proof -
  have k: "k \<noteq> []" using assms(2) by (simp add: sd_plain_key_def sd_okkey_def)
  obtain sd' where 1: "sd_set sd k v cas = (sd', 0)" "sd_inv sd'"
    "sd_abs sd' = (sd_abs sd)(k \<mapsto> (v, case sd_abs sd k of None \<Rightarrow> 1 | Some (_, t) \<Rightarrow> t + 1))"
    using sdstore.store_fresh [OF assms(1-3), of cas] sdstore.store_match [OF assms(1-3), of _ _ cas]
      assms(5) by (cases "sd_abs sd k") auto
  then have "vwasm_shared_data_set mem_ok (Some sd) (Some k) (Some v) (length v) cas = (Some sd', 0)"
    by (auto simp: sd_set_def vwasm_shared_data_set_def Let_def
        split: prod.splits if_splits option.splits)
  then show ?thesis using 1 assms(1,4) k by (auto simp: get_abs split: option.splits)
qed

lemma empty_inv: "sd_inv sd_empty"
  by (simp add: sd_inv_def sd_wf_def sd_empty_def)

lemma empty_abs: "sd_abs sd_empty k = None"
  by (simp add: sd_abs_def sd_empty_def)

theorem shared_data_get_after_set_witness:
  "\<exists>sd'. vwasm_shared_data_set mem_ok
       (Some sd_empty)
       (Some ''limit'') (Some ''10'') (length ''10'') 0 = (Some sd', 0) \<and> sd_inv sd' \<and>
     vwasm_shared_data_get mem_ok (Some sd') (Some ''limit'') = Some (Some ''10'', length ''10'', 1)"
  using shared_data_get_after_set
    [of "sd_empty" "''limit''" "''10''" "''limit''" 0]
  by (simp add: empty_inv empty_abs get_abs sd_plain_key_def sd_okkey_def sd_okval_def nul_free_def
      VWASM_SHARED_DATA_MAX_KEY_def VWASM_SHARED_DATA_MAX_VALUE_def)


definition sd_one :: shared_data where
  "sd_one = fst (sd_set sd_empty ''k'' ''a'' 0)"

lemma sd_one_facts: "sd_inv sd_one" "sd_abs sd_one ''k'' = Some (''a'', 1)"
  using sdstore.store_fresh [OF empty_inv _ _ empty_abs, of "''k''" "''a''" 0]
  by (auto simp: sd_one_def sd_plain_key_def sd_okkey_def sd_okval_def nul_free_def
      VWASM_SHARED_DATA_MAX_KEY_def VWASM_SHARED_DATA_MAX_VALUE_def)


lemma sd_wf_set_update:
  assumes "sd_wf sd" "i < length (sd_buckets sd ! sd_bucket k)"
    and "se_key e' = se_key (sd_buckets sd ! sd_bucket k ! i)"
    and "se_value_len e' \<le> VWASM_SHARED_DATA_MAX_VALUE"
    and "case se_value e' of None \<Rightarrow> True | Some v \<Rightarrow> length v = se_value_len e' \<and> 0 < se_value_len e'"
  shows "sd_wf (sd\<lparr>sd_buckets := (sd_buckets sd)[sd_bucket k := (sd_buckets sd ! sd_bucket k)[i := e']]\<rparr>)"
proof (rule sd_wf_update [OF assms(1)])
  have "sd_entry_ok (sd_bucket k) (sd_buckets sd ! sd_bucket k ! i)"
    using assms(1,2) by (simp add: sd_wf_bucket)
  then have "sd_entry_ok (sd_bucket k) e'"
    using assms(3-5) by (simp add: sd_entry_ok_def sd_entry_key_def)
  then show "list_all (sd_entry_ok (sd_bucket k)) ((sd_buckets sd ! sd_bucket k)[i := e'])"
    using assms(1) by (auto simp: list_all_length nth_list_update_if sd_wf_bucket)
qed

text \<open>For every key (NUL bytes included), value and token, and wherever an allocation fails, the
  table keeps its shape: 64 chains, each entry in the chain its key hashes to, keys and values within
  their limits; and a result other than 0 leaves the table as it was.\<close>

theorem shared_data_set_wf:
  assumes "sd_wf sd" "\<forall>v. value = Some v \<longrightarrow> value_len \<le> length v"
    and "vwasm_shared_data_set al (Some sd) (Some key) value value_len cas = (sd', r)"
  shows "(\<exists>t. sd' = Some t \<and> sd_wf t) \<and> (r \<noteq> 0 \<longrightarrow> sd' = Some sd)"
proof (cases "find_index (sd_match key) (sd_buckets sd ! sd_bucket key)")
  case None
  have "list_all (sd_entry_ok (sd_bucket key)) (sd_buckets sd ! sd_bucket key)"
    using assms(1) by (simp add: sd_wf_def)
  then show ?thesis using assms None
    by (auto simp: vwasm_shared_data_set_def Let_def sd_entry_ok_def sd_entry_key_def
        intro!: sd_wf_update split: if_splits option.splits)
next
  case (Some i)
  then show ?thesis using assms find_index_lt [OF Some]
    by (auto simp: vwasm_shared_data_set_def Let_def
        intro!: sd_wf_set_update split: if_splits option.splits)
qed

theorem shared_data_set_wf_witness:
  "(\<exists>t. fst (vwasm_shared_data_set mem_ok (Some sd_one) (Some (''k'' @ [NUL])) (Some ''zz'') 2 7)
        = Some t \<and> sd_wf t)"
  using shared_data_set_wf [of sd_one "Some ''zz''" 2 mem_ok "''k'' @ [NUL]" 7] sd_one_facts(1)
  by (auto simp: sd_inv_def intro: prod.exhaust_sel)

text \<open>Keys are compared up to the first NUL of the stored key, though they are hashed whole. A store
  under \<open>ab\<close>, NUL, \<open>p\<close> reports success, is not found under its own key, and replaces what a lookup of
  the unrelated key \<open>ab\<close> returns.\<close>

theorem shared_data_nul_key_shadows:
  "\<exists>sd1 sd2.
     vwasm_shared_data_set mem_ok (Some sd_empty) (Some ''ab'') (Some ''1'') 1 0 = (Some sd1, 0) \<and>
     vwasm_shared_data_set mem_ok (Some sd1) (Some (''ab'' @ NUL # ''p'')) (Some ''2'') 1 0 = (Some sd2, 0) \<and>
     vwasm_shared_data_get mem_ok (Some sd2) (Some (''ab'' @ NUL # ''p'')) = None \<and>
     vwasm_shared_data_get mem_ok (Some sd2) (Some ''ab'') = Some (Some ''2'', 1, 1)"
proof -
  have b: "sd_bucket ''ab'' = 10" "sd_bucket (''ab'' @ NUL # ''p'') = 10"
    by (simp_all add: sd_bucket_def fnv1a_def shared_data_limits)
  show ?thesis
    unfolding vwasm_shared_data_set_def vwasm_shared_data_get_def sd_empty_def b prod.case option.case
    by (simp add: shared_data_limits sd_match_def cstr_def)
qed

end
