(* ===== verification/Shared_Queue.thy ===== *)
theory Shared_Queue
  imports Prelude
begin

text \<open>
  The named message queues of \<^verbatim>\<open>src/proxy_wasm_shared.c\<close>. The messages of a queue are a singly linked
  list with a head and a tail pointer, so they live in an explicit heap from addresses to message
  records: appending writes through the tail pointer, and the FIFO order is a fact about the
  pointers. Each operation runs under the store's mutex and is one atomic step. Addresses come from
  a bump counter, which models nothing of \<open>malloc\<close> but that a new block is not in use.

  The interface locale \<open>fifo_store\<close> says what a client relies on, and its simulation lemma lifts the laws
  to every interleaving of operations on every queue.
\<close>

section \<open>State\<close>

definition VWASM_QUEUE_MAX_NAME :: nat where "VWASM_QUEUE_MAX_NAME = 256"
definition VWASM_QUEUE_MAX_MSG :: nat where "VWASM_QUEUE_MAX_MSG = 65536"
definition VWASM_QUEUE_MAX_DEPTH :: u32 where "VWASM_QUEUE_MAX_DEPTH = 1024"
definition VWASM_QUEUE_MAX_COUNT :: u32 where "VWASM_QUEUE_MAX_COUNT = 64"

lemmas queue_limits = VWASM_QUEUE_MAX_NAME_def VWASM_QUEUE_MAX_MSG_def
  VWASM_QUEUE_MAX_DEPTH_def VWASM_QUEUE_MAX_COUNT_def

record queue_msg =
  qm_data :: "bytes option"
  qm_len :: nat
  qm_next :: "nat option"

record queue =
  q_vm_id :: "bytes option"
  q_name :: "bytes option"
  q_id :: u32
  q_head :: "nat option"
  q_tail :: "nat option"
  q_depth :: u32

record queue_store =
  qs_queues :: "queue list"
  qs_next_id :: u32
  qs_heap :: "nat \<Rightarrow> queue_msg option"
  qs_brk :: nat

section \<open>Operations\<close>

definition vwasm_queue_store_new :: "malloc \<Rightarrow> bool \<Rightarrow> queue_store option" where
  "vwasm_queue_store_new al mutex_init_ok =
     (if \<not> al 0 then None
      else if \<not> mutex_init_ok then None
      else Some \<lparr>qs_queues = [], qs_next_id = 1, qs_heap = (\<lambda>_. None), qs_brk = 0\<rparr>)"

text \<open>\<open>for (msg = q->head; msg; msg = mnext) { mnext = msg->next; free(msg); }\<close>, at most \<open>n\<close> times.\<close>

fun drain_msgs :: "nat \<Rightarrow> nat option \<Rightarrow> (nat \<Rightarrow> queue_msg option) \<Rightarrow> (nat \<Rightarrow> queue_msg option)" where
  "drain_msgs 0 p h = h"
| "drain_msgs (Suc n) None h = h"
| "drain_msgs (Suc n) (Some a) h =
     (case h a of None \<Rightarrow> h | Some m \<Rightarrow> drain_msgs n (qm_next m) (h(a := None)))"

text \<open>The caller's pointer and the message heap after the destructor. The heap holds at most
  \<open>qs_brk\<close> messages, which bounds every drain.\<close>

definition vwasm_queue_store_destroy ::
  "queue_store option \<Rightarrow> queue_store option \<times> (nat \<Rightarrow> queue_msg option)" where
  "vwasm_queue_store_destroy qsp =
     (case qsp of
        None \<Rightarrow> (None, \<lambda>_. None)
      | Some qs \<Rightarrow> (None, foldl (\<lambda>h q. drain_msgs (qs_brk qs) (q_head q) h) (qs_heap qs) (qs_queues qs)))"

text \<open>\<open>q->name != NULL && strlen(q->name) == name_len && memcmp(q->name, name, name_len) == 0\<close>\<close>

definition queue_name_match :: "bytes \<Rightarrow> queue \<Rightarrow> bool" where
  "queue_name_match name q \<longleftrightarrow>
     (case q_name q of None \<Rightarrow> False
      | Some b \<Rightarrow> length (cstr b) = length name \<and> take (length name) b = name)"

definition vwasm_queue_register ::
  "malloc \<Rightarrow> queue_store option \<Rightarrow> bytes option \<Rightarrow> queue_store option \<times> u32" where
  "vwasm_queue_register al qsp namep =
     (case (qsp, namep) of
        (Some qs, Some name) \<Rightarrow>
          if name = [] then (qsp, 0)
          else if length name > VWASM_QUEUE_MAX_NAME then (qsp, 0)
          else
            (case find (queue_name_match name) (qs_queues qs) of
               Some q \<Rightarrow> (qsp, q_id q)
             | None \<Rightarrow>
                 if qs_next_id qs > VWASM_QUEUE_MAX_COUNT then (qsp, 0)
                 else if \<not> al 0 then (qsp, 0)
                 else if \<not> al 1 then (qsp, 0)
                 else
                   (let q = \<lparr>q_vm_id = None, q_name = Some (name @ [NUL]), q_id = qs_next_id qs,
                             q_head = None, q_tail = None, q_depth = 0\<rparr>
                    in (Some (qs\<lparr>qs_next_id := qs_next_id qs + 1, qs_queues := q # qs_queues qs\<rparr>),
                        q_id q)))
      | _ \<Rightarrow> (qsp, 0))"

definition vwasm_queue_resolve :: "queue_store option \<Rightarrow> bytes option \<Rightarrow> bytes option \<Rightarrow> u32" where
  "vwasm_queue_resolve qsp vm_id namep =
     (case (qsp, namep) of
        (Some qs, Some name) \<Rightarrow>
          if name = [] then 0
          else (case find (queue_name_match name) (qs_queues qs) of Some q \<Rightarrow> q_id q | None \<Rightarrow> 0)
      | _ \<Rightarrow> 0)"

text \<open>Allocations: the message, then its data. The Boolean is whether the routine returned 0.\<close>

definition vwasm_queue_enqueue ::
  "malloc \<Rightarrow> queue_store option \<Rightarrow> u32 \<Rightarrow> bytes option \<Rightarrow> nat \<Rightarrow> queue_store option \<times> bool" where
  "vwasm_queue_enqueue al qsp queue_id data len =
     (case qsp of
        None \<Rightarrow> (qsp, False)
      | Some qs \<Rightarrow>
          if queue_id = 0 then (qsp, False)
          else if len > VWASM_QUEUE_MAX_MSG then (qsp, False)
          else
            (case find_index (\<lambda>q. q_id q = queue_id) (qs_queues qs) of
               None \<Rightarrow> (qsp, False)
             | Some i \<Rightarrow>
                 (let q = qs_queues qs ! i in
                  if q_depth q \<ge> VWASM_QUEUE_MAX_DEPTH then (qsp, False)
                  else if \<not> al 0 then (qsp, False)
                  else if data \<noteq> None \<and> len > 0 \<and> \<not> al 1 then (qsp, False)
                  else
                    (let msg = qs_brk qs;
                         m = (if data \<noteq> None \<and> len > 0
                              then \<lparr>qm_data = Some (take len (the data)), qm_len = len, qm_next = None\<rparr>
                              else \<lparr>qm_data = None, qm_len = 0, qm_next = None\<rparr>);
                         h = (qs_heap qs)(msg \<mapsto> m);
                         (h, q) = (case q_tail q of
                             Some t \<Rightarrow> (h(t := map_option (\<lambda>tm. tm\<lparr>qm_next := Some msg\<rparr>) (h t)), q)
                           | None \<Rightarrow> (h, q\<lparr>q_head := Some msg\<rparr>));
                         q = q\<lparr>q_tail := Some msg, q_depth := q_depth q + 1\<rparr>
                     in (Some (qs\<lparr>qs_queues := (qs_queues qs)[i := q], qs_heap := h, qs_brk := msg + 1\<rparr>),
                         True)))))"

text \<open>On success the data pointer and length of the message; \<open>None\<close> is -1.\<close>

definition vwasm_queue_dequeue ::
  "queue_store option \<Rightarrow> u32 \<Rightarrow> queue_store option \<times> (bytes option \<times> nat) option" where
  "vwasm_queue_dequeue qsp queue_id =
     (case qsp of
        None \<Rightarrow> (qsp, None)
      | Some qs \<Rightarrow>
          if queue_id = 0 then (qsp, None)
          else
            (case find_index (\<lambda>q. q_id q = queue_id) (qs_queues qs) of
               None \<Rightarrow> (qsp, None)
             | Some i \<Rightarrow>
                 (let q = qs_queues qs ! i in
                  case q_head q of
                    None \<Rightarrow> (qsp, None)
                  | Some a \<Rightarrow>
                      (case qs_heap qs a of
                         None \<Rightarrow> (qsp, None)
                       | Some msg \<Rightarrow>
                           (let q = q\<lparr>q_head := qm_next msg\<rparr>;
                                q = (if q_head q = None then q\<lparr>q_tail := None\<rparr> else q);
                                q = q\<lparr>q_depth := q_depth q - 1\<rparr>
                            in (Some (qs\<lparr>qs_queues := (qs_queues qs)[i := q],
                                         qs_heap := (qs_heap qs)(a := None)\<rparr>),
                                Some (qm_data msg, qm_len msg)))))))"

section \<open>Linked lists in the heap\<close>

text \<open>A message owns exactly the bytes it says, and an empty one has no data block.\<close>

definition msg_ok :: "queue_msg \<Rightarrow> bool" where
  "msg_ok m \<longleftrightarrow> (case qm_data m of None \<Rightarrow> qm_len m = 0
     | Some d \<Rightarrow> d \<noteq> [] \<and> qm_len m = length d \<and> length d \<le> VWASM_QUEUE_MAX_MSG)"

fun qchain :: "(nat \<Rightarrow> queue_msg option) \<Rightarrow> nat option \<Rightarrow> nat list \<Rightarrow> bool" where
  "qchain h p [] \<longleftrightarrow> p = None"
| "qchain h p (a # as) \<longleftrightarrow> p = Some a \<and> (case h a of None \<Rightarrow> False | Some m \<Rightarrow> msg_ok m \<and> qchain h (qm_next m) as)"

fun walk :: "(nat \<Rightarrow> queue_msg option) \<Rightarrow> nat \<Rightarrow> nat option \<Rightarrow> queue_msg list" where
  "walk h 0 p = []"
| "walk h (Suc n) None = []"
| "walk h (Suc n) (Some a) = (case h a of None \<Rightarrow> [] | Some m \<Rightarrow> m # walk h n (qm_next m))"

definition qm_payload :: "queue_msg \<Rightarrow> bytes" where
  "qm_payload m = (case qm_data m of None \<Rightarrow> [] | Some d \<Rightarrow> take (qm_len m) d)"

lemma qchain_frame:
  "\<forall>a \<in> set as. h' a = h a \<Longrightarrow> qchain h' p as = qchain h p as"
  by (induction as arbitrary: p) (auto split: option.splits)

lemma qchain_alloc: "qchain h p as \<Longrightarrow> a \<in> set as \<Longrightarrow> h a \<noteq> None"
  by (induction as arbitrary: p) (auto split: option.splits)

lemma qchain_msgs: "qchain h p as \<Longrightarrow> a \<in> set as \<Longrightarrow> msg_ok (the (h a))"
  by (induction as arbitrary: p) (auto split: option.splits)

lemma msg_ok_next [simp]: "msg_ok (m\<lparr>qm_next := x\<rparr>) = msg_ok m"
  by (simp add: msg_ok_def split: option.split)

lemma msg_ok_payload:
  "msg_ok m \<Longrightarrow> qm_data m = (if qm_payload m = [] then None else Some (qm_payload m)) \<and>
     qm_len m = length (qm_payload m) \<and> length (qm_payload m) \<le> VWASM_QUEUE_MAX_MSG"
  by (auto simp: msg_ok_def qm_payload_def split: option.splits)

lemma walk_chain: "qchain h p as \<Longrightarrow> walk h (length as) p = map (the \<circ> h) as"
  by (induction as arbitrary: p) (auto split: option.splits)

lemma walk_chain_long: "qchain h p as \<Longrightarrow> length as < n \<Longrightarrow> walk h n p = map (the \<circ> h) as"
proof (induction as arbitrary: p n)
  case Nil
  then show ?case by (cases n) auto
next
  case (Cons a as)
  then show ?case by (cases n) (auto split: option.splits)
qed

lemma qchain_snoc:
  assumes "qchain h p as" "as \<noteq> []" "distinct as" "new \<notin> set as" "qm_next m = None" "msg_ok m"
    and "h' = (h(new \<mapsto> m))(last as := map_option (\<lambda>tm. tm\<lparr>qm_next := Some new\<rparr>) ((h(new \<mapsto> m)) (last as)))"
  shows "qchain h' p (as @ [new])"
  using assms
proof (induction as arbitrary: p)
  case (Cons a as)
  then obtain ma where ma: "h a = Some ma" by (auto split: option.splits)
  show ?case
  proof (cases "as = []")
    case True
    then show ?thesis using Cons.prems ma by auto
  next
    case False
    then have "qchain h' (qm_next ma) (as @ [new])" using Cons ma by auto
    moreover have "h' a = Some ma" using Cons.prems False ma by auto
    ultimately show ?thesis using Cons.prems(1) ma by simp
  qed
qed simp

section \<open>Invariant and abstraction\<close>

text \<open>One queue: its chain, its tail pointer and its counter agree.\<close>

definition q_ok :: "(nat \<Rightarrow> queue_msg option) \<Rightarrow> queue \<Rightarrow> nat list \<Rightarrow> bool" where
  "q_ok h q as \<longleftrightarrow> qchain h (q_head q) as \<and>
     q_tail q = (if as = [] then None else Some (last as)) \<and>
     unat (q_depth q) = length as \<and> length as \<le> unat VWASM_QUEUE_MAX_DEPTH"

text \<open>The store: distinct identifiers from 1 up to the next one to give out, chains that share no
  message, and every message below the bump counter.\<close>

definition qs_inv :: "queue_store \<Rightarrow> bool" where
  "qs_inv qs \<longleftrightarrow>
     distinct (map q_id (qs_queues qs)) \<and>
     (\<forall>q \<in> set (qs_queues qs). 0 < q_id q \<and> q_id q < qs_next_id qs) \<and>
     0 < qs_next_id qs \<and> qs_next_id qs \<le> VWASM_QUEUE_MAX_COUNT + 1 \<and>
     (\<exists>ass. list_all2 (q_ok (qs_heap qs)) (qs_queues qs) ass \<and> distinct (concat ass) \<and>
            (\<forall>a \<in> set (concat ass). a < qs_brk qs))"

definition qs_abs :: "queue_store \<Rightarrow> u32 \<Rightarrow> bytes list option" where
  "qs_abs qs qid = map_option (\<lambda>q. map qm_payload (walk (qs_heap qs) (unat (q_depth q)) (q_head q)))
     (find (\<lambda>q. q_id q = qid) (qs_queues qs))"

lemma q_ok_walk: "q_ok h q as \<Longrightarrow> walk h (unat (q_depth q)) (q_head q) = map (the \<circ> h) as"
  by (simp add: q_ok_def walk_chain)

lemma q_ok_frame: "\<forall>a \<in> set as. h' a = h a \<Longrightarrow> q_ok h' q as = q_ok h q as"
  using qchain_frame [of as h' h "q_head q"] by (simp add: q_ok_def)

lemma set_nth_concat: "i < length ass \<Longrightarrow> set (ass ! i) \<subseteq> set (concat ass)"
  by (auto intro: nth_mem)

lemma distinct_concat_less:
  assumes "distinct (concat ass)" "i < j" "j < length ass"
  shows "set (ass ! i) \<inter> set (ass ! j) = {}"
proof -
  have "ass = take j ass @ ass ! j # drop (Suc j) ass" using assms(3) by (rule id_take_nth_drop)
  from arg_cong [OF this, of concat]
  have "concat ass = concat (take j ass) @ ass ! j @ concat (drop (Suc j) ass)" by simp
  then have "set (concat (take j ass)) \<inter> set (ass ! j) = {}" using assms(1) by auto
  then show ?thesis using set_nth_concat [of i "take j ass"] assms(2,3) by auto
qed

lemma distinct_concat_nth:
  assumes "distinct (concat ass)" "i < length ass" "j < length ass" "i \<noteq> j"
  shows "set (ass ! i) \<inter> set (ass ! j) = {}"
proof (cases "i < j")
  case True
  then show ?thesis using distinct_concat_less [OF assms(1)] assms by simp
next
  case False
  then have "set (ass ! j) \<inter> set (ass ! i) = {}"
    using distinct_concat_less [OF assms(1), of j i] assms by simp
  then show ?thesis by blast
qed

lemma distinct_concat_update:
  "distinct (concat ass) \<Longrightarrow> i < length ass \<Longrightarrow> distinct xs \<Longrightarrow>
   (\<forall>x \<in> set xs. x \<in> set (ass ! i) \<or> x \<notin> set (concat ass)) \<Longrightarrow> distinct (concat (ass[i := xs]))"
proof (induction ass arbitrary: i)
  case (Cons as ass)
  show ?case
  proof (cases i)
    case 0
    then show ?thesis using Cons.prems by (auto simp: disjoint_iff)
  next
    case (Suc j)
    have "distinct (concat (ass[j := xs]))" using Cons.prems Suc by (intro Cons.IH) auto
    moreover have "set as \<inter> set (concat (ass[j := xs])) = {}"
    proof -
      have "set (concat (ass[j := xs])) \<subseteq> set xs \<union> set (concat ass)"
        using set_update_subset_insert [of ass j xs] by auto
      moreover have "ass ! j \<in> set ass" using Cons.prems(2) Suc by simp
      ultimately show ?thesis using Cons.prems Suc by (fastforce simp: disjoint_iff)
    qed
    ultimately show ?thesis using Cons.prems Suc by simp
  qed
qed simp

text \<open>Replacing queue \<open>i\<close> and the part of the heap it owns.\<close>

lemma qs_inv_update:
  assumes ids: "distinct (map q_id qs)" and i: "i < length qs" and id: "q_id q' = q_id (qs ! i)"
    and ok: "list_all2 (q_ok h) qs ass" and dist: "distinct (concat ass)"
    and q': "q_ok h' q' as'"
    and frame: "\<forall>a \<in> set (concat ass) - set (ass ! i). h' a = h a"
  shows "list_all2 (q_ok h') (qs[i := q']) (ass[i := as'])"
proof (rule list_all2_all_nthI)
  have len: "length qs = length ass" using ok by (rule list_all2_lengthD)
  then show "length (qs[i := q']) = length (ass[i := as'])" by simp
  fix n assume "n < length (qs[i := q'])"
  then have n: "n < length qs" "n < length ass" using len by simp_all
  show "q_ok h' (qs[i := q'] ! n) (ass[i := as'] ! n)"
  proof (cases "n = i")
    case True
    then show ?thesis using n q' by simp
  next
    case False
    have "set (ass ! n) \<inter> set (ass ! i) = {}"
      using distinct_concat_nth [OF dist n(2) _ False] i len by simp
    then have "\<forall>a \<in> set (ass ! n). h' a = h a" using frame n by fastforce
    then have "q_ok h' (qs ! n) (ass ! n)"
      using q_ok_frame [of "ass ! n" h' h "qs ! n"] list_all2_nthD [OF ok n(1)] by simp
    then show ?thesis using False by simp
  qed
qed

lemma qs_abs_chains:
  assumes "list_all2 (q_ok (qs_heap qs)) (qs_queues qs) ass"
  shows "qs_abs qs qid = (case find_index (\<lambda>q. q_id q = qid) (qs_queues qs) of None \<Rightarrow> None
    | Some i \<Rightarrow> Some (map (qm_payload \<circ> the \<circ> qs_heap qs) (ass ! i)))"
proof (cases "find_index (\<lambda>q. q_id q = qid) (qs_queues qs)")
  case None
  then show ?thesis by (simp add: qs_abs_def find_conv_index)
next
  case (Some i)
  then have "q_ok (qs_heap qs) (qs_queues qs ! i) (ass ! i)"
    using assms by (simp add: list_all2_nthD find_index_lt)
  then show ?thesis using Some by (simp add: qs_abs_def find_conv_index q_ok_walk comp_assoc)
qed

text \<open>A step on queue \<open>i\<close> that leaves the other chains alone changes the contents of that queue only.\<close>

lemma qs_abs_step:
  assumes inv: "qs_inv qs" and i: "find_index (\<lambda>q. q_id q = qid) (qs_queues qs) = Some i"
    and ok: "list_all2 (q_ok (qs_heap qs)) (qs_queues qs) ass" and dist: "distinct (concat ass)"
    and id: "q_id q' = qid" and q': "q_ok h' q' as'"
    and frame: "\<forall>a \<in> set (concat ass) - set (ass ! i). h' a = qs_heap qs a"
  shows "qs_abs (qs\<lparr>qs_queues := (qs_queues qs)[i := q'], qs_heap := h', qs_brk := b\<rparr>) =
    (qs_abs qs)(qid \<mapsto> map (qm_payload \<circ> the \<circ> h') as')"
    (is "qs_abs ?qs' = _")
proof
  fix k
  have lt: "i < length (qs_queues qs)" "q_id (qs_queues qs ! i) = qid"
    using i by (auto simp: find_index_Some)
  have len: "length (qs_queues qs) = length ass" using ok by (rule list_all2_lengthD)
  have ids: "distinct (map q_id (qs_queues qs))" using inv by (simp add: qs_inv_def)
  have ok': "list_all2 (q_ok (qs_heap ?qs')) (qs_queues ?qs') (ass[i := as'])"
    using qs_inv_update [OF ids lt(1) _ ok dist q' frame] id lt(2) by simp
  have idx: "find_index (\<lambda>q. q_id q = k) (qs_queues ?qs') = find_index (\<lambda>q. q_id q = k) (qs_queues qs)"
    using find_index_update_same [of "\<lambda>q. q_id q = k" q' "qs_queues qs" i] id lt(2) by simp
  show "qs_abs ?qs' k = ((qs_abs qs)(qid \<mapsto> map (qm_payload \<circ> the \<circ> h') as')) k"
  proof (cases "find_index (\<lambda>q. q_id q = k) (qs_queues qs)")
    case None
    then have "k \<noteq> qid" using i by auto
    then show ?thesis
      using None by (simp only: qs_abs_chains [OF ok'] qs_abs_chains [OF ok] idx fun_upd_apply) simp
  next
    case (Some j)
    then have j: "j < length ass" "q_id (qs_queues qs ! j) = k"
      using len by (auto simp: find_index_Some)
    show ?thesis
    proof (cases "k = qid")
      case True
      then show ?thesis unfolding qs_abs_chains [OF ok'] idx fun_upd_apply
        using i lt len by simp
    next
      case False
      then have "j \<noteq> i" using j lt by auto
      then have "set (ass ! j) \<inter> set (ass ! i) = {}"
        using distinct_concat_nth [OF dist j(1)] lt len by simp
      then have "\<forall>a \<in> set (ass ! j). h' a = qs_heap qs a" using frame j by fastforce
      then have "map (qm_payload \<circ> the \<circ> h') (ass ! j) = map (qm_payload \<circ> the \<circ> qs_heap qs) (ass ! j)"
        by simp
      then show ?thesis using False Some \<open>j \<noteq> i\<close>
        by (simp only: qs_abs_chains [OF ok'] qs_abs_chains [OF ok] idx fun_upd_apply) simp
    qed
  qed
qed

lemma qs_inv_step:
  assumes inv: "qs_inv qs" and i: "i < length (qs_queues qs)"
    and id: "q_id q' = q_id (qs_queues qs ! i)"
    and ok: "list_all2 (q_ok (qs_heap qs)) (qs_queues qs) ass" and dist: "distinct (concat ass)"
    and q': "q_ok h' q' as'" "distinct as'"
    and frame: "\<forall>a \<in> set (concat ass) - set (ass ! i). h' a = qs_heap qs a"
    and fresh: "\<forall>a \<in> set as'. a \<in> set (ass ! i) \<or> a \<notin> set (concat ass)"
    and brk: "\<forall>a \<in> set (concat ass) \<union> set as'. a < b"
  shows "qs_inv (qs\<lparr>qs_queues := (qs_queues qs)[i := q'], qs_heap := h', qs_brk := b\<rparr>)"
proof -
  have len: "length (qs_queues qs) = length ass" using ok by (rule list_all2_lengthD)
  have "map q_id ((qs_queues qs)[i := q']) = map q_id (qs_queues qs)"
    using i id by (simp add: map_update list_update_same_conv)
  moreover have "\<forall>q \<in> set ((qs_queues qs)[i := q']). 0 < q_id q \<and> q_id q < qs_next_id qs"
    using inv i id set_update_subset_insert [of "qs_queues qs" i q'] nth_mem [OF i]
    by (auto simp: qs_inv_def)
  moreover have "list_all2 (q_ok h') ((qs_queues qs)[i := q']) (ass[i := as'])"
    using qs_inv_update [OF _ i id ok dist q'(1) frame] inv by (simp add: qs_inv_def)
  moreover have "distinct (concat (ass[i := as']))"
    using distinct_concat_update [OF dist _ q'(2) fresh] i len by simp
  moreover have "\<forall>a \<in> set (concat (ass[i := as'])). a < b"
    using set_update_subset_insert [of ass i as'] brk by auto
  ultimately show ?thesis using inv unfolding qs_inv_def by (auto simp del: set_concat)
qed

definition qs_payload_ok :: "bytes \<Rightarrow> bool" where
  "qs_payload_ok d \<longleftrightarrow> length d \<le> VWASM_QUEUE_MAX_MSG"

lemma word_depth_step:
  assumes "(d :: u32) < VWASM_QUEUE_MAX_DEPTH"
  shows "unat (d + 1) = unat d + 1" "unat d + 1 \<le> unat VWASM_QUEUE_MAX_DEPTH"
proof -
  have "unat d < 1024" using assms by (simp add: queue_limits word_less_nat_alt)
  then show "unat (d + 1) = unat d + 1" "unat d + 1 \<le> unat VWASM_QUEUE_MAX_DEPTH"
    by (simp_all add: unat_word_ariths queue_limits)
qed

text \<open>The heap and the queue after an append.\<close>

definition enq_msg :: "bytes \<Rightarrow> queue_msg" where
  "enq_msg d = (if d = [] then \<lparr>qm_data = None, qm_len = 0, qm_next = None\<rparr>
     else \<lparr>qm_data = Some d, qm_len = length d, qm_next = None\<rparr>)"

definition enq_heap :: "(nat \<Rightarrow> queue_msg option) \<Rightarrow> queue \<Rightarrow> nat \<Rightarrow> queue_msg \<Rightarrow> (nat \<Rightarrow> queue_msg option)" where
  "enq_heap h q new m = (case q_tail q of None \<Rightarrow> h(new \<mapsto> m)
     | Some t \<Rightarrow> (h(new \<mapsto> m))(t := map_option (\<lambda>tm. tm\<lparr>qm_next := Some new\<rparr>) ((h(new \<mapsto> m)) t)))"

definition enq_queue :: "queue \<Rightarrow> nat \<Rightarrow> queue" where
  "enq_queue q new = q\<lparr>q_head := (if q_tail q = None then Some new else q_head q),
     q_tail := Some new, q_depth := q_depth q + 1\<rparr>"

lemma enqueue_step:
  assumes "qid \<noteq> 0" "qs_payload_ok d" "find_index (\<lambda>q. q_id q = qid) (qs_queues qs) = Some i"
    and "q_depth (qs_queues qs ! i) < VWASM_QUEUE_MAX_DEPTH"
  shows "vwasm_queue_enqueue mem_ok (Some qs) qid (Some d) (length d) =
    (Some (qs\<lparr>qs_queues := (qs_queues qs)[i := enq_queue (qs_queues qs ! i) (qs_brk qs)],
       qs_heap := enq_heap (qs_heap qs) (qs_queues qs ! i) (qs_brk qs) (enq_msg d),
       qs_brk := qs_brk qs + 1\<rparr>), True)"
  using assms
  by (auto simp: vwasm_queue_enqueue_def qs_payload_ok_def enq_msg_def enq_heap_def enq_queue_def
      Let_def split: option.splits)

lemma qm_payload_next [simp]: "qm_payload (m\<lparr>qm_next := x\<rparr>) = qm_payload m"
  by (simp add: qm_payload_def split: option.split)

lemma enq_ok:
  assumes "q_ok h q as" "distinct as" "new \<notin> set as" "q_depth q < VWASM_QUEUE_MAX_DEPTH" "qs_payload_ok d"
  shows "q_ok (enq_heap h q new (enq_msg d)) (enq_queue q new) (as @ [new])"
    and "map (qm_payload \<circ> the \<circ> enq_heap h q new (enq_msg d)) (as @ [new]) =
         map (qm_payload \<circ> the \<circ> h) as @ [d]"
    and "a \<noteq> new \<Longrightarrow> a \<notin> set as \<Longrightarrow> enq_heap h q new (enq_msg d) a = h a"
proof -
  let ?h = "enq_heap h q new (enq_msg d)"
  note depth = word_depth_step [OF assms(4)]
  have next_None: "qm_next (enq_msg d) = None" and pay: "qm_payload (enq_msg d) = d"
    by (simp_all add: enq_msg_def qm_payload_def)
  have mok: "msg_ok (enq_msg d)" using assms(5) by (simp add: enq_msg_def msg_ok_def qs_payload_ok_def)
  have chain: "qchain h (q_head q) as" and tail: "q_tail q = (if as = [] then None else Some (last as))"
    and len: "unat (q_depth q) = length as" using assms(1) by (simp_all add: q_ok_def)
  have "qchain ?h (q_head (enq_queue q new)) (as @ [new])"
  proof (cases "as = []")
    case True
    then show ?thesis using tail next_None mok by (simp add: enq_heap_def enq_queue_def)
  next
    case False
    then show ?thesis
      using qchain_snoc [OF chain False assms(2,3) next_None mok refl] tail False
      by (simp add: enq_heap_def enq_queue_def)
  qed
  then show "q_ok ?h (enq_queue q new) (as @ [new])"
    using depth len by (simp add: q_ok_def enq_queue_def)
  have "qm_payload (the (?h a)) = qm_payload (the (h a))" if a: "a \<in> set as" for a
  proof -
    obtain m where m: "h a = Some m" using qchain_alloc [OF chain a] by blast
    have "as \<noteq> []" "a \<noteq> new" using a assms(3) by auto
    moreover from this have "last as \<noteq> new" using assms(3) last_in_set [of as] by auto
    ultimately show ?thesis using tail m by (cases "a = last as") (auto simp: enq_heap_def)
  qed
  moreover have "?h new = Some (enq_msg d)"
    using assms(3) tail last_in_set [of as] by (auto simp: enq_heap_def split: if_splits)
  ultimately show "map (qm_payload \<circ> the \<circ> ?h) (as @ [new]) = map (qm_payload \<circ> the \<circ> h) as @ [d]"
    using pay by simp
  show "a \<noteq> new \<Longrightarrow> a \<notin> set as \<Longrightarrow> ?h a = h a"
    using tail by (auto simp: enq_heap_def split: if_splits)
qed

lemma enqueue_abs:
  assumes inv: "qs_inv qs" and "qs_payload_ok d" and some: "qs_abs qs qid = Some xs"
    and room: "length xs < unat VWASM_QUEUE_MAX_DEPTH"
  shows "\<exists>qs'. vwasm_queue_enqueue mem_ok (Some qs) qid (Some d) (length d) = (Some qs', True) \<and>
    qs_inv qs' \<and> qs_abs qs' = (qs_abs qs)(qid \<mapsto> xs @ [d])"
proof -
  from inv obtain ass where ok: "list_all2 (q_ok (qs_heap qs)) (qs_queues qs) ass"
    and dist: "distinct (concat ass)" and brk: "\<forall>a \<in> set (concat ass). a < qs_brk qs"
    unfolding qs_inv_def by blast
  from some obtain i where i: "find_index (\<lambda>q. q_id q = qid) (qs_queues qs) = Some i"
    and xs: "xs = map (qm_payload \<circ> the \<circ> qs_heap qs) (ass ! i)"
    by (auto simp: qs_abs_chains [OF ok] split: option.splits)
  let ?q = "qs_queues qs ! i" and ?new = "qs_brk qs"
  have lt: "i < length (qs_queues qs)" "q_id ?q = qid" using i by (auto simp: find_index_Some)
  have len: "length (qs_queues qs) = length ass" using ok by (rule list_all2_lengthD)
  have qok: "q_ok (qs_heap qs) ?q (ass ! i)" using ok lt(1) by (rule list_all2_nthD)
  have sub: "set (ass ! i) \<subseteq> set (concat ass)" using lt len by (intro set_nth_concat) simp
  have new: "?new \<notin> set (concat ass)" using brk by auto
  have dis: "distinct (ass ! i)" using dist lt len by (simp add: distinct_concat_iff)
  have depth: "q_depth ?q < VWASM_QUEUE_MAX_DEPTH"
    using qok room xs by (simp add: q_ok_def word_less_nat_alt)
  have "0 < q_id ?q" using inv lt(1) by (auto simp: qs_inv_def)
  then have qid: "qid \<noteq> 0" using lt(2) by auto
  have newi: "?new \<notin> set (ass ! i)" using new sub by blast
  note enq = enq_ok [OF qok dis newi depth assms(2)]
  have frame: "\<forall>a \<in> set (concat ass) - set (ass ! i).
      enq_heap (qs_heap qs) ?q ?new (enq_msg d) a = qs_heap qs a"
    using enq(3) new by (metis Diff_iff)
  have same: "q_id (enq_queue ?q ?new) = q_id ?q" by (simp add: enq_queue_def)
  have fresh: "\<forall>a \<in> set (ass ! i @ [?new]). a \<in> set (ass ! i) \<or> a \<notin> set (concat ass)"
    using new by auto
  have brk': "\<forall>a \<in> set (concat ass) \<union> set (ass ! i @ [?new]). a < ?new + 1"
    using brk sub by (auto simp: less_Suc_eq)
  have "q_id (enq_queue ?q ?new) = qid" using same lt(2) by simp
  note abs = qs_abs_step [OF inv i ok dist this enq(1) frame, unfolded enq(2), folded xs]
  show ?thesis
    using enqueue_step [OF qid assms(2) i depth] abs [of "?new + 1"] dis newi
      qs_inv_step [OF inv lt(1) same ok dist enq(1) _ frame fresh brk']
    by simp
qed

lemma enqueue_refused:
  assumes inv: "qs_inv qs"
    and "qs_abs qs qid = None \<or> \<not> qs_payload_ok d \<or>
         (\<exists>xs. qs_abs qs qid = Some xs \<and> unat VWASM_QUEUE_MAX_DEPTH \<le> length xs)"
  shows "vwasm_queue_enqueue al (Some qs) qid (Some d) (length d) = (Some qs, False)"
proof -
  from inv obtain ass where ok: "list_all2 (q_ok (qs_heap qs)) (qs_queues qs) ass"
    unfolding qs_inv_def by blast
  show ?thesis
  proof (cases "find_index (\<lambda>q. q_id q = qid) (qs_queues qs)")
    case (Some i)
    then have "q_ok (qs_heap qs) (qs_queues qs ! i) (ass ! i)"
      using ok by (simp add: list_all2_nthD find_index_lt)
    then show ?thesis using Some assms(2)
      by (auto simp: vwasm_queue_enqueue_def qs_payload_ok_def qs_abs_chains [OF ok] q_ok_def
          word_le_nat_alt Let_def)
  qed (simp add: vwasm_queue_enqueue_def)
qed

text \<open>A pop from the head.\<close>

definition deq_queue :: "queue \<Rightarrow> queue_msg \<Rightarrow> queue" where
  "deq_queue q m = q\<lparr>q_head := qm_next m,
     q_tail := (if qm_next m = None then None else q_tail q), q_depth := q_depth q - 1\<rparr>"

lemma dequeue_step:
  assumes "qid \<noteq> 0" "find_index (\<lambda>q. q_id q = qid) (qs_queues qs) = Some i"
    and "q_head (qs_queues qs ! i) = Some a" "qs_heap qs a = Some m"
  shows "vwasm_queue_dequeue (Some qs) qid =
    (Some (qs\<lparr>qs_queues := (qs_queues qs)[i := deq_queue (qs_queues qs ! i) m],
       qs_heap := (qs_heap qs)(a := None)\<rparr>), Some (qm_data m, qm_len m))"
  using assms by (auto simp: vwasm_queue_dequeue_def deq_queue_def Let_def)

lemma deq_ok:
  assumes "q_ok h q (a # as)" "distinct (a # as)"
  shows "\<exists>m. q_head q = Some a \<and> h a = Some m \<and> q_ok (h(a := None)) (deq_queue q m) as"
proof -
  obtain m where m: "q_head q = Some a" "h a = Some m" "qchain h (qm_next m) as"
    using assms(1) by (auto simp: q_ok_def split: option.splits)
  have "qchain (h(a := None)) (qm_next m) as"
    using m(3) assms(2) qchain_frame [of as "h(a := None)" h] by auto
  moreover have "qm_next m = None \<longleftrightarrow> as = []" using m(3) by (cases as) auto
  moreover have "unat (q_depth q - 1) = length as"
  proof -
    have d: "unat (q_depth q) = Suc (length as)" using assms(1) by (simp add: q_ok_def)
    then have "q_depth q \<noteq> 0" by (metis unat_0 nat.distinct(1))
    then show ?thesis using d by (simp add: unat_minus_one)
  qed
  ultimately show ?thesis using m assms(1) by (auto simp: q_ok_def deq_queue_def)
qed

lemma dequeue_abs:
  assumes inv: "qs_inv qs" and some: "qs_abs qs qid = Some (x # xs)"
  shows "\<exists>qs'. vwasm_queue_dequeue (Some qs) qid =
      (Some qs', Some (if x = [] then None else Some x, length x)) \<and>
    qs_inv qs' \<and> qs_abs qs' = (qs_abs qs)(qid \<mapsto> xs) \<and> length x \<le> VWASM_QUEUE_MAX_MSG"
proof -
  from inv obtain ass where ok: "list_all2 (q_ok (qs_heap qs)) (qs_queues qs) ass"
    and dist: "distinct (concat ass)" and brk: "\<forall>a \<in> set (concat ass). a < qs_brk qs"
    unfolding qs_inv_def by blast
  from some obtain i where i: "find_index (\<lambda>q. q_id q = qid) (qs_queues qs) = Some i"
    and "x # xs = map (qm_payload \<circ> the \<circ> qs_heap qs) (ass ! i)"
    by (auto simp: qs_abs_chains [OF ok] split: option.splits)
  then obtain a as where as: "ass ! i = a # as" "x = qm_payload (the (qs_heap qs a))"
    "xs = map (qm_payload \<circ> the \<circ> qs_heap qs) as" by (cases "ass ! i") auto
  let ?q = "qs_queues qs ! i" and ?h = "(qs_heap qs)(a := None)"
  have lt: "i < length (qs_queues qs)" "q_id ?q = qid" using i by (auto simp: find_index_Some)
  have len: "length (qs_queues qs) = length ass" using ok by (rule list_all2_lengthD)
  have qok: "q_ok (qs_heap qs) ?q (a # as)" using list_all2_nthD [OF ok lt(1)] as(1) by simp
  have dis: "distinct (a # as)" using dist lt len as(1) by (metis distinct_concat_iff nth_mem)
  have "0 < q_id ?q" using inv lt(1) by (auto simp: qs_inv_def)
  then have qid: "qid \<noteq> 0" using lt(2) by auto
  obtain m where m: "q_head ?q = Some a" "qs_heap qs a = Some m" "q_ok ?h (deq_queue ?q m) as"
    using deq_ok [OF qok dis] by blast
  have frame: "\<forall>b \<in> set (concat ass) - set (ass ! i). ?h b = qs_heap qs b" using as(1) by auto
  have same: "q_id (deq_queue ?q m) = q_id ?q" by (simp add: deq_queue_def)
  then have same': "q_id (deq_queue ?q m) = qid" using lt(2) by simp
  have sub: "set (ass ! i) \<subseteq> set (concat ass)" using lt len by (intro set_nth_concat) simp
  have fresh: "\<forall>b \<in> set as. b \<in> set (ass ! i) \<or> b \<notin> set (concat ass)" using as(1) by simp
  have brk': "\<forall>b \<in> set (concat ass) \<union> set as. b < qs_brk qs" using brk sub as(1) by auto
  have "msg_ok m" using qok m(2) by (simp add: q_ok_def)
  note msg = msg_ok_payload [OF this]
  have "map (qm_payload \<circ> the \<circ> ?h) as = xs" using as(3) dis by auto
  with qs_abs_step [where h' = ?h, OF inv i ok dist same' m(3) frame, of "qs_brk qs"]
    qs_inv_step [where h' = ?h, OF inv lt(1) same ok dist m(3) _ frame fresh brk'] dis
    dequeue_step [OF qid i m(1,2)] as(2) m(2) msg
  show ?thesis by simp
qed

lemma dequeue_empty:
  assumes inv: "qs_inv qs" and "qs_abs qs qid = None \<or> qs_abs qs qid = Some []"
  shows "vwasm_queue_dequeue (Some qs) qid = (Some qs, None)"
proof -
  from inv obtain ass where ok: "list_all2 (q_ok (qs_heap qs)) (qs_queues qs) ass"
    unfolding qs_inv_def by blast
  show ?thesis
  proof (cases "find_index (\<lambda>q. q_id q = qid) (qs_queues qs)")
    case (Some i)
    then have "q_ok (qs_heap qs) (qs_queues qs ! i) (ass ! i)"
      using ok by (simp add: list_all2_nthD find_index_lt)
    then show ?thesis using Some assms(2)
      by (auto simp: vwasm_queue_dequeue_def qs_abs_chains [OF ok] q_ok_def Let_def)
  qed (simp add: vwasm_queue_dequeue_def)
qed

section \<open>Registration\<close>

definition queue_okname :: "bytes \<Rightarrow> bool" where
  "queue_okname n \<longleftrightarrow> n \<noteq> [] \<and> length n \<le> VWASM_QUEUE_MAX_NAME"

definition new_queue :: "bytes \<Rightarrow> u32 \<Rightarrow> queue" where
  "new_queue n qid = \<lparr>q_vm_id = None, q_name = Some (n @ [NUL]), q_id = qid, q_head = None,
     q_tail = None, q_depth = 0\<rparr>"

lemma register_cases:
  assumes "vwasm_queue_register al (Some qs) (Some n) = (qs', qid)"
  obtains (refused) "qs' = Some qs" "qid = 0"
    | (found) q where "find (queue_name_match n) (qs_queues qs) = Some q" "qs' = Some qs" "qid = q_id q"
        "queue_okname n"
    | (fresh) "find (queue_name_match n) (qs_queues qs) = None" "qid = qs_next_id qs"
        "qs_next_id qs \<le> VWASM_QUEUE_MAX_COUNT" "queue_okname n"
        "qs' = Some (qs\<lparr>qs_next_id := qs_next_id qs + 1,
                        qs_queues := new_queue n (qs_next_id qs) # qs_queues qs\<rparr>)"
  using assms
  by (auto simp: vwasm_queue_register_def new_queue_def queue_okname_def Let_def
      split: if_splits option.splits)

lemma match_new_queue: "nul_free n \<Longrightarrow> queue_name_match n' (new_queue n qid) \<longleftrightarrow> n' = n"
  by (auto simp: queue_name_match_def new_queue_def cstr_append_nul cstr_id)

lemma name_match_unique: "queue_name_match n q \<Longrightarrow> queue_name_match n' q \<Longrightarrow> n = n'"
proof -
  assume a: "queue_name_match n q" "queue_name_match n' q"
  then obtain b where "q_name q = Some b" by (auto simp: queue_name_match_def split: option.splits)
  with a have "n = take (length n) b" "n' = take (length n') b" "length n = length n'"
    by (auto simp: queue_name_match_def)
  then show "n = n'" by metis
qed

lemma next_id_step:
  assumes "(n :: u32) \<le> VWASM_QUEUE_MAX_COUNT" "0 < n"
  shows "n < n + 1" "n + 1 \<le> VWASM_QUEUE_MAX_COUNT + 1" "0 < n + 1"
proof -
  have "unat n \<le> 64" "0 < unat n" using assms
    by (simp_all add: queue_limits word_le_nat_alt unat_gt_0 word_neq_0_conv)
  moreover from this have "unat (n + 1) = unat n + 1" by (simp add: unat_word_ariths)
  ultimately show "n < n + 1" "n + 1 \<le> VWASM_QUEUE_MAX_COUNT + 1" "0 < n + 1"
    by (simp_all add: queue_limits word_le_nat_alt word_less_nat_alt)
qed

lemma qs_invI:
  assumes "distinct (map q_id (qs_queues qs))"
    and "\<forall>q \<in> set (qs_queues qs). 0 < q_id q \<and> q_id q < qs_next_id qs"
    and "0 < qs_next_id qs" "qs_next_id qs \<le> VWASM_QUEUE_MAX_COUNT + 1"
    and "list_all2 (q_ok (qs_heap qs)) (qs_queues qs) ass" "distinct (concat ass)"
    and "\<forall>a \<in> set (concat ass). a < qs_brk qs"
  shows "qs_inv qs"
  using assms unfolding qs_inv_def by blast

lemma register_inv:
  assumes inv: "qs_inv qs" and "vwasm_queue_register al (Some qs) (Some n) = (qs', qid)"
  shows "\<exists>t. qs' = Some t \<and> qs_inv t"
  using assms(2)
proof (cases rule: register_cases)
  case fresh
  let ?q = "new_queue n (qs_next_id qs)"
  note nid = next_id_step [OF fresh(3)]
  have pos: "0 < qs_next_id qs" using inv by (simp add: qs_inv_def)
  obtain ass where ass: "list_all2 (q_ok (qs_heap qs)) (qs_queues qs) ass" "distinct (concat ass)"
    "\<forall>a \<in> set (concat ass). a < qs_brk qs" using inv unfolding qs_inv_def by blast
  have "qs_inv (qs\<lparr>qs_next_id := qs_next_id qs + 1, qs_queues := ?q # qs_queues qs\<rparr>)"
  proof (rule qs_invI [where ass = "[] # ass"])
    show "list_all2 (q_ok (qs_heap (qs\<lparr>qs_next_id := qs_next_id qs + 1, qs_queues := ?q # qs_queues qs\<rparr>)))
        (qs_queues (qs\<lparr>qs_next_id := qs_next_id qs + 1, qs_queues := ?q # qs_queues qs\<rparr>)) ([] # ass)"
      using ass(1) by (simp add: q_ok_def new_queue_def)
  qed (use inv ass nid pos in \<open>auto simp: qs_inv_def new_queue_def\<close>)
  then show ?thesis using fresh(5) by simp
qed (use inv in auto)

section \<open>The interface: a store of bounded FIFO queues\<close>

datatype queue_op = Enq u32 bytes | Deq u32
datatype queue_res = Accepted bool | Popped "bytes option"

text \<open>The specification: a map from identifiers to lists.\<close>

fun fifo_step :: "nat \<Rightarrow> (bytes \<Rightarrow> bool) \<Rightarrow> (u32 \<Rightarrow> bytes list option) \<Rightarrow> queue_op
  \<Rightarrow> (u32 \<Rightarrow> bytes list option) \<times> queue_res" where
  "fifo_step cap okmsg m (Enq k d) =
     (case m k of None \<Rightarrow> (m, Accepted False)
      | Some xs \<Rightarrow> if okmsg d \<and> length xs < cap then (m(k \<mapsto> xs @ [d]), Accepted True)
                   else (m, Accepted False))"
| "fifo_step cap okmsg m (Deq k) =
     (case m k of Some (x # xs) \<Rightarrow> (m(k \<mapsto> xs), Popped (Some x)) | _ \<Rightarrow> (m, Popped None))"

fun run_ops :: "('s \<Rightarrow> 'o \<Rightarrow> 's \<times> 'r) \<Rightarrow> 's \<Rightarrow> 'o list \<Rightarrow> 's \<times> 'r list" where
  "run_ops step s [] = (s, [])"
| "run_ops step s (x # xs) =
     (let (s1, r) = step s x; (s2, rs) = run_ops step s1 xs in (s2, r # rs))"

locale fifo_store =
  fixes contents :: "'s \<Rightarrow> u32 \<Rightarrow> bytes list option"
    and qstep :: "'s \<Rightarrow> queue_op \<Rightarrow> 's \<times> queue_res"
    and invar :: "'s \<Rightarrow> bool"
    and cap :: nat
    and okmsg :: "bytes \<Rightarrow> bool"
  assumes step_sim: "invar s \<Longrightarrow> \<exists>s'. qstep s x = (s', snd (fifo_step cap okmsg (contents s) x)) \<and>
      invar s' \<and> contents s' = fst (fifo_step cap okmsg (contents s) x)"
begin

lemma run_sim:
  "invar s \<Longrightarrow> \<exists>s'. run_ops qstep s xs = (s', snd (run_ops (fifo_step cap okmsg) (contents s) xs)) \<and>
     invar s' \<and> contents s' = fst (run_ops (fifo_step cap okmsg) (contents s) xs)"
proof (induction xs arbitrary: s)
  case Nil
  then show ?case by simp
next
  case (Cons x xs)
  from step_sim [OF Cons.prems, of x] obtain s1
    where s1: "qstep s x = (s1, snd (fifo_step cap okmsg (contents s) x))" "invar s1"
      "contents s1 = fst (fifo_step cap okmsg (contents s) x)" by blast
  from Cons.IH [OF s1(2)] obtain s2
    where "run_ops qstep s1 xs = (s2, snd (run_ops (fifo_step cap okmsg) (contents s1) xs))"
      "invar s2" "contents s2 = fst (run_ops (fifo_step cap okmsg) (contents s1) xs)" by blast
  then show ?case using s1 by (auto split: prod.splits)
qed

end

definition qs_step :: "queue_store \<Rightarrow> queue_op \<Rightarrow> queue_store \<times> queue_res" where
  "qs_step qs x = (case x of
     Enq k d \<Rightarrow> (case vwasm_queue_enqueue mem_ok (Some qs) k (Some d) (length d) of
                   (t, r) \<Rightarrow> (the t, Accepted r))
   | Deq k \<Rightarrow> (case vwasm_queue_dequeue (Some qs) k of
                (t, r) \<Rightarrow> (the t, Popped (map_option (\<lambda>(d, n).
                              case d of None \<Rightarrow> [] | Some b \<Rightarrow> take n b) r))))"

interpretation qstore: fifo_store qs_abs qs_step qs_inv "unat VWASM_QUEUE_MAX_DEPTH" qs_payload_ok
proof
  fix qs x
  assume inv: "qs_inv qs"
  let ?spec = "fifo_step (unat VWASM_QUEUE_MAX_DEPTH) qs_payload_ok (qs_abs qs) x"
  show "\<exists>s'. qs_step qs x = (s', snd ?spec) \<and> qs_inv s' \<and> qs_abs s' = fst ?spec"
  proof (cases x)
    case (Enq k d)
    show ?thesis
    proof (cases "qs_payload_ok d \<and> (\<exists>xs. qs_abs qs k = Some xs \<and> length xs < unat VWASM_QUEUE_MAX_DEPTH)")
      case True
      then obtain xs where "qs_abs qs k = Some xs" "length xs < unat VWASM_QUEUE_MAX_DEPTH" by blast
      then show ?thesis using enqueue_abs [OF inv] True Enq by (fastforce simp: qs_step_def)
    next
      case False
      then have "vwasm_queue_enqueue mem_ok (Some qs) k (Some d) (length d) = (Some qs, False)"
        by (intro enqueue_refused [OF inv]) (auto simp: not_less)
      then show ?thesis using inv Enq False by (auto simp: qs_step_def split: option.splits)
    qed
  next
    case (Deq k)
    show ?thesis
    proof (cases "qs_abs qs k = None \<or> qs_abs qs k = Some []")
      case True
      then show ?thesis using dequeue_empty [OF inv True] inv Deq
        by (auto simp: qs_step_def)
    next
      case False
      then obtain y ys where y: "qs_abs qs k = Some (y # ys)" by (auto simp: neq_Nil_conv)
      obtain qs' where "vwasm_queue_dequeue (Some qs) k = (Some qs', Some (if y = [] then None else Some y, length y))"
          "qs_inv qs'" "qs_abs qs' = (qs_abs qs)(k \<mapsto> ys)"
        using dequeue_abs [OF inv y] by blast
      then show ?thesis using Deq y by (simp add: qs_step_def)
    qed
  qed
qed

section \<open>Reachable stores\<close>

lemma enqueue_any:
  assumes "\<forall>b. data = Some b \<longrightarrow> len \<le> length b"
  shows "vwasm_queue_enqueue al (Some qs) k data len = (Some qs, False) \<or>
    (\<exists>d. vwasm_queue_enqueue al (Some qs) k data len =
         vwasm_queue_enqueue mem_ok (Some qs) k (Some d) (length d))"
proof -
  define d where "d = (case data of None \<Rightarrow> [] | Some b \<Rightarrow> take len b)"
  have "vwasm_queue_enqueue al (Some qs) k data len = (Some qs, False) \<or>
    vwasm_queue_enqueue al (Some qs) k data len =
      vwasm_queue_enqueue mem_ok (Some qs) k (Some d) (length d)"
    using assms
    by (auto simp: vwasm_queue_enqueue_def d_def Let_def split: option.splits)
  then show ?thesis by blast
qed

text \<open>The stores the guests can bring about, with any arguments and any failed allocation.\<close>

inductive qs_reach :: "queue_store \<Rightarrow> bool" where
  qs_new: "vwasm_queue_store_new al lock = Some qs \<Longrightarrow> qs_reach qs"
| qs_register: "qs_reach qs \<Longrightarrow> vwasm_queue_register al (Some qs) (Some n) = (Some qs', r) \<Longrightarrow> qs_reach qs'"
| qs_enqueue: "qs_reach qs \<Longrightarrow> \<forall>b. data = Some b \<longrightarrow> len \<le> length b \<Longrightarrow>
    vwasm_queue_enqueue al (Some qs) k data len = (Some qs', ok) \<Longrightarrow> qs_reach qs'"
| qs_dequeue: "qs_reach qs \<Longrightarrow> vwasm_queue_dequeue (Some qs) k = (Some qs', m) \<Longrightarrow> qs_reach qs'"

lemma enqueue_inv:
  assumes "qs_inv qs" "vwasm_queue_enqueue mem_ok (Some qs) k (Some d) (length d) = (Some qs', ok)"
  shows "qs_inv qs'"
  using qstore.step_sim [OF assms(1), of "Enq k d"] assms(2) by (auto simp: qs_step_def)

lemma dequeue_inv:
  assumes "qs_inv qs" "vwasm_queue_dequeue (Some qs) k = (Some qs', m)"
  shows "qs_inv qs'"
  using qstore.step_sim [OF assms(1), of "Deq k"] assms(2) by (auto simp: qs_step_def)

lemma reach_inv: "qs_reach qs \<Longrightarrow> qs_inv qs"
proof (induction rule: qs_reach.induct)
  case (qs_new al lock qs)
  then show ?case
    by (auto simp: vwasm_queue_store_new_def qs_inv_def queue_limits split: if_splits)
next
  case (qs_register qs al n qs' r)
  then show ?case using register_inv by fastforce
next
  case (qs_enqueue qs data len al k qs' ok)
  from enqueue_any [OF qs_enqueue(2), of al qs k] show ?case
  proof (elim disjE exE)
    fix d assume "vwasm_queue_enqueue al (Some qs) k data len =
      vwasm_queue_enqueue mem_ok (Some qs) k (Some d) (length d)"
    then show ?case using qs_enqueue.IH qs_enqueue(3) enqueue_inv [of qs k d qs' ok] by simp
  qed (use qs_enqueue in simp)
next
  case (qs_dequeue qs k qs' m)
  then show ?case using dequeue_inv by blast
qed

lemma inv_queue_count: "qs_inv qs \<Longrightarrow> length (qs_queues qs) \<le> 64"
proof -
  assume inv: "qs_inv qs"
  have "unat (q_id q) \<in> {1..64}" if "q \<in> set (qs_queues qs)" for q
  proof -
    have "0 < q_id q" "q_id q < qs_next_id qs" "qs_next_id qs \<le> VWASM_QUEUE_MAX_COUNT + 1"
      using inv that by (auto simp: qs_inv_def)
    then show ?thesis by (simp add: queue_limits word_less_nat_alt word_le_nat_alt)
  qed
  then have "unat ` set (map q_id (qs_queues qs)) \<subseteq> {1..64}" by auto
  then have "card (unat ` set (map q_id (qs_queues qs))) \<le> 64"
    using card_mono [of "{1..64 :: nat}"] by fastforce
  moreover have "card (unat ` set (map q_id (qs_queues qs))) = card (set (map q_id (qs_queues qs)))"
    by (intro card_image inj_onI) (simp add: word_unat_eq_iff)
  ultimately show ?thesis
    using inv distinct_card [of "map q_id (qs_queues qs)"] by (simp add: qs_inv_def)
qed

section \<open>Properties\<close>

text \<open>C12: the queues are FIFO under every interleaving. For any sequence of enqueues and dequeues on any
  queues of the store, the code returns exactly the results of a map from identifiers to lists that
  appends at the end and removes at the front, with room for 1024 messages of at most 64 KiB per
  queue, and it ends holding the same lists; the linked lists stay well formed throughout.\<close>

theorem queue_fifo_refinement:
  assumes "qs_inv qs"
  shows "\<exists>qs'. run_ops qs_step qs ops =
      (qs', snd (run_ops (fifo_step (unat VWASM_QUEUE_MAX_DEPTH) qs_payload_ok) (qs_abs qs) ops)) \<and>
    qs_inv qs' \<and>
    qs_abs qs' = fst (run_ops (fifo_step (unat VWASM_QUEUE_MAX_DEPTH) qs_payload_ok) (qs_abs qs) ops)"
  using qstore.run_sim [OF assms] .

definition qs_one :: queue_store where
  "qs_one = \<lparr>qs_queues = [new_queue ''jobs'' 1], qs_next_id = 2, qs_heap = (\<lambda>_. None), qs_brk = 0\<rparr>"

lemma qs_one_facts: "qs_inv qs_one" "qs_abs qs_one 1 = Some []"
proof -
  show "qs_inv qs_one"
    by (rule qs_invI [where ass = "[[]]"])
       (simp_all add: qs_one_def new_queue_def q_ok_def queue_limits)
  show "qs_abs qs_one 1 = Some []" by (simp add: qs_abs_def qs_one_def new_queue_def)
qed

theorem queue_fifo_refinement_witness:
  "snd (run_ops qs_step qs_one [Enq 1 ''a'', Enq 1 ''b'', Deq 1, Enq 7 ''c'', Deq 1, Deq 1]) =
     [Accepted True, Accepted True, Popped (Some ''a''), Accepted False, Popped (Some ''b''), Popped None]"
proof -
  have "qs_abs qs_one 7 = None" by (simp add: qs_abs_def qs_one_def new_queue_def)
  then show ?thesis
    using queue_fifo_refinement [OF qs_one_facts(1),
        of "[Enq 1 ''a'', Enq 1 ''b'', Deq 1, Enq 7 ''c'', Deq 1, Deq 1]"] qs_one_facts(2)
    by (auto simp: qs_payload_ok_def queue_limits)
qed

text \<open>Registration and resolution agree. Registering a name of at most 256 bytes without NUL that
  is accepted yields an identifier that resolving the name returns, for every VM id; registering it
  again returns the same identifier and changes nothing; a name resolves differently only if it
  is that name; and a queue new to the store is empty while all others keep their messages.\<close>

theorem queue_register_resolve:
  assumes "qs_inv qs" "nul_free n"
    and "vwasm_queue_register mem_ok (Some qs) (Some n) = (qs', qid)" "qid \<noteq> 0"
  shows "vwasm_queue_resolve qs' vm (Some n) = qid \<and>
    vwasm_queue_register mem_ok qs' (Some n) = (qs', qid) \<and>
    (n' \<noteq> n \<longrightarrow> vwasm_queue_resolve qs' vm (Some n') = vwasm_queue_resolve (Some qs) vm (Some n')) \<and>
    qs_abs (the qs') = (if vwasm_queue_resolve (Some qs) vm (Some n) = 0
                        then (qs_abs qs)(qid \<mapsto> []) else qs_abs qs)"
  using assms(3)
proof (cases rule: register_cases)
  case refused
  then show ?thesis using assms(4) by simp
next
  case (found q)
  have "q \<in> set (qs_queues qs)" using found(1) by (auto simp: find_Some_iff)
  then have "0 < q_id q" using assms(1) by (simp add: qs_inv_def)
  then show ?thesis using found
    by (auto simp: vwasm_queue_resolve_def vwasm_queue_register_def queue_okname_def)
next
  case fresh
  have "qs_abs (the qs') = (qs_abs qs)(qid \<mapsto> [])"
    using fresh by (auto simp: qs_abs_def fun_eq_iff new_queue_def)
  then show ?thesis using fresh assms(2)
    by (auto simp: vwasm_queue_resolve_def vwasm_queue_register_def queue_okname_def match_new_queue)
       (simp_all add: new_queue_def)
qed

theorem queue_register_resolve_witness:
  "\<exists>qs'. vwasm_queue_register mem_ok (Some qs_one) (Some ''log'') = (qs', 2) \<and>
     vwasm_queue_resolve qs' None (Some ''log'') = 2 \<and>
     vwasm_queue_resolve qs' None (Some ''jobs'') = vwasm_queue_resolve (Some qs_one) None (Some ''jobs'')"
proof -
  obtain qs' where r: "vwasm_queue_register mem_ok (Some qs_one) (Some ''log'') = (qs', 2)"
    by (simp add: vwasm_queue_register_def qs_one_def new_queue_def queue_name_match_def cstr_def
        queue_limits)
  show ?thesis
    using queue_register_resolve [OF qs_one_facts(1) _ r, of None "''jobs''"] r
    by (simp add: nul_free_def)
qed

text \<open>In every store reachable by any calls with any arguments, wherever allocations failed, there
  are at most 64 queues with distinct nonzero identifiers, no queue holds more than 1024 messages, each
  of at most 64 KiB, and the depth counter of a queue is the number of messages linked from its head.\<close>

theorem queue_store_bounds:
  assumes "qs_reach qs"
  shows "length (qs_queues qs) \<le> 64 \<and> distinct (map q_id (qs_queues qs)) \<and>
    0 \<notin> set (map q_id (qs_queues qs)) \<and>
    list_all (\<lambda>q. q_depth q \<le> VWASM_QUEUE_MAX_DEPTH \<and>
      length (walk (qs_heap qs) (qs_brk qs + 1) (q_head q)) = unat (q_depth q) \<and>
      list_all (\<lambda>m. length (qm_payload m) \<le> VWASM_QUEUE_MAX_MSG)
        (walk (qs_heap qs) (qs_brk qs + 1) (q_head q))) (qs_queues qs)"
proof -
  have inv: "qs_inv qs" using assms by (rule reach_inv)
  then obtain ass where ok: "list_all2 (q_ok (qs_heap qs)) (qs_queues qs) ass"
    and dist: "distinct (concat ass)" and brk: "\<forall>a \<in> set (concat ass). a < qs_brk qs"
    unfolding qs_inv_def by blast
  have "q_depth (qs_queues qs ! i) \<le> VWASM_QUEUE_MAX_DEPTH \<and>
      length (walk (qs_heap qs) (qs_brk qs + 1) (q_head (qs_queues qs ! i))) = unat (q_depth (qs_queues qs ! i)) \<and>
      list_all (\<lambda>m. length (qm_payload m) \<le> VWASM_QUEUE_MAX_MSG)
        (walk (qs_heap qs) (qs_brk qs + 1) (q_head (qs_queues qs ! i)))"
    if i: "i < length (qs_queues qs)" for i
  proof -
    have q: "q_ok (qs_heap qs) (qs_queues qs ! i) (ass ! i)" using ok i by (rule list_all2_nthD)
    have "i < length ass" using i list_all2_lengthD [OF ok] by simp
    then have "ass ! i \<in> set ass" by (rule nth_mem)
    then have "set (ass ! i) \<subseteq> {..<qs_brk qs}" "distinct (ass ! i)"
      using brk dist by (auto simp: distinct_concat_iff)
    then have "length (ass ! i) \<le> qs_brk qs"
      by (metis card_lessThan card_mono distinct_card finite_lessThan)
    moreover have "length (qm_payload (the (qs_heap qs a))) \<le> VWASM_QUEUE_MAX_MSG" if "a \<in> set (ass ! i)" for a
      using qchain_msgs [OF _ that] q msg_ok_payload by (auto simp: q_ok_def)
    ultimately show ?thesis using q walk_chain_long [of "qs_heap qs" _ "ass ! i" "qs_brk qs + 1"]
      by (simp add: q_ok_def word_le_nat_alt list_all_iff)
  qed
  then show ?thesis using inv inv_queue_count [OF inv] by (auto simp: list_all_length qs_inv_def)
qed

theorem queue_store_bounds_witness:
  "length (qs_queues \<lparr>qs_queues = [], qs_next_id = 1, qs_heap = (\<lambda>_. None), qs_brk = 0\<rparr>) \<le> 64"
  using queue_store_bounds [OF qs_new [of mem_ok True]]
  by (simp add: vwasm_queue_store_new_def)

end
