(* ===== verification/Proxy_Context.thy ===== *)
theory Proxy_Context
  imports Guest_Memory Shared_Data Shared_Queue
begin

text \<open>
  The data every host function works on: the ABI enumerations and the structures of
  \<^verbatim>\<open>src/proxy_wasm.h\<close>, with \<open>struct vwasm_proxy_ctx\<close> as an extension of the guest-memory record. A
  pointer that may be NULL is an option, a buffer is its bytes. Varnish's request context and its
  \<open>struct http\<close> are the parts of them the sources read and write; the red-black tree of callouts is
  the list of its entries in key order, and the global stores that the struct points to are fields.
\<close>

datatype proxy_status =
    PROXY_OK | PROXY_NOT_FOUND | PROXY_BAD_ARGUMENT | PROXY_SERIALIZATION | PROXY_PARSE_FAILURE
  | PROXY_BAD_EXPRESSION | PROXY_INVALID_OP | PROXY_EMPTY | PROXY_CAS_MISMATCH | PROXY_INTERNAL
  | PROXY_UNIMPLEMENTED

definition PROXY_MAP_HTTP_REQUEST_HEADERS :: u32 where "PROXY_MAP_HTTP_REQUEST_HEADERS = 0"
definition PROXY_MAP_HTTP_REQUEST_TRAILERS :: u32 where "PROXY_MAP_HTTP_REQUEST_TRAILERS = 1"
definition PROXY_MAP_HTTP_RESPONSE_HEADERS :: u32 where "PROXY_MAP_HTTP_RESPONSE_HEADERS = 2"
definition PROXY_MAP_HTTP_RESPONSE_TRAILERS :: u32 where "PROXY_MAP_HTTP_RESPONSE_TRAILERS = 3"
definition PROXY_MAP_GRPC_CALL_INITIAL_MD :: u32 where "PROXY_MAP_GRPC_CALL_INITIAL_MD = 4"
definition PROXY_MAP_GRPC_CALL_TRAILING_MD :: u32 where "PROXY_MAP_GRPC_CALL_TRAILING_MD = 5"
definition PROXY_MAP_HTTP_CALL_RESP_HEADERS :: u32 where "PROXY_MAP_HTTP_CALL_RESP_HEADERS = 6"
definition PROXY_MAP_HTTP_CALL_RESP_TRAILERS :: u32 where "PROXY_MAP_HTTP_CALL_RESP_TRAILERS = 7"

lemmas proxy_map_types =
  PROXY_MAP_HTTP_REQUEST_HEADERS_def PROXY_MAP_HTTP_REQUEST_TRAILERS_def
  PROXY_MAP_HTTP_RESPONSE_HEADERS_def PROXY_MAP_HTTP_RESPONSE_TRAILERS_def
  PROXY_MAP_GRPC_CALL_INITIAL_MD_def PROXY_MAP_GRPC_CALL_TRAILING_MD_def
  PROXY_MAP_HTTP_CALL_RESP_HEADERS_def PROXY_MAP_HTTP_CALL_RESP_TRAILERS_def

definition PROXY_BUFFER_HTTP_REQUEST_BODY :: u32 where "PROXY_BUFFER_HTTP_REQUEST_BODY = 0"
definition PROXY_BUFFER_HTTP_RESPONSE_BODY :: u32 where "PROXY_BUFFER_HTTP_RESPONSE_BODY = 1"
definition PROXY_BUFFER_HTTP_CALL_BODY :: u32 where "PROXY_BUFFER_HTTP_CALL_BODY = 4"
definition PROXY_BUFFER_VM_CONFIGURATION :: u32 where "PROXY_BUFFER_VM_CONFIGURATION = 6"
definition PROXY_BUFFER_PLUGIN_CONFIG :: u32 where "PROXY_BUFFER_PLUGIN_CONFIG = 7"

lemmas proxy_buffer_types =
  PROXY_BUFFER_HTTP_REQUEST_BODY_def PROXY_BUFFER_HTTP_RESPONSE_BODY_def
  PROXY_BUFFER_HTTP_CALL_BODY_def PROXY_BUFFER_VM_CONFIGURATION_def PROXY_BUFFER_PLUGIN_CONFIG_def

section \<open>Varnish's HTTP messages\<close>

text \<open>Slots below \<open>HTTP_HDR_FIRST\<close> have a field each; \<open>hd_lines\<close> are the slots from
  \<open>HTTP_HDR_FIRST\<close> up to \<open>nhd\<close>, each a header line or NULL.\<close>

record http =
  hd_method :: "bytes option"
  hd_url :: "bytes option"
  hd_proto :: "bytes option"
  hd_status :: "bytes option"
  hd_lines :: "bytes option list"
  http_status :: nat

record vrt_ctx =
  http_req :: "http option"
  http_bereq :: "http option"
  http_resp :: "http option"
  http_beresp :: "http option"

text \<open>The functions of Varnish the host functions call on these messages, as a parameter: looking a header
  up (by a \<open>hdr_t\<close>, the length byte and the name with its colon), removing it, appending a line, setting
  one of the first slots, and whether the \<open>k\<close>-th copy to the workspace in a call finds room.\<close>

datatype http_slot = HTTP_HDR_METHOD | HTTP_HDR_URL

record varnish =
  v_GetHdr :: "http \<Rightarrow> bytes \<Rightarrow> bytes option"
  v_Unset :: "http \<Rightarrow> bytes \<Rightarrow> http"
  v_SetHeader :: "http \<Rightarrow> bytes \<Rightarrow> http"
  v_SetH :: "http \<Rightarrow> http_slot \<Rightarrow> bytes \<Rightarrow> http"
  v_ws :: malloc

section \<open>Trailers, metrics and callouts\<close>

definition VWASM_MAX_TRAILERS :: nat where "VWASM_MAX_TRAILERS = 32"
definition VWASM_MAX_METRICS :: nat where "VWASM_MAX_METRICS = 256"
definition VWASM_METRIC_MAX_NAME :: nat where "VWASM_METRIC_MAX_NAME = 128"

record trailer_entry =
  te_name :: bytes
  te_value :: bytes

text \<open>The entries in use of the array; \<open>count\<close> is their number.\<close>

record trailer_map =
  tm_entries :: "trailer_entry list"

text \<open>The metric type is stored as the guest gave it, unchecked.\<close>

record metric =
  mt_name :: bytes
  mt_type :: int
  mt_value :: u64

record metric_store =
  ms_metrics :: "metric list"

text \<open>The raw response with its length, and the body that \<open>body\<close> and \<open>body_len\<close> point to inside it;
  \<open>headers_buf\<close> is never set.\<close>

record http_call_response =
  hcr_raw :: "bytes option"
  hcr_num_headers :: u32
  hcr_body :: "bytes option"
  hcr_valid :: bool

record http_call_entry =
  hce_token :: u32
  hce_response :: http_call_response

section \<open>The execution context\<close>

record proxy_ctx = guest +
  vrt :: "vrt_ctx option"
  engine_set :: bool
  root_context_id :: u32
  stream_context_id :: u32
  mod_name :: "bytes option"
  local_response_set :: bool
  local_response_code :: int
  local_response_body :: "bytes option"
  local_response_headers :: "bytes option"
  vm_config :: "bytes option"
  plugin_config :: "bytes option"
  tick_period_ms :: u32
  paused :: bool
  last_status_code :: u32
  last_status_msg :: "bytes option"
  ctx_done :: bool
  shared_data_p :: "shared_data option"
  queue_store_p :: "queue_store option"
  metric_store_p :: "metric_store option"
  http_calls :: "http_call_entry list"
  http_call_next_token :: u32
  active_http_call :: "http_call_entry option"
  request_body :: "bytes option"
  response_body :: "bytes option"
  modified_body :: "bytes option"
  body_modified :: bool
  http_call_count :: u32
  http_call_max :: u32
  http_timeout_ms :: u32
  allowed_upstreams :: "bytes list option"
  request_trailers :: trailer_map
  response_trailers :: trailer_map

text \<open>The context after \<open>memset(&pctx, 0, sizeof(pctx))\<close>, with a memory and an allocator given.\<close>

definition pctx_zero :: "bytes \<Rightarrow> (u32 \<Rightarrow> bytes \<Rightarrow> u32 option \<times> bytes) \<Rightarrow> proxy_ctx" where
  "pctx_zero mem alloc =
     \<lparr>memory_valid = False, wasm_ctx = False, memory = mem, allocator_valid = False,
      allocator = alloc, mem_fault = False,
      vrt = None, engine_set = False, root_context_id = 0, stream_context_id = 0, mod_name = None,
      local_response_set = False, local_response_code = 0, local_response_body = None,
      local_response_headers = None, vm_config = None, plugin_config = None, tick_period_ms = 0,
      paused = False, last_status_code = 0, last_status_msg = None, ctx_done = False,
      shared_data_p = None, queue_store_p = None, metric_store_p = None, http_calls = [],
      http_call_next_token = 0, active_http_call = None, request_body = None, response_body = None,
      modified_body = None, body_modified = False, http_call_count = 0, http_call_max = 0,
      http_timeout_ms = 0, allowed_upstreams = None, request_trailers = \<lparr>tm_entries = []\<rparr>,
      response_trailers = \<lparr>tm_entries = []\<rparr>\<rparr>"

end
