(* ===== verification/Metrics.thy ===== *)
theory Metrics
  imports Proxy_Context
begin

text \<open>
  The metric store: the four metric host functions of \<^verbatim>\<open>src/proxy_wasm.c\<close> and the JSON report
  \<open>vmod_get_metrics_json\<close> of \<^verbatim>\<open>src/vmod_wasm.c\<close>. The store is an append-only array guarded by a
  lock, so each call is one atomic step. Identifiers are the array index plus one.
\<close>

section \<open>Host functions\<close>

definition pw_proxy_define_metric ::
  "'z proxy_ctx_scheme \<Rightarrow> int \<Rightarrow> u32 \<Rightarrow> u32 \<Rightarrow> u32 \<Rightarrow> 'z proxy_ctx_scheme \<times> proxy_status" where
  "pw_proxy_define_metric ctx metric_type name_ptr name_size ret_ptr =
     (case metric_store_p ctx of
        None \<Rightarrow> (ctx, PROXY_INTERNAL)
      | Some store \<Rightarrow>
          (case pw_read_string ctx name_ptr name_size VWASM_METRIC_MAX_NAME of
             None \<Rightarrow> (ctx, PROXY_BAD_ARGUMENT)
           | Some name_buf \<Rightarrow>
               (case find_index (\<lambda>m. length (mt_name m) = unat name_size \<and>
                        mt_name m = take (length (mt_name m)) name_buf) (ms_metrics store) of
                  Some i \<Rightarrow>
                    (case pw_write_u32 ctx ret_ptr (of_nat (i + 1)) of
                       (ctx, False) \<Rightarrow> (ctx, PROXY_INTERNAL)
                     | (ctx, True) \<Rightarrow> (ctx, PROXY_OK))
                | None \<Rightarrow>
                    if length (ms_metrics store) \<ge> VWASM_MAX_METRICS then (ctx, PROXY_INTERNAL)
                    else
                      (let metric_id = length (ms_metrics store) + 1;
                           m = \<lparr>mt_name = take (unat name_size) name_buf, mt_type = metric_type,
                                mt_value = 0\<rparr>;
                           ctx = ctx\<lparr>metric_store_p :=
                                     Some (store\<lparr>ms_metrics := ms_metrics store @ [m]\<rparr>)\<rparr>
                       in case pw_write_u32 ctx ret_ptr (of_nat metric_id) of
                            (ctx, False) \<Rightarrow> (ctx, PROXY_INTERNAL)
                          | (ctx, True) \<Rightarrow> (ctx, PROXY_OK)))))"

text \<open>The offset is an \<open>int64_t\<close>; \<open>-offset\<close> of the least one is taken modulo \<open>2^64\<close>.\<close>

definition metric_add :: "u64 \<Rightarrow> u64 \<Rightarrow> u64" where
  "metric_add value offset =
     (if sint offset \<ge> 0 then value + offset
      else if - offset \<le> value then value - (- offset)
      else 0)"

definition pw_proxy_increment_metric ::
  "'z proxy_ctx_scheme \<Rightarrow> u32 \<Rightarrow> u64 \<Rightarrow> 'z proxy_ctx_scheme \<times> proxy_status" where
  "pw_proxy_increment_metric ctx metric_id offset =
     (case metric_store_p ctx of
        None \<Rightarrow> (ctx, PROXY_INTERNAL)
      | Some store \<Rightarrow>
          if metric_id = 0 \<or> unat metric_id > length (ms_metrics store)
          then (ctx, PROXY_BAD_ARGUMENT)
          else
            (let i = unat (metric_id - 1); m = ms_metrics store ! i
             in (ctx\<lparr>metric_store_p := Some (store\<lparr>ms_metrics :=
                   (ms_metrics store)[i := m\<lparr>mt_value := metric_add (mt_value m) offset\<rparr>]\<rparr>)\<rparr>,
                 PROXY_OK)))"

definition pw_proxy_record_metric ::
  "'z proxy_ctx_scheme \<Rightarrow> u32 \<Rightarrow> u64 \<Rightarrow> 'z proxy_ctx_scheme \<times> proxy_status" where
  "pw_proxy_record_metric ctx metric_id value =
     (case metric_store_p ctx of
        None \<Rightarrow> (ctx, PROXY_INTERNAL)
      | Some store \<Rightarrow>
          if metric_id = 0 \<or> unat metric_id > length (ms_metrics store)
          then (ctx, PROXY_BAD_ARGUMENT)
          else
            (let i = unat (metric_id - 1)
             in (ctx\<lparr>metric_store_p := Some (store\<lparr>ms_metrics :=
                   (ms_metrics store)[i := (ms_metrics store ! i)\<lparr>mt_value := value\<rparr>]\<rparr>)\<rparr>,
                 PROXY_OK)))"

definition pw_proxy_get_metric ::
  "'z proxy_ctx_scheme \<Rightarrow> u32 \<Rightarrow> u32 \<Rightarrow> 'z proxy_ctx_scheme \<times> proxy_status" where
  "pw_proxy_get_metric ctx metric_id ret_ptr =
     (case metric_store_p ctx of
        None \<Rightarrow> (ctx, PROXY_INTERNAL)
      | Some store \<Rightarrow>
          if metric_id = 0 \<or> unat metric_id > length (ms_metrics store)
          then (ctx, PROXY_BAD_ARGUMENT)
          else
            (let value = mt_value (ms_metrics store ! unat (metric_id - 1)) in
             if \<not> pw_validate_region ctx ret_ptr 8 then (ctx, PROXY_BAD_ARGUMENT)
             else case pw_mem_ptr ctx ret_ptr of
                    None \<Rightarrow> (ctx, PROXY_BAD_ARGUMENT)
                  | Some dst \<Rightarrow> (mem_store dst (put64 value) ctx, PROXY_OK)))"

section \<open>The JSON report\<close>

text \<open>A growing C buffer of fixed capacity: the bytes written so far, and whether a write left the
  buffer or was cut short.\<close>

record out_buf =
  ob_text :: bytes
  ob_bad :: bool

definition buf_putc :: "nat \<Rightarrow> byte \<Rightarrow> out_buf \<Rightarrow> out_buf" where
  "buf_putc sz c b =
     (if length (ob_text b) < sz then b\<lparr>ob_text := ob_text b @ [c]\<rparr> else b\<lparr>ob_bad := True\<rparr>)"

text \<open>\<open>pos += snprintf(buf + pos, size - pos, ...)\<close>, which needs room for the text and its NUL.\<close>

definition buf_printf :: "nat \<Rightarrow> bytes \<Rightarrow> out_buf \<Rightarrow> out_buf" where
  "buf_printf sz s b =
     (if length (ob_text b) + length s < sz then b\<lparr>ob_text := ob_text b @ s\<rparr>
      else b\<lparr>ob_text := ob_text b @ take (sz - length (ob_text b) - 1) s, ob_bad := True\<rparr>)"

definition metric_type_str :: "int \<Rightarrow> bytes" where
  "metric_type_str t =
     (if t = 0 then ''counter'' else if t = 1 then ''gauge''
      else if t = 2 then ''histogram'' else ''unknown'')"

definition metric_json :: "metric \<Rightarrow> bytes" where
  "metric_json m = ''\"'' @ cstr (mt_name m) @ ''\":{\"type\":\"'' @ metric_type_str (mt_type m) @
     ''\",\"value\":'' @ dec (unat (mt_value m)) @ ''}''"

fun metrics_json_loop :: "nat \<Rightarrow> nat \<Rightarrow> metric list \<Rightarrow> out_buf \<Rightarrow> out_buf" where
  "metrics_json_loop sz i [] b = b"
| "metrics_json_loop sz i (m # ms) b =
     (let b = (if i > 0 then buf_putc sz (CHR '','') b else b)
      in metrics_json_loop sz (i + 1) ms (buf_printf sz (metric_json m) b))"

text \<open>The report, and the buffer it was built in when one was used.\<close>

definition vmod_get_metrics_json :: "malloc \<Rightarrow> bool \<Rightarrow> metric_store option \<Rightarrow> bytes \<times> out_buf option" where
  "vmod_get_metrics_json al ws_copy_ok storep =
     (case storep of
        None \<Rightarrow> (''{}'', None)
      | Some store \<Rightarrow>
          if length (ms_metrics store) = 0 then (''{}'', None)
          else if \<not> al 0 then (''{}'', None)
          else
            (let buf_size = 2 + length (ms_metrics store) * 200;
                 b = buf_putc buf_size (CHR ''{'') \<lparr>ob_text = [], ob_bad = False\<rparr>;
                 b = metrics_json_loop buf_size 0 (ms_metrics store) b;
                 b = buf_putc buf_size (CHR ''}'') b;
                 result = ob_text b;
                 b = buf_putc buf_size NUL b
             in if ws_copy_ok then (result, Some b) else (''{}'', Some b)))"

section \<open>Invariant\<close>

definition metrics_ok :: "metric_store \<Rightarrow> bool" where
  "metrics_ok store \<longleftrightarrow> length (ms_metrics store) \<le> VWASM_MAX_METRICS \<and>
     list_all (\<lambda>m. length (mt_name m) < VWASM_METRIC_MAX_NAME) (ms_metrics store) \<and>
     distinct (map mt_name (ms_metrics store))"

lemmas metric_limits = VWASM_MAX_METRICS_def VWASM_METRIC_MAX_NAME_def

lemma read_string_length: "pw_read_string ctx p n k = Some s \<Longrightarrow> length s = unat n"
  by (auto simp: pw_read_string_def validate_region_iff pw_mem_ptr_def pw_mem_base_def length_chunk
      split: if_splits)

lemma read_string_bound: "pw_read_string ctx p n k = Some s \<Longrightarrow> 0 < k \<Longrightarrow> length s < k"
  by (auto simp: pw_read_string_def validate_region_iff pw_mem_ptr_def pw_mem_base_def length_chunk
      split: if_splits)

lemma write_u32_store [simp]: "metric_store_p (fst (pw_write_u32 ctx r v)) = metric_store_p ctx"
  by (simp add: write_u32_cases)

lemma write_u32_read:
  "pw_validate_region ctx r 4 \<Longrightarrow> get32 (chunk (unat r) 4 (memory (fst (pw_write_u32 ctx r v)))) = v"
  by (simp add: write_u32_cases) (simp add: validate_region_iff chunk_put_same)

text \<open>The index a name has, or gets.\<close>

definition metric_index :: "bytes \<Rightarrow> metric list \<Rightarrow> nat" where
  "metric_index name ms = (case find_index (\<lambda>m. mt_name m = name) ms of Some i \<Rightarrow> i | None \<Rightarrow> length ms)"

definition metrics_define :: "bytes \<Rightarrow> int \<Rightarrow> metric list \<Rightarrow> metric list" where
  "metrics_define name t ms = (case find_index (\<lambda>m. mt_name m = name) ms of
     Some i \<Rightarrow> ms | None \<Rightarrow> ms @ [\<lparr>mt_name = name, mt_type = t, mt_value = 0\<rparr>])"

lemma name_match_eq:
  "length (name :: bytes) = n \<Longrightarrow>
   (\<lambda>m. length (mt_name m) = n \<and> mt_name m = take (length (mt_name m)) name) = (\<lambda>m. mt_name m = name)"
  by (auto simp: fun_eq_iff)

lemma define_metric_cases:
  assumes "metric_store_p ctx = Some store" "pw_read_string ctx p n VWASM_METRIC_MAX_NAME = Some name"
  shows "pw_proxy_define_metric ctx t p n r =
    (if find_index (\<lambda>m. mt_name m = name) (ms_metrics store) = None \<and>
        VWASM_MAX_METRICS \<le> length (ms_metrics store) then (ctx, PROXY_INTERNAL)
     else (fst (pw_write_u32 (ctx\<lparr>metric_store_p := Some (store\<lparr>ms_metrics :=
             metrics_define name t (ms_metrics store)\<rparr>)\<rparr>) r
             (of_nat (metric_index name (ms_metrics store) + 1))),
           if pw_validate_region ctx r 4 then PROXY_OK else PROXY_INTERNAL))"
proof -
  note match = name_match_eq [OF read_string_length [OF assms(2)]]
  have region: "pw_validate_region (ctx\<lparr>metric_store_p := x\<rparr>) r 4 = pw_validate_region ctx r 4" for x
    by (simp add: validate_region_iff)
  have keep: "ctx\<lparr>metric_store_p := Some store\<rparr> = ctx" using assms(1) by simp
  show ?thesis
    unfolding pw_proxy_define_metric_def match
    using assms read_string_length [OF assms(2)]
    by (auto simp: write_u32_cases metrics_define_def metric_index_def region keep match Let_def
        split: option.splits)
qed

lemma metrics_define_ok:
  assumes "metrics_ok store" "length name < VWASM_METRIC_MAX_NAME"
    and "\<not> (find_index (\<lambda>m. mt_name m = name) (ms_metrics store) = None \<and>
            VWASM_MAX_METRICS \<le> length (ms_metrics store))"
  shows "metrics_ok (store\<lparr>ms_metrics := metrics_define name t (ms_metrics store)\<rparr>)"
  using assms by (auto simp: metrics_ok_def metrics_define_def find_index_None split: option.splits)

lemma metric_index_define:
  "metric_index name' (metrics_define name t ms) =
     (if find_index (\<lambda>m. mt_name m = name') ms = None
      then (if name' = name then length ms else length (metrics_define name t ms))
      else metric_index name' ms)"
proof -
  have app: "find_index (\<lambda>m. mt_name m = name') (ms @ [m]) =
      (case find_index (\<lambda>m. mt_name m = name') ms of Some i \<Rightarrow> Some i
       | None \<Rightarrow> if mt_name m = name' then Some (length ms) else None)" for m
    by (induction ms) (auto split: option.splits)
  show ?thesis by (auto simp: metric_index_def metrics_define_def app split: option.splits)
qed

lemma metric_index_eq:
  assumes "find_index (\<lambda>m. mt_name m = name) ms \<noteq> None" "find_index (\<lambda>m. mt_name m = name') ms \<noteq> None"
  shows "metric_index name ms = metric_index name' ms \<longleftrightarrow> name = name'"
proof -
  obtain i j where ij: "find_index (\<lambda>m. mt_name m = name) ms = Some i"
    "find_index (\<lambda>m. mt_name m = name') ms = Some j" using assms by blast
  then have "mt_name (ms ! i) = name" "mt_name (ms ! j) = name'" by (simp_all add: find_index_Some)
  then have "i = j \<longleftrightarrow> name = name'" using ij by (metis option.inject)
  then show ?thesis using ij by (simp add: metric_index_def)
qed

lemma metric_index_lt: "find_index (\<lambda>m. mt_name m = name) ms \<noteq> None \<Longrightarrow> metric_index name ms < length ms"
  by (auto simp: metric_index_def dest: find_index_lt)

lemma metric_index_after_define:
  "metric_index name1 ms = metric_index name2 (metrics_define name1 t ms) \<longleftrightarrow> name1 = name2"
proof (cases "find_index (\<lambda>m. mt_name m = name2) ms")
  case None
  have "metric_index name1 ms < length (metrics_define name1 t ms)"
    by (cases "find_index (\<lambda>m. mt_name m = name1) ms")
       (simp_all add: metric_index_def metrics_define_def find_index_lt)
  then show ?thesis using None by (auto simp: metric_index_define) (simp add: metric_index_def)
next
  case (Some j)
  then have "metric_index name2 ms < length ms" by (simp add: metric_index_lt)
  then show ?thesis using Some metric_index_eq [of name1 ms name2]
    by (cases "find_index (\<lambda>m. mt_name m = name1) ms")
       (auto simp: metric_index_define, auto simp: metric_index_def)
qed

lemma define_metric_ok:
  assumes "metric_store_p ctx = Some store" "metrics_ok store"
    and "pw_read_string ctx p n VWASM_METRIC_MAX_NAME = Some name"
    and "pw_proxy_define_metric ctx t p n r = (ctx', PROXY_OK)"
  shows "\<exists>store'. metric_store_p ctx' = Some store' \<and> metrics_ok store' \<and>
    ms_metrics store' = metrics_define name t (ms_metrics store) \<and>
    metric_index name (ms_metrics store) < 256 \<and>
    get32 (chunk (unat r) 4 (memory ctx')) = of_nat (metric_index name (ms_metrics store) + 1)"
proof -
  let ?s = "store\<lparr>ms_metrics := metrics_define name t (ms_metrics store)\<rparr>"
  have c: "\<not> (find_index (\<lambda>m. mt_name m = name) (ms_metrics store) = None \<and>
        VWASM_MAX_METRICS \<le> length (ms_metrics store))" "pw_validate_region ctx r 4"
    "ctx' = fst (pw_write_u32 (ctx\<lparr>metric_store_p := Some ?s\<rparr>) r
             (of_nat (metric_index name (ms_metrics store) + 1)))"
    using assms(4) unfolding define_metric_cases [OF assms(1,3)] by (auto split: if_splits)
  have "metrics_ok ?s"
    using metrics_define_ok [OF assms(2) read_string_bound [OF assms(3)] c(1)]
    by (simp add: metric_limits)
  moreover have "metric_index name (ms_metrics store) < 256"
    using c(1) assms(2) metric_index_lt [of name "ms_metrics store"]
    by (cases "find_index (\<lambda>m. mt_name m = name) (ms_metrics store) = None")
       (auto simp: metric_index_def metrics_ok_def metric_limits split: option.splits)
  moreover have "pw_validate_region (ctx\<lparr>metric_store_p := Some ?s\<rparr>) r 4"
    using c(2) by (simp add: validate_region_iff)
  ultimately show ?thesis unfolding c(3) by (simp add: write_u32_read)
qed

lemma get_metric_step:
  assumes "metric_store_p ctx = Some store" "k \<noteq> 0" "unat k \<le> length (ms_metrics store)"
    and "pw_validate_region ctx r 8"
  shows "\<exists>ctx'. pw_proxy_get_metric ctx k r = (ctx', PROXY_OK) \<and>
    chunk (unat r) 8 (memory ctx') = put64 (mt_value (ms_metrics store ! unat (k - 1)))"
  using assms
  by (simp add: pw_proxy_get_metric_def mem_ptr_valid Let_def)
     (simp add: mem_store_def validate_region_iff chunk_put_same)

lemma metric_id_inj: "a < 256 \<Longrightarrow> b < 256 \<Longrightarrow> (of_nat (a + 1) :: u32) = of_nat (b + 1) \<longleftrightarrow> a = b"
  by (auto dest!: arg_cong [where f = unat] simp: unat_of_nat_u32 simp del: of_nat_add)

lemma id_minus_one: "(k :: u32) \<noteq> 0 \<Longrightarrow> unat (k - 1) < n \<longleftrightarrow> unat k \<le> n"
  using unat_minus_one [of k] unat_eq_zero [of k] by auto

lemma id_minus_one_inj: "(j :: u32) \<noteq> 0 \<Longrightarrow> k \<noteq> 0 \<Longrightarrow> unat (j - 1) = unat (k - 1) \<longleftrightarrow> j = k"
  by (simp add: word_unat_eq_iff [symmetric])

lemma metric_add_uint:
  "uint (metric_add v d) =
     (if sint d \<ge> 0 then (uint v + sint d) mod 2 ^ 64 else max 0 (uint v + sint d))"
proof (cases "sint d \<ge> 0")
  case True
  have d: "uint d = sint d mod 2 ^ 64" by (simp add: uint_sint take_bit_eq_mod)
  have "uint (v + d) = (uint v + uint d) mod 2 ^ 64" by (simp add: uint_word_ariths)
  then have "uint (v + d) = (uint v + sint d) mod 2 ^ 64" unfolding d by (simp add: mod_add_right_eq)
  then show ?thesis using True by (simp add: metric_add_def)
next
  case False
  have lo: "- (2 ^ 63) \<le> sint d" using sint_ge [of d] by simp
  have d: "uint d = sint d mod 2 ^ 64" by (simp add: uint_sint take_bit_eq_mod)
  have "uint (- d) = (- uint d) mod 2 ^ 64" by (simp add: uint_word_ariths)
  then have "uint (- d) = (- sint d) mod 2 ^ 64" unfolding d by (simp add: mod_minus_eq)
  also have "\<dots> = - sint d" using lo False by (intro mod_pos_pos_trivial) auto
  finally have neg: "uint (- d) = - sint d" .
  have "uint (v - (- d)) = uint v - uint (- d)" if "- d \<le> v"
    using that by (intro uint_minus_simple_alt [THEN iffD1])
  then show ?thesis using False neg by (auto simp: metric_add_def word_le_def)
qed

lemma metric_json_length:
  assumes "length (mt_name m) < VWASM_METRIC_MAX_NAME"
  shows "length (metric_json m) \<le> 179"
proof -
  have "unat (mt_value m) < 10 ^ 20"
    using unsigned_less [of "mt_value m", where 'a = nat] by simp
  then have "length (dec (unat (mt_value m))) \<le> 20" by (rule dec_length) simp
  moreover have "length (metric_type_str (mt_type m)) \<le> 9" by (simp add: metric_type_str_def)
  moreover have "length (cstr (mt_name m)) \<le> 127"
    using assms length_cstr_le [of "mt_name m"] by (simp add: metric_limits)
  ultimately show ?thesis by (simp add: metric_json_def)
qed

lemma json_tail_length:
  "\<forall>x \<in> set ms. length (metric_json x) \<le> 179 \<Longrightarrow>
   length (concat (map (\<lambda>x. CHR '','' # metric_json x) ms)) \<le> 180 * length ms"
  by (induction ms) auto

lemma json_loop:
  "\<forall>x \<in> set ms. length (metric_json x) \<le> 179 \<Longrightarrow> length t + 180 * length ms < sz \<Longrightarrow> 0 < i \<Longrightarrow>
   metrics_json_loop sz i ms \<lparr>ob_text = t, ob_bad = False\<rparr> =
     \<lparr>ob_text = t @ concat (map (\<lambda>x. CHR '','' # metric_json x) ms), ob_bad = False\<rparr>"
  by (induction ms arbitrary: t i) (auto simp: buf_putc_def buf_printf_def Let_def)

section \<open>Properties\<close>

text \<open>A metric identifies its name. When two definitions succeed one after the other, the
  identifiers the guest receives are equal exactly when the names are; the store stays within 256
  metrics with distinct names shorter than 128 bytes.\<close>

theorem metric_id_identifies_name:
  assumes "metric_store_p ctx = Some store" "metrics_ok store"
    and "pw_read_string ctx p1 n1 VWASM_METRIC_MAX_NAME = Some name1"
    and "pw_proxy_define_metric ctx t1 p1 n1 r1 = (ctx1, PROXY_OK)"
    and "pw_read_string ctx1 p2 n2 VWASM_METRIC_MAX_NAME = Some name2"
    and "pw_proxy_define_metric ctx1 t2 p2 n2 r2 = (ctx2, PROXY_OK)"
  shows "(get32 (chunk (unat r1) 4 (memory ctx1)) = get32 (chunk (unat r2) 4 (memory ctx2))
      \<longleftrightarrow> name1 = name2) \<and> (\<exists>store2. metric_store_p ctx2 = Some store2 \<and> metrics_ok store2)"
proof -
  obtain s1 where s1: "metric_store_p ctx1 = Some s1" "metrics_ok s1"
    "ms_metrics s1 = metrics_define name1 t1 (ms_metrics store)"
    "metric_index name1 (ms_metrics store) < 256"
    "get32 (chunk (unat r1) 4 (memory ctx1)) = of_nat (metric_index name1 (ms_metrics store) + 1)"
    using define_metric_ok [OF assms(1-4)] by blast
  obtain s2 where s2: "metric_store_p ctx2 = Some s2" "metrics_ok s2"
    "metric_index name2 (ms_metrics s1) < 256"
    "get32 (chunk (unat r2) 4 (memory ctx2)) = of_nat (metric_index name2 (ms_metrics s1) + 1)"
    using define_metric_ok [OF s1(1,2) assms(5,6)] by blast
  have "metric_index name1 (ms_metrics store) = metric_index name2 (ms_metrics s1) \<longleftrightarrow> name1 = name2"
    unfolding s1(3) by (rule metric_index_after_define)
  then show ?thesis using s1(5) s2 metric_id_inj [OF s1(4) s2(3)] by simp
qed

definition metric_ctx :: "bytes \<Rightarrow> metric list \<Rightarrow> proxy_ctx" where
  "metric_ctx mem ms = (pctx_zero mem (\<lambda>_ m. (None, m)))
     \<lparr>memory_valid := True, wasm_ctx := True, metric_store_p := Some \<lparr>ms_metrics = ms\<rparr>\<rparr>"

lemma metric_ctx_simps [simp]:
  "memory (metric_ctx mem ms) = mem" "memory_valid (metric_ctx mem ms)" "wasm_ctx (metric_ctx mem ms)"
  "metric_store_p (metric_ctx mem ms) = Some \<lparr>ms_metrics = ms\<rparr>"
  by (simp_all add: metric_ctx_def pctx_zero_def)

theorem metric_id_identifies_name_witness:
  "let ctx1 = fst (pw_proxy_define_metric (metric_ctx (''hitsmiss'' @ replicate 8 NUL) []) 0 0 4 8);
       ctx2 = fst (pw_proxy_define_metric ctx1 0 4 4 12)
   in get32 (chunk 8 4 (memory ctx1)) \<noteq> get32 (chunk 12 4 (memory ctx2))"
proof -
  let ?m = "''hitsmiss'' @ replicate 8 NUL"
  let ?c0 = "metric_ctx ?m []"
  obtain c1 where d1: "pw_proxy_define_metric ?c0 0 0 4 8 = (c1, PROXY_OK)"
    and c1: "memory_valid c1" "wasm_ctx c1" "memory c1 = put 8 (put32 1) ?m"
      "metric_store_p c1 = Some \<lparr>ms_metrics = [\<lparr>mt_name = ''hits'', mt_type = 0, mt_value = 0\<rparr>]\<rparr>"
    by (simp add: pw_proxy_define_metric_def pw_read_string_def validate_region_iff pw_mem_ptr_def
        pw_mem_base_def metric_limits write_u32_cases chunk_def Let_def)
  have len: "length (memory c1) = 16" using c1(3) by (simp add: length_put)
  have r1: "pw_read_string ?c0 0 4 VWASM_METRIC_MAX_NAME = Some ''hits''"
    by (simp add: pw_read_string_def validate_region_iff pw_mem_ptr_def pw_mem_base_def metric_limits
        chunk_def)
  have r2: "pw_read_string c1 4 4 VWASM_METRIC_MAX_NAME = Some ''miss''"
    using c1 len by (simp add: pw_read_string_def validate_region_iff pw_mem_ptr_def pw_mem_base_def
        metric_limits chunk_put_before) (simp add: chunk_def)
  obtain c2 where d2: "pw_proxy_define_metric c1 0 4 4 12 = (c2, PROXY_OK)"
    using c1 len unfolding define_metric_cases [OF c1(4) r2]
    by (simp add: validate_region_iff metric_limits)
  show ?thesis
    using metric_id_identifies_name [OF _ _ r1 d1 r2 d2] d1 d2
    by (simp add: metrics_ok_def Let_def)
qed

text \<open>Recorded values read back. After \<open>proxy_record_metric\<close> on a defined metric,
  \<open>proxy_get_metric\<close> stores exactly that value, as eight little-endian bytes, and every
  other metric still reads as before.\<close>

theorem metric_record_get:
  assumes "metric_store_p ctx = Some store" "k \<noteq> 0" "unat k \<le> length (ms_metrics store)"
    and "j \<noteq> 0" "unat j \<le> length (ms_metrics store)" "pw_validate_region ctx r 8"
  shows "\<exists>ctx1 ctx2. pw_proxy_record_metric ctx k v = (ctx1, PROXY_OK) \<and>
    pw_proxy_get_metric ctx1 j r = (ctx2, PROXY_OK) \<and>
    chunk (unat r) 8 (memory ctx2) =
      (if j = k then put64 v else chunk (unat r) 8 (memory (fst (pw_proxy_get_metric ctx j r))))"
proof -
  let ?i = "unat (k - 1)"
  let ?s = "store\<lparr>ms_metrics := (ms_metrics store)[?i := (ms_metrics store ! ?i)\<lparr>mt_value := v\<rparr>]\<rparr>"
  let ?c = "ctx\<lparr>metric_store_p := Some ?s\<rparr>"
  have rec: "pw_proxy_record_metric ctx k v = (?c, PROXY_OK)"
    using assms(1-3) by (simp add: pw_proxy_record_metric_def Let_def)
  have "pw_validate_region ?c r 8" using assms(6) by (simp add: validate_region_iff)
  then obtain ctx2 where get: "pw_proxy_get_metric ?c j r = (ctx2, PROXY_OK)"
    "chunk (unat r) 8 (memory ctx2) = put64 (mt_value (ms_metrics ?s ! unat (j - 1)))"
    using get_metric_step [of ?c ?s j r] assms(4,5) by auto
  obtain ctx3 where old: "pw_proxy_get_metric ctx j r = (ctx3, PROXY_OK)"
    "chunk (unat r) 8 (memory ctx3) = put64 (mt_value (ms_metrics store ! unat (j - 1)))"
    using get_metric_step [OF assms(1,4,5,6)] by auto
  have "unat (j - 1) < length (ms_metrics store)" using assms(4,5) by (simp add: id_minus_one)
  then show ?thesis
    using rec get old assms(2,4) id_minus_one_inj [of k j] by (simp add: nth_list_update_if)
qed

theorem metric_record_get_witness:
  "\<exists>ctx1 ctx2. pw_proxy_record_metric
      (metric_ctx (replicate 8 NUL) [\<lparr>mt_name = ''hits'', mt_type = 0, mt_value = 5\<rparr>]) 1 77
      = (ctx1, PROXY_OK) \<and>
    pw_proxy_get_metric ctx1 1 0 = (ctx2, PROXY_OK) \<and> chunk 0 8 (memory ctx2) = put64 77"
  using metric_record_get
    [of "metric_ctx (replicate 8 NUL) [\<lparr>mt_name = ''hits'', mt_type = 0, mt_value = 5\<rparr>]"
        "\<lparr>ms_metrics = [\<lparr>mt_name = ''hits'', mt_type = 0, mt_value = 5\<rparr>]\<rparr>" 1 1 0 77]
  by (simp add: validate_region_iff)

text \<open>The arithmetic of \<open>proxy_increment_metric\<close>, for every value and every 64-bit offset the guest
  passes. A positive offset is added modulo \<open>2^64\<close>; a negative one is subtracted and the result
  stops at zero, the least offset included.\<close>

theorem metric_increment_value:
  assumes "metric_store_p ctx = Some store" "k \<noteq> 0" "unat k \<le> length (ms_metrics store)"
  shows "\<exists>ctx' store'. pw_proxy_increment_metric ctx k d = (ctx', PROXY_OK) \<and>
    metric_store_p ctx' = Some store' \<and>
    uint (mt_value (ms_metrics store' ! (unat k - 1))) =
      (let v = uint (mt_value (ms_metrics store ! (unat k - 1))) in
       if sint d \<ge> 0 then (v + sint d) mod 2 ^ 64 else max 0 (v + sint d)) \<and>
    (\<forall>j. j \<noteq> unat k - 1 \<longrightarrow> ms_metrics store' ! j = ms_metrics store ! j)"
proof -
  have "unat k - 1 < length (ms_metrics store)" using assms(2,3) unat_eq_zero [of k] by linarith
  then show ?thesis using assms
    by (auto simp: pw_proxy_increment_metric_def Let_def metric_add_uint unat_minus_one)
qed

theorem metric_increment_value_witness:
  "\<exists>ctx' store'. pw_proxy_increment_metric
      (metric_ctx [] [\<lparr>mt_name = ''hits'', mt_type = 0, mt_value = 5\<rparr>]) 1 (- 7) = (ctx', PROXY_OK) \<and>
    metric_store_p ctx' = Some store' \<and> uint (mt_value (ms_metrics store' ! 0)) = 0"
  using metric_increment_value
    [of "metric_ctx [] [\<lparr>mt_name = ''hits'', mt_type = 0, mt_value = 5\<rparr>]"
        "\<lparr>ms_metrics = [\<lparr>mt_name = ''hits'', mt_type = 0, mt_value = 5\<rparr>]\<rparr>" 1 "- 7"]
  by auto

text \<open>C36: the JSON report never overruns its buffer of 200 bytes per metric, and is the complete list of
  metrics, for every store within the limits.\<close>

theorem metrics_json_fits:
  assumes "metrics_ok store" "ms_metrics store \<noteq> []"
  shows "\<exists>b. vmod_get_metrics_json mem_ok True (Some store) =
      (''{'' @ join '','' (map metric_json (ms_metrics store)) @ ''}'', Some b) \<and> \<not> ob_bad b"
proof -
  obtain m ms where ms: "ms_metrics store = m # ms" using assms(2) by (cases "ms_metrics store") auto
  have len: "length (metric_json x) \<le> 179" if "x \<in> set (m # ms)" for x
    using assms(1) that metric_json_length [of x] by (auto simp: metrics_ok_def list_all_iff ms)
  let ?t = "concat (map (\<lambda>x. CHR '','' # metric_json x) ms)"
  have t: "length ?t \<le> 180 * length ms"
    using len by (intro json_tail_length) auto
  have "metrics_json_loop (2 + length (m # ms) * 200) 1 ms \<lparr>ob_text = ''{'' @ metric_json m, ob_bad = False\<rparr>
      = \<lparr>ob_text = ''{'' @ metric_json m @ ?t, ob_bad = False\<rparr>"
    using json_loop [of ms "''{'' @ metric_json m" "2 + length (m # ms) * 200" 1] len [of m] len
    by fastforce
  then show ?thesis using t len [of m]
    by (simp add: vmod_get_metrics_json_def ms buf_putc_def buf_printf_def join_def comp_def Let_def)
qed

theorem metrics_json_fits_witness:
  "fst (vmod_get_metrics_json mem_ok True (Some \<lparr>ms_metrics =
      [\<lparr>mt_name = ''hits'', mt_type = 0, mt_value = 5\<rparr>, \<lparr>mt_name = ''len'', mt_type = 1, mt_value = 0\<rparr>]\<rparr>)) =
    ''{\"hits\":{\"type\":\"counter\",\"value\":5},\"len\":{\"type\":\"gauge\",\"value\":0}}''"
proof -
  have "dec 5 = ''5''" "dec 0 = ''0''" by code_simp+
  then show ?thesis
    using metrics_json_fits [of "\<lparr>ms_metrics =
      [\<lparr>mt_name = ''hits'', mt_type = 0, mt_value = 5\<rparr>, \<lparr>mt_name = ''len'', mt_type = 1, mt_value = 0\<rparr>]\<rparr>"]
    by (auto simp: metrics_ok_def metric_limits join_def metric_json_def cstr_def metric_type_str_def)
qed

end
