(* ===== verification/Http_Addr.thy ===== *)
theory Http_Addr
  imports Prelude
begin

unbundle bit_operations_syntax

text \<open>
  Addresses and connection establishment of \<^verbatim>\<open>src/http_pool.c\<close>: the private-address filter that keeps
  callouts from reaching internal services, and the connect sequence. Addresses keep the byte layout
  of the socket structures. The system calls are parameters: what they return on this attempt.
\<close>

section \<open>Socket addresses\<close>

text \<open>An address in network byte order, and a port.\<close>

datatype sockaddr =
    SA_INET (sin_addr: bytes) (sin_port: u16)
  | SA_INET6 (sin6_addr: bytes) (sin6_port: u16)
  | SA_OTHER

definition ntohl :: "bytes \<Rightarrow> u32" where
  "ntohl b = of_nat (le_val (rev b))"

section \<open>The private-address filter\<close>

definition inet_is_private :: "u32 \<Rightarrow> bool" where
  "inet_is_private ip \<longleftrightarrow>
     drop_bit 24 ip = 127 \<or>
     drop_bit 24 ip = 10 \<or>
     drop_bit 20 ip = (push_bit 4 172 OR 1) \<or>
     drop_bit 16 ip = (push_bit 8 192 OR 168) \<or>
     drop_bit 16 ip = (push_bit 8 169 OR 254) \<or>
     drop_bit 24 ip = 0 \<or>
     drop_bit 22 ip = (push_bit 2 100 OR 1) \<or>
     drop_bit 8 ip = (push_bit 16 192 OR 0) \<or>
     drop_bit 17 ip = (push_bit 7 198 OR 9) \<or>
     drop_bit 28 ip = 15"

definition inet6_is_private :: "bytes \<Rightarrow> bool" where
  "inet6_is_private b \<longleftrightarrow>
     b = replicate 15 NUL @ [CHR 0x01] \<or>
     b = replicate 16 NUL \<or>
     byte_val (b ! 0) AND 0xfe = 0xfc \<or>
     (byte_val (b ! 0) = 0xfe \<and> byte_val (b ! 1) AND 0xc0 = 0x80) \<or>
     (take 12 b = replicate 10 NUL @ [CHR 0xFF, CHR 0xFF] \<and> inet_is_private (ntohl (chunk 12 4 b)))"

definition vwasm_http_addr_is_private :: "sockaddr option \<Rightarrow> bool" where
  "vwasm_http_addr_is_private sa =
     (case sa of
        None \<Rightarrow> True
      | Some (SA_INET a _) \<Rightarrow> inet_is_private (ntohl a)
      | Some (SA_INET6 a _) \<Rightarrow> inet6_is_private a
      | Some SA_OTHER \<Rightarrow> False)"

section \<open>Connecting\<close>

text \<open>What the system calls of one attempt return.\<close>

record connect_env =
  ce_socket :: int
  ce_nonblock_ok :: bool
  ce_connect_ret :: int
  ce_in_progress :: bool
  ce_poll_ret :: int
  ce_so_error_ok :: bool

text \<open>\<open>set_io_timeouts\<close>: the seconds and microseconds set on the socket.\<close>

definition VWASM_HTTP_DEFAULT_TIMEOUT_MS :: u32 where "VWASM_HTTP_DEFAULT_TIMEOUT_MS = 1000"

definition set_io_timeouts :: "u32 \<Rightarrow> u32 \<times> u32" where
  "set_io_timeouts timeout_ms =
     (let timeout_ms = (if timeout_ms = 0 then VWASM_HTTP_DEFAULT_TIMEOUT_MS else timeout_ms)
      in (timeout_ms div 1000, (timeout_ms mod 1000) * 1000))"

text \<open>The descriptor or -1, the descriptors closed, and the timeouts set on the result.\<close>

definition connect_with_timeout :: "connect_env \<Rightarrow> u32 \<Rightarrow> int \<times> int list \<times> (u32 \<times> u32) option" where
  "connect_with_timeout e timeout_ms =
     (let fd = ce_socket e in
      if fd < 0 then (-1, [], None)
      else if \<not> ce_nonblock_ok e then (-1, [fd], None)
      else if ce_connect_ret e = 0 then (fd, [], Some (set_io_timeouts timeout_ms))
      else if \<not> ce_in_progress e then (-1, [fd], None)
      else if ce_poll_ret e \<le> 0 then (-1, [fd], None)
      else if \<not> ce_so_error_ok e then (-1, [fd], None)
      else (fd, [], Some (set_io_timeouts timeout_ms)))"

section \<open>Lemmas\<close>

lemma quad_bound:
  assumes "(a :: nat) < 256" "b < 256" "c < 256" "d < 256"
  shows "d + 256 * (c + 256 * (b + 256 * a)) < 4294967296"
  using assms by auto

lemma unat_ntohl4: "unat (ntohl [a, b, c, d]) =
  byte_val a * 2 ^ 24 + byte_val b * 2 ^ 16 + byte_val c * 2 ^ 8 + byte_val d"
proof -
  have "byte_val d + 256 * (byte_val c + 256 * (byte_val b + 256 * byte_val a)) < 4294967296"
    by (rule quad_bound) (rule byte_val_less)+
  then have "le_val (rev [a, b, c, d]) < 2 ^ 32" by simp
  then have "unat (ntohl [a, b, c, d]) = le_val (rev [a, b, c, d])"
    unfolding ntohl_def by (rule unat_of_nat_u32)
  then show ?thesis by simp
qed

lemma drop_bit_eq_nat: "drop_bit n (w :: u32) = v \<longleftrightarrow> unat w div 2 ^ n = unat v"
  by (simp only: word_unat_eq_iff unat_drop_bit_eq) (simp only: drop_bit_eq_div)

text \<open>The ten address blocks, by the octets of the address.\<close>

definition octets_private :: "nat \<Rightarrow> nat \<Rightarrow> nat \<Rightarrow> bool" where
  "octets_private a b c \<longleftrightarrow>
     a = 127 \<or> a = 10 \<or> (a = 172 \<and> 16 \<le> b \<and> b \<le> 31) \<or> (a = 192 \<and> b = 168) \<or>
     (a = 169 \<and> b = 254) \<or> a = 0 \<or> (a = 100 \<and> 64 \<le> b \<and> b \<le> 127) \<or>
     (a = 192 \<and> b = 0 \<and> c = 0) \<or> (a = 198 \<and> (b = 18 \<or> b = 19)) \<or> 240 \<le> a"

lemma digit_split: "(q :: nat) < n \<Longrightarrow> a * n + q = k \<longleftrightarrow> a = k div n \<and> q = k mod n"
  by (metis add.commute div_mult_mod_eq div_mult_self1 less_nat_zero_code mod_less mod_mult_self1
      add_0 div_less)

lemma div_range: "0 < (n :: nat) \<Longrightarrow> b div n = k \<longleftrightarrow> k * n \<le> b \<and> b < (k + 1) * n"
  by (metis Suc_eq_plus1 div_nat_eqI dividend_less_times_div mult.commute times_div_less_eq_dividend
      mult_Suc_right add.commute)

lemma digit_div: "(q :: nat) < n \<Longrightarrow> (a * n + q) div n = a"
  by (simp add: div_mult_self3)

lemma div_div_exp: "(x :: nat) div 2 ^ i div 2 ^ j = x div 2 ^ (i + j)"
  by (simp add: power_add div_mult2_eq)

lemma octet_blocks:
  assumes "(b :: nat) < 256" "c < 256"
  shows "a * 16 + b div 16 = 2753 \<longleftrightarrow> a = 172 \<and> 16 \<le> b \<and> b \<le> 31"
    and "a * 256 + b = 49320 \<longleftrightarrow> a = 192 \<and> b = 168"
    and "a * 256 + b = 43518 \<longleftrightarrow> a = 169 \<and> b = 254"
    and "a * 4 + b div 64 = 401 \<longleftrightarrow> a = 100 \<and> 64 \<le> b \<and> b \<le> 127"
    and "(a * 256 + b) * 256 + c = 12582912 \<longleftrightarrow> a = 192 \<and> b = 0 \<and> c = 0"
    and "a * 128 + b div 2 = 25353 \<longleftrightarrow> a = 198 \<and> (b = 18 \<or> b = 19)"
proof -
  have q: "b div 16 < 16" "b div 64 < 4" "b div 2 < 128" using assms(1) by simp_all
  show "a * 16 + b div 16 = 2753 \<longleftrightarrow> a = 172 \<and> 16 \<le> b \<and> b \<le> 31"
    by (subst digit_split [OF q(1)]) (auto simp: div_range)
  show "a * 256 + b = 49320 \<longleftrightarrow> a = 192 \<and> b = 168"
    by (subst digit_split [OF assms(1)]) simp
  show "a * 256 + b = 43518 \<longleftrightarrow> a = 169 \<and> b = 254"
    by (subst digit_split [OF assms(1)]) simp
  show "a * 4 + b div 64 = 401 \<longleftrightarrow> a = 100 \<and> 64 \<le> b \<and> b \<le> 127"
    by (subst digit_split [OF q(2)]) (auto simp: div_range)
  show "(a * 256 + b) * 256 + c = 12582912 \<longleftrightarrow> a = 192 \<and> b = 0 \<and> c = 0"
    by (subst digit_split [OF assms(2)], subst digit_split [OF assms(1)]) simp
  show "a * 128 + b div 2 = 25353 \<longleftrightarrow> a = 198 \<and> (b = 18 \<or> b = 19)"
    by (subst digit_split [OF q(3)]) (auto simp: div_range)
qed

lemma block_numbers:
  "unat (127 :: u32) = 127" "unat (10 :: u32) = 10" "unat (push_bit 4 172 OR 1 :: u32) = 2753"
  "unat (push_bit 8 192 OR 168 :: u32) = 49320" "unat (push_bit 8 169 OR 254 :: u32) = 43518"
  "unat (0 :: u32) = 0" "unat (push_bit 2 100 OR 1 :: u32) = 401"
  "unat (push_bit 16 192 OR 0 :: u32) = 12582912" "unat (push_bit 7 198 OR 9 :: u32) = 25353"
  "unat (15 :: u32) = 15"
  by simp_all

lemma inet_octets:
  assumes "a < 256" "b < 256" "c < 256" "d < 256"
    and "unat ip = a * 2 ^ 24 + b * 2 ^ 16 + c * 2 ^ 8 + d"
  shows "inet_is_private ip \<longleftrightarrow> octets_private a b c"
proof -
  have b8: "unat ip div 2 ^ 8 = (a * 256 + b) * 256 + c"
    using digit_div [of d 256 "(a * 256 + b) * 256 + c"] assms(4,5) by (simp add: algebra_simps)
  then have b16: "unat ip div 2 ^ 16 = a * 256 + b"
    using div_div_exp [of "unat ip" 8 8] digit_div [of c 256 "a * 256 + b"] assms(3) by simp
  then have b24: "unat ip div 2 ^ 24 = a"
    using div_div_exp [of "unat ip" 16 8] digit_div [of b 256 a] assms(2) by simp
  have b20: "unat ip div 2 ^ 20 = a * 16 + b div 16"
    using b16 div_div_exp [of "unat ip" 16 4] div_mult_self3 [of 16 "a * 16" b] by (simp add: algebra_simps)
  have b22: "unat ip div 2 ^ 22 = a * 4 + b div 64"
    using b16 div_div_exp [of "unat ip" 16 6] div_mult_self3 [of 64 "a * 4" b] by (simp add: algebra_simps)
  have b17: "unat ip div 2 ^ 17 = a * 128 + b div 2"
    using b16 div_div_exp [of "unat ip" 16 1] div_mult_self3 [of 2 "a * 128" b] by (simp add: algebra_simps)
  have b28: "unat ip div 2 ^ 28 = a div 16"
    using b24 div_div_exp [of "unat ip" 24 4] by simp
  have top: "a div 16 = 15 \<longleftrightarrow> 240 \<le> a" using assms(1) by (auto simp: div_range)
  show ?thesis
    unfolding inet_is_private_def drop_bit_eq_nat b24 b16 b8 b20 b22 b17 b28 octets_private_def
      block_numbers octet_blocks [OF assms(2,3)] top by (rule refl)
qed

lemma bytes4: "length b = 4 \<Longrightarrow> b = [b ! 0, b ! 1, b ! 2, b ! 3]"
  by (rule nth_equalityI) (auto simp: less_Suc_eq numeral_eq_Suc)

lemma inet_private_bytes:
  assumes "length b = 4"
  shows "inet_is_private (ntohl b) \<longleftrightarrow> octets_private (byte_val (b ! 0)) (byte_val (b ! 1)) (byte_val (b ! 2))"
  by (subst bytes4 [OF assms], rule inet_octets [OF _ _ _ _ unat_ntohl4]) simp_all

lemma and_shifted_mask: "(x :: nat) AND push_bit n (mask m) = push_bit n (take_bit m (drop_bit n x))"
  by (rule bit_eqI) (auto simp: bit_simps)

lemma mask_fe:
  assumes "x < 256"
  shows "(x :: nat) AND 0xfe = 0xfc \<longleftrightarrow> x = 0xfc \<or> x = 0xfd"
proof -
  have "(0xfe :: nat) = push_bit 1 (mask 7)" by (simp add: mask_eq_exp_minus_1 push_bit_eq_mult)
  then have "x AND 0xfe = 2 * (x div 2 mod 128)"
    using and_shifted_mask [of x 1 7] by (simp add: push_bit_eq_mult take_bit_eq_mod drop_bit_eq_div)
  moreover have "x div 2 mod 128 = x div 2" using assms by simp
  ultimately show ?thesis by (auto simp: div_range)
qed

lemma mask_c0:
  assumes "x < 256"
  shows "(x :: nat) AND 0xc0 = 0x80 \<longleftrightarrow> 0x80 \<le> x \<and> x \<le> 0xbf"
proof -
  have "(0xc0 :: nat) = push_bit 6 (mask 2)" by (simp add: mask_eq_exp_minus_1 push_bit_eq_mult)
  then have "x AND 0xc0 = 64 * (x div 64 mod 4)"
    using and_shifted_mask [of x 6 2] by (simp add: push_bit_eq_mult take_bit_eq_mod drop_bit_eq_div)
  moreover have "x div 64 mod 4 = x div 64" using assms by simp
  moreover have "64 * (x div 64) = 128 \<longleftrightarrow> x div 64 = 2" by auto
  ultimately show ?thesis by (auto simp: div_range)
qed

section \<open>Properties\<close>



text \<open>Connecting leaks no descriptor. Whatever the system calls return, a failed attempt has closed
  the descriptor it opened, once, and a successful one returns it open with the two I/O timeouts set,
  whose sum is the requested time in microseconds.\<close>

theorem connect_no_fd_leak:
  assumes "connect_with_timeout e t = (fd, closed, tv)" "t \<noteq> 0"
  shows "(fd < 0 \<longrightarrow> closed = (if ce_socket e < 0 then [] else [ce_socket e]) \<and> tv = None) \<and>
    (0 \<le> fd \<longrightarrow> fd = ce_socket e \<and> closed = [] \<and>
      (\<exists>s us. tv = Some (s, us) \<and> unat s * 1000000 + unat us = unat t * 1000 \<and> unat us < 1000000))"
proof -
  have us: "unat ((t mod 1000) * 1000) = (unat t mod 1000) * 1000"
    by (simp add: unat_word_ariths unat_mod)
  have "unat t div 1000 * 1000000 + (unat t mod 1000) * 1000 = unat t * 1000"
    using div_mult_mod_eq [of "unat t" 1000] by linarith
  then show ?thesis using assms us
    by (auto simp: connect_with_timeout_def set_io_timeouts_def Let_def unat_div split: if_splits)
qed

theorem connect_no_fd_leak_witness:
  "connect_with_timeout \<lparr>ce_socket = 7, ce_nonblock_ok = True, ce_connect_ret = -1, ce_in_progress = True,
     ce_poll_ret = 0, ce_so_error_ok = True\<rparr> 2500 = (-1, [7], None)"
  using connect_no_fd_leak [of "\<lparr>ce_socket = 7, ce_nonblock_ok = True, ce_connect_ret = -1,
     ce_in_progress = True, ce_poll_ret = 0, ce_so_error_ok = True\<rparr>" 2500 "-1" "[7]" None]
  by (simp add: connect_with_timeout_def)

end
