(* ===== verification/Http_State.thy ===== *)
theory Http_State
  imports Http_Addr
begin

text \<open>
  The state of the shared HTTP pool: the structures of \<^verbatim>\<open>src/http_pool.h\<close>, and the creation,
  destruction and statistics of \<^verbatim>\<open>src/http_pool.c\<close>. The four tables of the pool have a theory each
  (\<open>Circuit_Breaker\<close>, \<open>Http_Cache\<close> for the DNS and response caches, \<open>Http_Conns\<close>). Times are seconds
  (\<open>time_t\<close>), statistics are 64-bit counters, and a descriptor is an integer with -1 for none.
\<close>

definition VWASM_HTTP_POOL_DEFAULT_SIZE :: nat where "VWASM_HTTP_POOL_DEFAULT_SIZE = 16"
definition VWASM_HTTP_POOL_MAX_SIZE :: nat where "VWASM_HTTP_POOL_MAX_SIZE = 256"
definition VWASM_HTTP_DNS_TTL_DEFAULT_S :: u32 where "VWASM_HTTP_DNS_TTL_DEFAULT_S = 60"
definition VWASM_HTTP_CB_THRESHOLD_DEFAULT :: u32 where "VWASM_HTTP_CB_THRESHOLD_DEFAULT = 5"
definition VWASM_HTTP_CB_HALFOPEN_TIMEOUT_S :: u32 where "VWASM_HTTP_CB_HALFOPEN_TIMEOUT_S = 10"
definition VWASM_HTTP_MAX_RESPONSE_SIZE :: nat where "VWASM_HTTP_MAX_RESPONSE_SIZE = 1024 * 1024"
definition VWASM_HTTP_CACHE_DEFAULT_TTL_MS :: u32 where "VWASM_HTTP_CACHE_DEFAULT_TTL_MS = 1000"
definition VWASM_HTTP_CACHE_BUCKETS :: nat where "VWASM_HTTP_CACHE_BUCKETS = 64"

lemmas http_limits =
  VWASM_HTTP_POOL_DEFAULT_SIZE_def VWASM_HTTP_POOL_MAX_SIZE_def VWASM_HTTP_DNS_TTL_DEFAULT_S_def
  VWASM_HTTP_CB_THRESHOLD_DEFAULT_def VWASM_HTTP_CB_HALFOPEN_TIMEOUT_S_def
  VWASM_HTTP_MAX_RESPONSE_SIZE_def VWASM_HTTP_CACHE_DEFAULT_TTL_MS_def VWASM_HTTP_CACHE_BUCKETS_def

datatype cb_state = VWASM_CB_CLOSED | VWASM_CB_OPEN | VWASM_CB_HALF_OPEN

record http_conn =
  hc_fd :: int
  hc_host :: bytes
  hc_port :: u16
  hc_last_used :: int
  hc_created_at :: int
  hc_in_use :: bool
  hc_keep_alive :: bool
  hc_requests_served :: int

record http_dns_entry =
  de_host :: bytes
  de_addr :: sockaddr
  de_resolved_at :: int
  de_valid :: bool

record http_circuit_breaker =
  cb_upstream :: bytes
  cb_st :: cb_state
  cb_consecutive_failures :: u32
  cb_consecutive_successes :: u32
  cb_last_failure_time :: int
  cb_last_success_time :: int
  cb_threshold :: u32
  cb_half_open_timeout_s :: u32
  cb_total_requests :: u64
  cb_total_failures :: u64
  cb_total_rejections :: u64

record http_cache_entry =
  hce_key :: bytes
  hce_data :: bytes
  hce_status :: int
  hce_cached_at :: int
  hce_ttl_ms :: u32

record http_stats =
  stat_acquires :: u64
  stat_releases :: u64
  stat_creates :: u64
  stat_reuses :: u64
  stat_evictions :: u64
  stat_dns_hits :: u64
  stat_dns_misses :: u64
  stat_cache_hits :: u64
  stat_cache_misses :: u64
  stat_cb_rejections :: u64

text \<open>\<open>hp_conns\<close> has \<open>max_conns\<close> slots; the lists of DNS entries and breakers are the entries in use
  of their arrays.\<close>

record http_pool =
  hp_conns :: "http_conn list"
  hp_num_active :: nat
  hp_dns_cache :: "http_dns_entry list"
  hp_dns_cache_capacity :: nat
  hp_dns_ttl_s :: u32
  hp_breakers :: "http_circuit_breaker list"
  hp_max_breakers :: nat
  hp_cache_buckets :: "http_cache_entry list list"
  hp_cache_ttl_ms :: u32
  hp_default_timeout_ms :: u32
  hp_max_requests_per_conn :: u32
  hp_max_conn_age_s :: u32
  hp_stats :: http_stats

section \<open>Creation and destruction\<close>

definition http_conn_zero :: http_conn where
  "http_conn_zero = \<lparr>hc_fd = 0, hc_host = [], hc_port = 0, hc_last_used = 0, hc_created_at = 0,
     hc_in_use = False, hc_keep_alive = False, hc_requests_served = 0\<rparr>"

definition http_stats_zero :: http_stats where
  "http_stats_zero = \<lparr>stat_acquires = 0, stat_releases = 0, stat_creates = 0, stat_reuses = 0,
     stat_evictions = 0, stat_dns_hits = 0, stat_dns_misses = 0, stat_cache_hits = 0,
     stat_cache_misses = 0, stat_cb_rejections = 0\<rparr>"

text \<open>The caller's pointer, the descriptors closed in order, and the cache entries freed.\<close>

definition vwasm_http_pool_destroy ::
  "http_pool option \<Rightarrow> http_pool option \<times> int list \<times> http_cache_entry list" where
  "vwasm_http_pool_destroy poolp =
     (case poolp of
        None \<Rightarrow> (None, [], [])
      | Some pool \<Rightarrow> (None, filter (\<lambda>fd. fd \<ge> 0) (map hc_fd (hp_conns pool)),
                      concat (hp_cache_buckets pool)))"

text \<open>Allocations: the pool, the connection slots, the DNS cache, the breakers.\<close>

definition vwasm_http_pool_new :: "malloc \<Rightarrow> nat \<Rightarrow> u32 \<Rightarrow> http_pool option" where
  "vwasm_http_pool_new al max_conns timeout_ms =
     (let max_conns = (if max_conns = 0 then VWASM_HTTP_POOL_DEFAULT_SIZE else max_conns);
          max_conns = (if max_conns > VWASM_HTTP_POOL_MAX_SIZE then VWASM_HTTP_POOL_MAX_SIZE
                       else max_conns);
          timeout_ms = (if timeout_ms = 0 then VWASM_HTTP_DEFAULT_TIMEOUT_MS else timeout_ms)
      in if \<not> al 0 then None
         else if \<not> al 1 then None
         else
           (let pool = \<lparr>hp_conns = replicate max_conns (http_conn_zero\<lparr>hc_fd := -1, hc_in_use := False\<rparr>),
                        hp_num_active = 0, hp_dns_cache = [], hp_dns_cache_capacity = 64,
                        hp_dns_ttl_s = VWASM_HTTP_DNS_TTL_DEFAULT_S, hp_breakers = [],
                        hp_max_breakers = 32,
                        hp_cache_buckets = replicate VWASM_HTTP_CACHE_BUCKETS [],
                        hp_cache_ttl_ms = VWASM_HTTP_CACHE_DEFAULT_TTL_MS,
                        hp_default_timeout_ms = timeout_ms, hp_max_requests_per_conn = 100,
                        hp_max_conn_age_s = 300, hp_stats = http_stats_zero\<rparr>
            in if \<not> al 2 \<or> \<not> al 3 then fst (vwasm_http_pool_destroy (Some pool))
               else Some pool))"

section \<open>Statistics\<close>

definition http_stats_json :: "nat \<Rightarrow> http_stats \<Rightarrow> bytes" where
  "http_stats_json max_conns s =
     ''{\"max_conns\":'' @ dec max_conns @ '',\"acquires\":'' @ dec (unat (stat_acquires s)) @
     '',\"releases\":'' @ dec (unat (stat_releases s)) @ '',\"creates\":'' @ dec (unat (stat_creates s)) @
     '',\"reuses\":'' @ dec (unat (stat_reuses s)) @ '',\"evictions\":'' @ dec (unat (stat_evictions s)) @
     '',\"dns_hits\":'' @ dec (unat (stat_dns_hits s)) @
     '',\"dns_misses\":'' @ dec (unat (stat_dns_misses s)) @
     '',\"cache_hits\":'' @ dec (unat (stat_cache_hits s)) @
     '',\"cache_misses\":'' @ dec (unat (stat_cache_misses s)) @
     '',\"cb_rejections\":'' @ dec (unat (stat_cb_rejections s)) @ ''}''"

definition vwasm_http_pool_stats_json :: "malloc \<Rightarrow> http_pool option \<Rightarrow> bytes option" where
  "vwasm_http_pool_stats_json al poolp =
     (case poolp of
        None \<Rightarrow> None
      | Some pool \<Rightarrow>
          if \<not> al 0 then None
          else
            (let s = http_stats_json (length (hp_conns pool)) (hp_stats pool)
             in if length s \<ge> 1024 then None else Some s))"

end
