(* ===== verification/Http_Cache.thy ===== *)
theory Http_Cache
  imports Http_State
begin

text \<open>
  The DNS cache and the response cache of \<^verbatim>\<open>src/http_pool.c\<close>. \<open>now\<close> is what \<open>time(NULL)\<close> returns;
  the resolver \<open>gai\<close> stands for \<open>getaddrinfo\<close>: from the host and the port text to the first address,
  or \<open>None\<close> when it fails. Strings are C strings without their terminating NUL.
\<close>

section \<open>The DNS cache\<close>

type_synonym resolver = "bytes \<Rightarrow> bytes \<Rightarrow> sockaddr option"

definition set_port :: "u16 \<Rightarrow> sockaddr \<Rightarrow> sockaddr" where
  "set_port port sa = (case sa of SA_INET a _ \<Rightarrow> SA_INET a port | SA_INET6 a _ \<Rightarrow> SA_INET6 a port
     | SA_OTHER \<Rightarrow> SA_OTHER)"

definition dns_store :: "int \<Rightarrow> bytes \<Rightarrow> sockaddr \<Rightarrow> http_pool \<Rightarrow> http_pool" where
  "dns_store now host sa pool =
     (let sz = length (hp_dns_cache pool);
          slot = (case find_index (\<lambda>e. de_host e = host) (hp_dns_cache pool) of Some i \<Rightarrow> i | None \<Rightarrow> sz);
          slot = (if slot \<ge> hp_dns_cache_capacity pool then 0 else slot);
          e = \<lparr>de_host = strlcpy_to host 256, de_addr = sa, de_resolved_at = now, de_valid = True\<rparr>
      in if slot = sz \<and> slot < hp_dns_cache_capacity pool
         then pool\<lparr>hp_dns_cache := hp_dns_cache pool @ [e]\<rparr>
         else pool\<lparr>hp_dns_cache := (hp_dns_cache pool)[slot := e]\<rparr>)"

definition vwasm_http_pool_resolve ::
  "int \<Rightarrow> resolver \<Rightarrow> http_pool option \<Rightarrow> bytes option \<Rightarrow> u16 \<Rightarrow> http_pool option \<times> sockaddr option" where
  "vwasm_http_pool_resolve now gai poolp hostp port =
     (case (poolp, hostp) of
        (Some pool, Some host) \<Rightarrow>
          (case find (\<lambda>e. de_valid e \<and> de_host e = host \<and>
                     now - de_resolved_at e < int (unat (hp_dns_ttl_s pool))) (hp_dns_cache pool) of
             Some e \<Rightarrow>
               (let s = hp_stats pool
                in (Some (pool\<lparr>hp_stats := s\<lparr>stat_dns_hits := stat_dns_hits s + 1\<rparr>\<rparr>),
                    Some (set_port port (de_addr e))))
           | None \<Rightarrow>
               (let s = hp_stats pool;
                    pool = pool\<lparr>hp_stats := s\<lparr>stat_dns_misses := stat_dns_misses s + 1\<rparr>\<rparr>
                in case gai host (dec (unat port)) of
                     None \<Rightarrow> (Some pool, None)
                   | Some sa \<Rightarrow> (Some (dns_store now host sa pool), Some sa)))
      | _ \<Rightarrow> (poolp, None))"

section \<open>The response cache\<close>

definition cache_hash :: "bytes \<Rightarrow> nat" where
  "cache_hash key =
     unat (foldl (\<lambda>hash c. (push_bit 5 hash + hash) + of_char c) (5381 :: u32) (cstr key)
           mod of_nat VWASM_HTTP_CACHE_BUCKETS)"

definition make_cache_key :: "malloc \<Rightarrow> bytes \<Rightarrow> bytes \<Rightarrow> u16 \<Rightarrow> bytes \<Rightarrow> bytes option" where
  "make_cache_key al meth host port path =
     (if \<not> al 0 then None
      else Some (meth @ '':'' @ host @ '':'' @ dec (unat port) @ '':'' @ path))"

text \<open>On a hit the copy of the data and the status; allocations are the key and the copy. A hit whose
  copy cannot be allocated still counts as a hit.\<close>

definition vwasm_http_pool_cache_get ::
  "malloc \<Rightarrow> int \<Rightarrow> http_pool option \<Rightarrow> bytes \<Rightarrow> bytes \<Rightarrow> u16 \<Rightarrow> bytes
   \<Rightarrow> http_pool option \<times> (bytes \<times> int) option" where
  "vwasm_http_pool_cache_get al now poolp meth host port path =
     (case poolp of
        None \<Rightarrow> (poolp, None)
      | Some pool \<Rightarrow>
          (case make_cache_key al meth host port path of
             None \<Rightarrow> (poolp, None)
           | Some key \<Rightarrow>
               (let s = hp_stats pool;
                    hit = pool\<lparr>hp_stats := s\<lparr>stat_cache_hits := stat_cache_hits s + 1\<rparr>\<rparr>;
                    miss = pool\<lparr>hp_stats := s\<lparr>stat_cache_misses := stat_cache_misses s + 1\<rparr>\<rparr>
                in case find (\<lambda>e. hce_key e = key) (hp_cache_buckets pool ! cache_hash key) of
                     Some e \<Rightarrow>
                       if (now - hce_cached_at e) * 1000 < int (unat (hce_ttl_ms e))
                       then (Some hit, if al 1 then Some (hce_data e, hce_status e) else None)
                       else (Some miss, None)
                   | None \<Rightarrow> (Some miss, None))))"

definition vwasm_http_pool_cache_put ::
  "malloc \<Rightarrow> int \<Rightarrow> http_pool option \<Rightarrow> bytes \<Rightarrow> bytes \<Rightarrow> u16 \<Rightarrow> bytes \<Rightarrow> bytes option \<Rightarrow> int
   \<Rightarrow> http_pool option" where
  "vwasm_http_pool_cache_put al now poolp meth host port path data status =
     (case (poolp, data) of
        (Some pool, Some d) \<Rightarrow>
          if d = [] \<or> length d > VWASM_HTTP_MAX_RESPONSE_SIZE then poolp
          else
            (case make_cache_key al meth host port path of
               None \<Rightarrow> poolp
             | Some key \<Rightarrow>
                 (let b = cache_hash key;
                      chain = hp_cache_buckets pool ! b;
                      e = \<lparr>hce_key = key, hce_data = d, hce_status = status, hce_cached_at = now,
                           hce_ttl_ms = hp_cache_ttl_ms pool\<rparr>
                  in case find_index (\<lambda>e. hce_key e = key) chain of
                       Some i \<Rightarrow>
                         if \<not> al 1 then poolp
                         else Some (pool\<lparr>hp_cache_buckets := (hp_cache_buckets pool)[b := chain[i := e]]\<rparr>)
                     | None \<Rightarrow>
                         if \<not> al 1 then poolp
                         else if \<not> al 2 then poolp
                         else Some (pool\<lparr>hp_cache_buckets := (hp_cache_buckets pool)[b := e # chain]\<rparr>)))
      | _ \<Rightarrow> poolp)"

section \<open>Lemmas\<close>

lemma cache_hash_lt [simp]: "cache_hash key < VWASM_HTTP_CACHE_BUCKETS"
proof -
  have "(x :: u32) mod 64 < 64" for x by (rule word_mod_less_divisor) simp
  then show ?thesis by (simp add: cache_hash_def http_limits word_less_nat_alt)
qed

definition dns_inv :: "http_pool \<Rightarrow> bool" where
  "dns_inv pool \<longleftrightarrow> length (hp_dns_cache pool) \<le> hp_dns_cache_capacity pool \<and>
     0 < hp_dns_cache_capacity pool"

definition colon_free :: "bytes \<Rightarrow> bool" where
  "colon_free s \<longleftrightarrow> CHR '':'' \<notin> set s"

lemma append_sep_inj:
  "(c :: byte) \<notin> set a \<Longrightarrow> c \<notin> set a' \<Longrightarrow> a @ c # b = a' @ c # b' \<longleftrightarrow> a = a' \<and> b = b'"
proof
  assume c: "c \<notin> set a" "c \<notin> set a'" and eq: "a @ c # b = a' @ c # b'"
  have "length a = length a'"
    using memchr_append [OF c(1), of b] memchr_append [OF c(2), of b'] eq by simp
  then show "a = a' \<and> b = b'" using eq by simp
qed simp

lemma cache_key_inj:
  assumes "colon_free m" "colon_free m'" "colon_free h" "colon_free h'"
  shows "m @ '':'' @ h @ '':'' @ dec (unat (p :: u16)) @ '':'' @ q =
         m' @ '':'' @ h' @ '':'' @ dec (unat (p' :: u16)) @ '':'' @ q'
     \<longleftrightarrow> (m, h, p, q) = (m', h', p', q')"
proof -
  have d: "CHR '':'' \<notin> set (dec n)" for n
    using dec_no_char [of "CHR '':''" n] by (simp add: is_digit_def)
  show ?thesis
    using assms d by (simp add: colon_free_def append_sep_inj word_unat_eq_iff)
qed

lemma find_only:
  assumes "\<forall>x \<in> set xs. \<not> P x" "P y" "i < length xs"
  shows "find P (xs[i := y]) = Some y"
  using assms
proof (induction xs arbitrary: i)
  case (Cons x xs)
  then show ?case by (cases i) auto
qed simp

lemma find_append_only: "\<forall>x \<in> set xs. \<not> P x \<Longrightarrow> P y \<Longrightarrow> find P (xs @ [y]) = Some y"
  by (induction xs) auto

definition dns_fresh :: "int \<Rightarrow> u32 \<Rightarrow> bytes \<Rightarrow> http_dns_entry \<Rightarrow> bool" where
  "dns_fresh now ttl host e \<longleftrightarrow> de_valid e \<and> de_host e = host \<and> now - de_resolved_at e < int (unat ttl)"

lemma resolve_eq:
  "vwasm_http_pool_resolve now gai (Some pool) (Some host) port =
     (case find (dns_fresh now (hp_dns_ttl_s pool) host) (hp_dns_cache pool) of
        Some e \<Rightarrow> (Some (pool\<lparr>hp_stats := (hp_stats pool)\<lparr>stat_dns_hits := stat_dns_hits (hp_stats pool) + 1\<rparr>\<rparr>),
                   Some (set_port port (de_addr e)))
      | None \<Rightarrow>
          (let pool = pool\<lparr>hp_stats := (hp_stats pool)\<lparr>stat_dns_misses := stat_dns_misses (hp_stats pool) + 1\<rparr>\<rparr>
           in case gai host (dec (unat port)) of None \<Rightarrow> (Some pool, None)
              | Some sa \<Rightarrow> (Some (dns_store now host sa pool), Some sa)))"
  by (simp add: vwasm_http_pool_resolve_def dns_fresh_def [abs_def] Let_def split: option.split)

lemma dns_store_find:
  assumes "dns_inv pool" "nul_free host" "length host \<le> 255"
    and "\<forall>x \<in> set (hp_dns_cache pool). \<not> P x"
    and "P \<lparr>de_host = host, de_addr = sa, de_resolved_at = now, de_valid = True\<rparr>" (is "P ?e")
  shows "find P (hp_dns_cache (dns_store now host sa pool)) = Some ?e"
proof -
  have host: "strlcpy_to host 256 = host" using assms(2,3) by (simp add: strlcpy_to_id)
  show ?thesis
  proof (cases "find_index (\<lambda>e. de_host e = host) (hp_dns_cache pool)")
    case None
    then show ?thesis using assms host
      by (cases "length (hp_dns_cache pool) < hp_dns_cache_capacity pool")
         (auto simp: dns_store_def dns_inv_def find_append_only find_only Let_def)
  next
    case (Some i)
    then have "i < length (hp_dns_cache pool)" by (rule find_index_lt)
    then show ?thesis using assms Some host
      by (auto simp: dns_store_def dns_inv_def find_only Let_def)
  qed
qed

lemma dns_store_inv: "dns_inv pool \<Longrightarrow> dns_inv (dns_store now host sa pool)"
  by (auto simp: dns_store_def dns_inv_def Let_def split: option.splits)

lemma dns_store_keeps [simp]:
  "hp_dns_ttl_s (dns_store now host sa pool) = hp_dns_ttl_s pool"
  by (simp add: dns_store_def Let_def)

section \<open>Properties\<close>

text \<open>A resolved name is answered from the cache until it is sixty seconds old. After a lookup
  that had to ask the resolver, every later lookup of the host within the time to live returns the
  same address, with the port of the new request, whatever the resolver would now say; and the
  table never exceeds its capacity of 64.\<close>

theorem dns_cache_answers:
  assumes "dns_inv pool" "nul_free host" "length host \<le> 255"
    and "find (dns_fresh now (hp_dns_ttl_s pool) host) (hp_dns_cache pool) = None"
    and "gai host (dec (unat port)) = Some sa"
    and "now \<le> now'" "now' - now < int (unat (hp_dns_ttl_s pool))"
  shows "\<exists>pool1 pool2. vwasm_http_pool_resolve now gai (Some pool) (Some host) port = (Some pool1, Some sa) \<and>
    dns_inv pool1 \<and>
    vwasm_http_pool_resolve now' gai' (Some pool1) (Some host) port' = (Some pool2, Some (set_port port' sa))"
proof -
  let ?p = "pool\<lparr>hp_stats := (hp_stats pool)\<lparr>stat_dns_misses := stat_dns_misses (hp_stats pool) + 1\<rparr>\<rparr>"
  have inv: "dns_inv ?p" using assms(1) by (simp add: dns_inv_def)
  have stale: "\<forall>x \<in> set (hp_dns_cache ?p). \<not> dns_fresh now' (hp_dns_ttl_s pool) host x"
    using assms(4,6) by (auto simp: find_None_iff dns_fresh_def)
  have fresh: "dns_fresh now' (hp_dns_ttl_s pool) host
      \<lparr>de_host = host, de_addr = sa, de_resolved_at = now, de_valid = True\<rparr>"
    using assms(7) by (simp add: dns_fresh_def)
  show ?thesis using dns_store_find [OF inv assms(2,3) stale fresh] assms(4,5) dns_store_inv [OF inv, of now host sa] by (simp add: resolve_eq Let_def)
qed

theorem dns_cache_answers_witness:
  "\<exists>pool1 pool2. vwasm_http_pool_resolve 100 (\<lambda>_ _. Some (SA_INET (replicate 4 CR) 80))
        (vwasm_http_pool_new mem_ok 2 0) (Some ''api'') 80 = (Some pool1, Some (SA_INET (replicate 4 CR) 80)) \<and>
    dns_inv pool1 \<and>
    vwasm_http_pool_resolve 159 (\<lambda>_ _. None) (Some pool1) (Some ''api'') 443
      = (Some pool2, Some (SA_INET (replicate 4 CR) 443))"
  using dns_cache_answers [where pool = "the (vwasm_http_pool_new mem_ok 2 0)" and host = "''api''"
      and now = 100 and gai = "\<lambda>_ _. Some (SA_INET (replicate 4 CR) 80)" and port = 80
      and sa = "SA_INET (replicate 4 CR) 80" and now' = 159 and gai' = "\<lambda>_ _. None" and port' = 443]
  by (simp add: vwasm_http_pool_new_def http_limits dns_inv_def set_port_def Let_def)

text \<open>The response cache returns what was stored. Within the time to live a lookup returns the data
  and status of the last store for the same method, host, port and path, and a store changes no other
  lookup; methods and hosts are colon free, as the key text separates its parts by colons.\<close>

theorem cache_get_after_put:
  assumes "length (hp_cache_buckets pool) = VWASM_HTTP_CACHE_BUCKETS"
    and "d \<noteq> []" "length d \<le> VWASM_HTTP_MAX_RESPONSE_SIZE"
    and "colon_free m" "colon_free h" "colon_free m'" "colon_free h'"
    and "(now' - now) * 1000 < int (unat (hp_cache_ttl_ms pool))"
    and "vwasm_http_pool_cache_put mem_ok now (Some pool) m h p q (Some d) st = Some pool'"
  shows "snd (vwasm_http_pool_cache_get mem_ok now' (Some pool') m' h' p' q') =
    (if (m', h', p', q') = (m, h, p, q) then Some (d, st)
     else snd (vwasm_http_pool_cache_get mem_ok now' (Some pool) m' h' p' q'))"
proof -
  let ?k = "m @ '':'' @ h @ '':'' @ dec (unat p) @ '':'' @ q"
  let ?k' = "m' @ '':'' @ h' @ '':'' @ dec (unat p') @ '':'' @ q'"
  let ?e = "\<lparr>hce_key = ?k, hce_data = d, hce_status = st, hce_cached_at = now,
    hce_ttl_ms = hp_cache_ttl_ms pool\<rparr>"
  let ?chain = "hp_cache_buckets pool ! cache_hash ?k"
  have keys: "?k' = ?k \<longleftrightarrow> (m', h', p', q') = (m, h, p, q)"
    by (rule cache_key_inj [OF assms(6,4,7,5)])
  obtain chain' where pool': "pool' = pool\<lparr>hp_cache_buckets := (hp_cache_buckets pool)[cache_hash ?k := chain']\<rparr>"
    and same: "find (\<lambda>e. hce_key e = ?k) chain' = Some ?e"
    and other: "\<And>k. k \<noteq> ?k \<Longrightarrow> find (\<lambda>e. hce_key e = k) chain' = find (\<lambda>e. hce_key e = k) ?chain"
  proof (cases "find_index (\<lambda>e. hce_key e = ?k) ?chain")
    case None
    then show ?thesis using that [of "?e # ?chain"] assms(2,3,9)
      by (simp add: vwasm_http_pool_cache_put_def make_cache_key_def Let_def)
  next
    case (Some i)
    then have "hce_key (?chain ! i) = ?k" by (simp add: find_index_Some)
    then show ?thesis using that [of "?chain[i := ?e]"] assms(2,3,9) Some
      by (simp add: vwasm_http_pool_cache_put_def make_cache_key_def find_update_first find_update_other Let_def)
  qed
  have look: "snd (vwasm_http_pool_cache_get mem_ok now' (Some pl) m' h' p' q') =
      (case find (\<lambda>e. hce_key e = ?k') (hp_cache_buckets pl ! cache_hash ?k') of None \<Rightarrow> None
       | Some e \<Rightarrow> if (now' - hce_cached_at e) * 1000 < int (unat (hce_ttl_ms e))
                    then Some (hce_data e, hce_status e) else None)" for pl
    by (simp add: vwasm_http_pool_cache_get_def make_cache_key_def Let_def split: option.split)
  have b: "cache_hash ?k' < length (hp_cache_buckets pool)" using assms(1) by simp
  show ?thesis
  proof (cases "?k' = ?k")
    case True
    then show ?thesis unfolding look keys [symmetric] pool' using same b assms(8) by simp
  next
    case False
    then show ?thesis unfolding look keys [symmetric] pool' using other [OF False] b
      by (simp add: nth_list_update_if)
  qed
qed

theorem cache_get_after_put_witness:
  "snd (vwasm_http_pool_cache_get mem_ok 50 (vwasm_http_pool_cache_put mem_ok 50
       (vwasm_http_pool_new mem_ok 2 0) ''GET'' ''api'' 80 ''/'' (Some ''ok'') 200) ''GET'' ''api'' 80 ''/'')
     = Some (''ok'', 200)"
proof -
  obtain pool where p: "vwasm_http_pool_new mem_ok 2 0 = Some pool" "hp_cache_ttl_ms pool = 1000"
    "hp_cache_buckets pool = replicate VWASM_HTTP_CACHE_BUCKETS []"
    by (simp_all add: vwasm_http_pool_new_def VWASM_HTTP_POOL_MAX_SIZE_def
        VWASM_HTTP_CACHE_DEFAULT_TTL_MS_def Let_def)
  obtain p' where put: "vwasm_http_pool_cache_put mem_ok 50 (Some pool) ''GET'' ''api'' 80 ''/'' (Some ''ok'') 200 = Some p'"
    by (simp add: vwasm_http_pool_cache_put_def make_cache_key_def p VWASM_HTTP_MAX_RESPONSE_SIZE_def Let_def)
  show ?thesis
    using cache_get_after_put [OF _ _ _ _ _ _ _ _ put, of "''GET''" "''api''" 50 80 "''/''"] p put
    by (simp add: colon_free_def VWASM_HTTP_MAX_RESPONSE_SIZE_def)
qed

end
