(* ===== verification/Circuit_Breaker.thy ===== *)
theory Circuit_Breaker
  imports Http_State
begin

text \<open>
  The circuit breakers of \<^verbatim>\<open>src/http_pool.c\<close>: an array of per-upstream records, created on first use.
  Each call runs under \<open>cb_lock\<close>. \<open>now\<close> is what \<open>time(NULL)\<close> returns in the call.

  The abstract breaker of an upstream is a three-state machine; the locale \<open>breaker\<close> says that
  an implementation follows it for every upstream, and its lemmas are about runs of events.
\<close>

section \<open>Operations\<close>

text \<open>\<open>snprintf(key, sizeof(key), "%s:%u", host, port)\<close> with a 280-byte buffer.\<close>

definition upstream_key :: "bytes \<Rightarrow> u16 \<Rightarrow> bytes" where
  "upstream_key host port = take 279 (cstr host @ '':'' @ dec (unat port))"

text \<open>The pool and the index of the breaker; \<open>None\<close> when the table is full.\<close>

definition cb_find_or_create :: "http_pool \<Rightarrow> bytes \<Rightarrow> u16 \<Rightarrow> http_pool \<times> nat option" where
  "cb_find_or_create pool host port =
     (let key = upstream_key host port in
      case find_index (\<lambda>b. cb_upstream b = key) (hp_breakers pool) of
        Some i \<Rightarrow> (pool, Some i)
      | None \<Rightarrow>
          if length (hp_breakers pool) \<ge> hp_max_breakers pool then (pool, None)
          else
            (let cb = \<lparr>cb_upstream = strlcpy_to key 280, cb_st = VWASM_CB_CLOSED,
                       cb_consecutive_failures = 0, cb_consecutive_successes = 0,
                       cb_last_failure_time = 0, cb_last_success_time = 0,
                       cb_threshold = VWASM_HTTP_CB_THRESHOLD_DEFAULT,
                       cb_half_open_timeout_s = VWASM_HTTP_CB_HALFOPEN_TIMEOUT_S,
                       cb_total_requests = 0, cb_total_failures = 0, cb_total_rejections = 0\<rparr>
             in (pool\<lparr>hp_breakers := hp_breakers pool @ [cb]\<rparr>, Some (length (hp_breakers pool)))))"

definition cb_set :: "nat \<Rightarrow> http_circuit_breaker \<Rightarrow> http_pool \<Rightarrow> http_pool" where
  "cb_set i cb pool = pool\<lparr>hp_breakers := (hp_breakers pool)[i := cb]\<rparr>"

text \<open>The Boolean is whether the routine returned 0: the request may go ahead.\<close>

definition vwasm_http_pool_cb_allow ::
  "int \<Rightarrow> http_pool option \<Rightarrow> bytes \<Rightarrow> u16 \<Rightarrow> http_pool option \<times> bool" where
  "vwasm_http_pool_cb_allow now poolp host port =
     (case poolp of
        None \<Rightarrow> (None, True)
      | Some pool \<Rightarrow>
          (case cb_find_or_create pool host port of
             (pool, None) \<Rightarrow> (Some pool, True)
           | (pool, Some i) \<Rightarrow>
               (let cb = hp_breakers pool ! i;
                    cb = cb\<lparr>cb_total_requests := cb_total_requests cb + 1\<rparr>
                in case cb_st cb of
                     VWASM_CB_CLOSED \<Rightarrow> (Some (cb_set i cb pool), True)
                   | VWASM_CB_OPEN \<Rightarrow>
                       if now - cb_last_failure_time cb \<ge> int (unat (cb_half_open_timeout_s cb))
                       then (Some (cb_set i (cb\<lparr>cb_st := VWASM_CB_HALF_OPEN,
                                                 cb_consecutive_successes := 0\<rparr>) pool), True)
                       else
                         (let pool = cb_set i (cb\<lparr>cb_total_rejections := cb_total_rejections cb + 1\<rparr>) pool;
                              s = hp_stats pool
                          in (Some (pool\<lparr>hp_stats := s\<lparr>stat_cb_rejections := stat_cb_rejections s + 1\<rparr>\<rparr>),
                              False))
                   | VWASM_CB_HALF_OPEN \<Rightarrow> (Some (cb_set i cb pool), True))))"

definition vwasm_http_pool_cb_success ::
  "int \<Rightarrow> http_pool option \<Rightarrow> bytes \<Rightarrow> u16 \<Rightarrow> http_pool option" where
  "vwasm_http_pool_cb_success now poolp host port =
     (case poolp of
        None \<Rightarrow> None
      | Some pool \<Rightarrow>
          (case cb_find_or_create pool host port of
             (pool, None) \<Rightarrow> Some pool
           | (pool, Some i) \<Rightarrow>
               (let cb = hp_breakers pool ! i;
                    cb = cb\<lparr>cb_consecutive_failures := 0,
                            cb_consecutive_successes := cb_consecutive_successes cb + 1,
                            cb_last_success_time := now\<rparr>;
                    cb = (if cb_st cb = VWASM_CB_HALF_OPEN then cb\<lparr>cb_st := VWASM_CB_CLOSED\<rparr> else cb)
                in Some (cb_set i cb pool))))"

definition vwasm_http_pool_cb_failure ::
  "int \<Rightarrow> http_pool option \<Rightarrow> bytes \<Rightarrow> u16 \<Rightarrow> http_pool option" where
  "vwasm_http_pool_cb_failure now poolp host port =
     (case poolp of
        None \<Rightarrow> None
      | Some pool \<Rightarrow>
          (case cb_find_or_create pool host port of
             (pool, None) \<Rightarrow> Some pool
           | (pool, Some i) \<Rightarrow>
               (let cb = hp_breakers pool ! i;
                    cb = cb\<lparr>cb_consecutive_failures := cb_consecutive_failures cb + 1,
                            cb_consecutive_successes := 0,
                            cb_last_failure_time := now,
                            cb_total_failures := cb_total_failures cb + 1\<rparr>;
                    cb = (if cb_st cb = VWASM_CB_HALF_OPEN then cb\<lparr>cb_st := VWASM_CB_OPEN\<rparr>
                          else if cb_st cb = VWASM_CB_CLOSED \<and> cb_consecutive_failures cb \<ge> cb_threshold cb
                          then cb\<lparr>cb_st := VWASM_CB_OPEN\<rparr> else cb)
                in Some (cb_set i cb pool))))"

section \<open>The abstract breaker\<close>

datatype breaker = Closed nat | Open int | HalfOpen

datatype breaker_event = Allow int | Success int | Failure int

text \<open>The new state, and whether the event was let through (true of reports).\<close>

fun breaker_step :: "nat \<Rightarrow> int \<Rightarrow> breaker \<Rightarrow> breaker_event \<Rightarrow> breaker \<times> bool" where
  "breaker_step thr tmo (Closed n) (Allow t) = (Closed n, True)"
| "breaker_step thr tmo (Closed n) (Success t) = (Closed 0, True)"
| "breaker_step thr tmo (Closed n) (Failure t) = (if n + 1 \<ge> thr then Open t else Closed (n + 1), True)"
| "breaker_step thr tmo (Open f) (Allow t) = (if t - f \<ge> tmo then (HalfOpen, True) else (Open f, False))"
| "breaker_step thr tmo (Open f) (Success t) = (Open f, True)"
| "breaker_step thr tmo (Open f) (Failure t) = (Open t, True)"
| "breaker_step thr tmo HalfOpen (Allow t) = (HalfOpen, True)"
| "breaker_step thr tmo HalfOpen (Success t) = (Closed 0, True)"
| "breaker_step thr tmo HalfOpen (Failure t) = (Open t, True)"

definition cb_abs :: "http_circuit_breaker \<Rightarrow> breaker" where
  "cb_abs cb = (case cb_st cb of VWASM_CB_CLOSED \<Rightarrow> Closed (unat (cb_consecutive_failures cb))
     | VWASM_CB_OPEN \<Rightarrow> Open (cb_last_failure_time cb) | VWASM_CB_HALF_OPEN \<Rightarrow> HalfOpen)"

text \<open>The breaker of an upstream; one that is not in the table is closed.\<close>

definition breaker_of :: "http_pool \<Rightarrow> bytes \<times> u16 \<Rightarrow> breaker" where
  "breaker_of pool u = (case find (\<lambda>b. cb_upstream b = upstream_key (fst u) (snd u)) (hp_breakers pool) of
     None \<Rightarrow> Closed 0 | Some b \<Rightarrow> cb_abs b)"

definition cb_step :: "http_pool \<Rightarrow> bytes \<times> u16 \<Rightarrow> breaker_event \<Rightarrow> http_pool \<times> bool" where
  "cb_step pool u ev = (case ev of
     Allow t \<Rightarrow> (case vwasm_http_pool_cb_allow t (Some pool) (fst u) (snd u) of (p, r) \<Rightarrow> (the p, r))
   | Success t \<Rightarrow> (the (vwasm_http_pool_cb_success t (Some pool) (fst u) (snd u)), True)
   | Failure t \<Rightarrow> (the (vwasm_http_pool_cb_failure t (Some pool) (fst u) (snd u)), True))"

section \<open>Invariant\<close>

text \<open>Breakers carry the default limits, distinct keys that fit their buffer, and a closed one has
  seen fewer consecutive failures than the threshold.\<close>

definition cb_ok :: "http_circuit_breaker \<Rightarrow> bool" where
  "cb_ok cb \<longleftrightarrow> cb_threshold cb = VWASM_HTTP_CB_THRESHOLD_DEFAULT \<and>
     cb_half_open_timeout_s cb = VWASM_HTTP_CB_HALFOPEN_TIMEOUT_S \<and>
     (cb_st cb = VWASM_CB_CLOSED \<longrightarrow> cb_consecutive_failures cb < VWASM_HTTP_CB_THRESHOLD_DEFAULT)"

definition breakers_inv :: "http_pool \<Rightarrow> bool" where
  "breakers_inv pool \<longleftrightarrow> length (hp_breakers pool) \<le> hp_max_breakers pool \<and>
     distinct (map cb_upstream (hp_breakers pool)) \<and> list_all cb_ok (hp_breakers pool)"

text \<open>An upstream whose breaker is, or can be, in the table.\<close>

definition tracked :: "http_pool \<Rightarrow> bytes \<times> u16 \<Rightarrow> bool" where
  "tracked pool u \<longleftrightarrow> upstream_key (fst u) (snd u) \<in> set (map cb_upstream (hp_breakers pool)) \<or>
     length (hp_breakers pool) < hp_max_breakers pool"

section \<open>Lemmas\<close>

lemma upstream_key_short [simp]: "length (upstream_key host port) < 280"
  by (simp add: upstream_key_def)

lemma upstream_key_nul_free [simp]: "nul_free (upstream_key host port)"
  unfolding upstream_key_def by (rule nul_free_take) simp

lemma strlcpy_upstream_key [simp]: "strlcpy_to (upstream_key host port) 280 = upstream_key host port"
  by (simp add: strlcpy_to_id)

text \<open>Keys identify upstreams: the port is the digits after the last colon.\<close>

lemma upstream_key_inj:
  assumes "nul_free h" "nul_free h'" "length h \<le> 255" "length h' \<le> 255"
  shows "upstream_key h p = upstream_key h' p' \<longleftrightarrow> h = h' \<and> p = p'"
proof -
  have len: "length (dec (unat q)) \<le> 5" for q :: u16
    using unsigned_less [of q, where 'a = nat] by (intro dec_length) simp_all
  have key: "upstream_key g q = g @ '':'' @ dec (unat q)" if "nul_free g" "length g \<le> 255" for g q
    using that len [of q] by (simp add: upstream_key_def cstr_id)
  have col: "CHR '':'' \<notin> set (rev (dec n))" for n
    using dec_no_char [of "CHR '':''" n] by (simp add: is_digit_def)
  have "h = h' \<and> p = p'" if "h @ '':'' @ dec (unat p) = h' @ '':'' @ dec (unat p')"
  proof -
    have r: "rev (dec (unat p)) @ '':'' @ rev h = rev (dec (unat p')) @ '':'' @ rev h'"
      using arg_cong [OF that, of rev] by simp
    have "length (dec (unat p)) = length (dec (unat p'))"
      using memchr_append [OF col, of "unat p" "rev h"] memchr_append [OF col, of "unat p'" "rev h'"] r
      by simp
    then have "rev (dec (unat p)) = rev (dec (unat p'))" "rev h = rev h'" using r by simp_all
    then show ?thesis by (simp add: word_unat_eq_iff)
  qed
  then show ?thesis using assms by (auto simp: key)
qed

lemma find_or_create_tracked:
  assumes "breakers_inv pool" "tracked pool (host, port)"
  obtains pool' i where "cb_find_or_create pool host port = (pool', Some i)" "breakers_inv pool'"
    "i < length (hp_breakers pool')" "cb_upstream (hp_breakers pool' ! i) = upstream_key host port"
    "cb_abs (hp_breakers pool' ! i) = breaker_of pool (host, port)"
    "breaker_of pool' = breaker_of pool"
    "set (map cb_upstream (hp_breakers pool)) \<subseteq> set (map cb_upstream (hp_breakers pool'))"
proof (cases "find_index (\<lambda>b. cb_upstream b = upstream_key host port) (hp_breakers pool)")
  case (Some i)
  then have "i < length (hp_breakers pool)" "cb_upstream (hp_breakers pool ! i) = upstream_key host port"
    by (auto simp: find_index_Some)
  then show ?thesis using that [of pool i] assms(1) Some
    by (simp add: cb_find_or_create_def breaker_of_def find_conv_index)
next
  case None
  then have new: "upstream_key host port \<notin> set (map cb_upstream (hp_breakers pool))"
    by (auto simp: find_index_None)
  then have room: "length (hp_breakers pool) < hp_max_breakers pool"
    using assms(2) by (auto simp: tracked_def)
  define cb where "cb = \<lparr>cb_upstream = upstream_key host port, cb_st = VWASM_CB_CLOSED,
    cb_consecutive_failures = 0, cb_consecutive_successes = 0, cb_last_failure_time = 0,
    cb_last_success_time = 0, cb_threshold = VWASM_HTTP_CB_THRESHOLD_DEFAULT,
    cb_half_open_timeout_s = VWASM_HTTP_CB_HALFOPEN_TIMEOUT_S, cb_total_requests = 0,
    cb_total_failures = 0, cb_total_rejections = 0\<rparr>"
  define pool' where "pool' = pool\<lparr>hp_breakers := hp_breakers pool @ [cb]\<rparr>"
  have fc: "cb_find_or_create pool host port = (pool', Some (length (hp_breakers pool)))"
    using None room by (simp add: cb_find_or_create_def pool'_def cb_def Let_def)
  have ok: "cb_ok cb" "cb_abs cb = Closed 0"
    by (simp_all add: cb_def cb_ok_def cb_abs_def http_limits)
  have find_app: "find P (xs @ [x]) = (case find P xs of Some y \<Rightarrow> Some y
      | None \<Rightarrow> if P x then Some x else None)" for P :: "http_circuit_breaker \<Rightarrow> bool" and xs x
    by (induction xs) auto
  have bo: "breaker_of pool' = breaker_of pool"
    by (auto simp: fun_eq_iff breaker_of_def pool'_def find_app ok split: option.splits)
  have "breakers_inv pool'" using assms(1) room new ok by (auto simp: breakers_inv_def pool'_def cb_def)
  moreover have "breaker_of pool (host, port) = Closed 0"
    using None by (simp add: breaker_of_def find_conv_index)
  ultimately show ?thesis using that [OF fc] bo ok by (auto simp: pool'_def cb_def)
qed

lemma cb_set_breakers:
  assumes "breakers_inv pool" "i < length (hp_breakers pool)"
    and "cb_upstream cb = cb_upstream (hp_breakers pool ! i)" "cb_ok cb"
  shows "breakers_inv (cb_set i cb pool)"
    and "breaker_of (cb_set i cb pool) u =
      (if upstream_key (fst u) (snd u) = cb_upstream cb then cb_abs cb else breaker_of pool u)"
    and "map cb_upstream (hp_breakers (cb_set i cb pool)) = map cb_upstream (hp_breakers pool)"
proof -
  show names: "map cb_upstream (hp_breakers (cb_set i cb pool)) = map cb_upstream (hp_breakers pool)"
    using assms(2,3) by (simp add: cb_set_def map_update list_update_same_conv)
  show "breakers_inv (cb_set i cb pool)"
    using assms names unfolding breakers_inv_def
    by (auto simp: cb_set_def list_all_length nth_list_update_if)
  have "find_index (\<lambda>b. cb_upstream b = cb_upstream cb) (hp_breakers pool) = Some i"
    using assms(1-3) by (auto simp: find_index_Some breakers_inv_def distinct_conv_nth)
  then show "breaker_of (cb_set i cb pool) u =
      (if upstream_key (fst u) (snd u) = cb_upstream cb then cb_abs cb else breaker_of pool u)"
    using assms(3) by (auto simp: breaker_of_def cb_set_def find_update_first find_update_other)
qed

section \<open>The interface: one abstract breaker per upstream\<close>

fun breaker_run :: "nat \<Rightarrow> int \<Rightarrow> breaker \<Rightarrow> breaker_event list \<Rightarrow> breaker \<times> bool list" where
  "breaker_run thr tmo b [] = (b, [])"
| "breaker_run thr tmo b (ev # evs) =
     (let (b1, r) = breaker_step thr tmo b ev; (b2, rs) = breaker_run thr tmo b1 evs in (b2, r # rs))"

text \<open>A run of events on any upstreams, with the results of those on upstream \<open>u\<close>.\<close>

fun run_on :: "('s \<Rightarrow> 'u \<Rightarrow> breaker_event \<Rightarrow> 's \<times> bool) \<Rightarrow> ('u \<Rightarrow> bool) \<Rightarrow> 's \<Rightarrow> ('u \<times> breaker_event) list
  \<Rightarrow> 's \<times> bool list" where
  "run_on step mine s [] = (s, [])"
| "run_on step mine s ((u, ev) # evs) =
     (let (s1, r) = step s u ev; (s2, rs) = run_on step mine s1 evs
      in (s2, if mine u then r # rs else rs))"

locale breakers =
  fixes state_of :: "'s \<Rightarrow> 'u \<Rightarrow> breaker"
    and bstep :: "'s \<Rightarrow> 'u \<Rightarrow> breaker_event \<Rightarrow> 's \<times> bool"
    and binv :: "'s \<Rightarrow> 'u \<Rightarrow> bool"
    and same :: "'u \<Rightarrow> 'u \<Rightarrow> bool"
    and thr :: nat
    and tmo :: int
  assumes own_step: "binv s u \<Longrightarrow> same u u' \<Longrightarrow> bstep s u' ev = (s', r) \<Longrightarrow>
      binv s' u \<and> (state_of s' u, r) = breaker_step thr tmo (state_of s u) ev"
    and other_step: "binv s u \<Longrightarrow> \<not> same u u' \<Longrightarrow> bstep s u' ev = (s', r) \<Longrightarrow>
      binv s' u \<and> state_of s' u = state_of s u"
begin

lemma run_sim:
  "binv s u \<Longrightarrow> run_on bstep (same u) s evs = (s', rs) \<Longrightarrow>
   binv s' u \<and>
   (state_of s' u, rs) = breaker_run thr tmo (state_of s u) (map snd (filter (same u \<circ> fst) evs))"
proof (induction evs arbitrary: s rs)
  case Nil
  then show ?case by simp
next
  case (Cons e evs)
  obtain u' ev where e: "e = (u', ev)" by (cases e)
  obtain s1 r where s1: "bstep s u' ev = (s1, r)" by (cases "bstep s u' ev")
  obtain rs' where rs': "run_on bstep (same u) s1 evs = (s', rs')"
    "rs = (if same u u' then r # rs' else rs')"
    using Cons.prems(2) e s1 by (auto split: prod.splits)
  show ?case
  proof (cases "same u u'")
    case True
    then have "binv s1 u" "(state_of s1 u, r) = breaker_step thr tmo (state_of s u) ev"
      using own_step [OF Cons.prems(1) True s1] by auto
    then show ?thesis using Cons.IH [OF _ rs'(1)] rs'(2) e True
      by (auto split: prod.splits dest!: sym [of "(_, _)"])
  next
    case False
    then show ?thesis using other_step [OF Cons.prems(1) False s1] Cons.IH [OF _ rs'(1)] rs'(2) e
      by auto
  qed
qed

end

definition same_upstream :: "bytes \<times> u16 \<Rightarrow> bytes \<times> u16 \<Rightarrow> bool" where
  "same_upstream u u' \<longleftrightarrow> upstream_key (fst u) (snd u) = upstream_key (fst u') (snd u')"

definition cb_inv :: "http_pool \<Rightarrow> bytes \<times> u16 \<Rightarrow> bool" where
  "cb_inv pool u \<longleftrightarrow> breakers_inv pool \<and>
     upstream_key (fst u) (snd u) \<in> set (map cb_upstream (hp_breakers pool))"

lemma threshold_step:
  assumes "(n :: u32) < VWASM_HTTP_CB_THRESHOLD_DEFAULT"
  shows "VWASM_HTTP_CB_THRESHOLD_DEFAULT \<le> n + 1 \<longleftrightarrow> 5 \<le> unat n + 1"
    and "unat (n + 1) = unat n + 1"
proof -
  have "unat n < 5" using assms by (simp add: http_limits word_less_nat_alt)
  then show s: "unat (n + 1) = unat n + 1" by (simp add: unat_word_ariths)
  show "VWASM_HTTP_CB_THRESHOLD_DEFAULT \<le> n + 1 \<longleftrightarrow> 5 \<le> unat n + 1"
    by (simp only: http_limits word_le_nat_alt s) simp
qed

text \<open>What one event does to the breaker found for it.\<close>

definition cb_event :: "http_circuit_breaker \<Rightarrow> breaker_event \<Rightarrow> http_circuit_breaker \<times> bool" where
  "cb_event cb ev = (case ev of
     Allow now \<Rightarrow>
       (let cb = cb\<lparr>cb_total_requests := cb_total_requests cb + 1\<rparr>
        in case cb_st cb of
             VWASM_CB_CLOSED \<Rightarrow> (cb, True)
           | VWASM_CB_OPEN \<Rightarrow>
               if now - cb_last_failure_time cb \<ge> int (unat (cb_half_open_timeout_s cb))
               then (cb\<lparr>cb_st := VWASM_CB_HALF_OPEN, cb_consecutive_successes := 0\<rparr>, True)
               else (cb\<lparr>cb_total_rejections := cb_total_rejections cb + 1\<rparr>, False)
           | VWASM_CB_HALF_OPEN \<Rightarrow> (cb, True))
   | Success now \<Rightarrow>
       (let cb = cb\<lparr>cb_consecutive_failures := 0,
                    cb_consecutive_successes := cb_consecutive_successes cb + 1,
                    cb_last_success_time := now\<rparr>
        in (if cb_st cb = VWASM_CB_HALF_OPEN then cb\<lparr>cb_st := VWASM_CB_CLOSED\<rparr> else cb, True))
   | Failure now \<Rightarrow>
       (let cb = cb\<lparr>cb_consecutive_failures := cb_consecutive_failures cb + 1,
                    cb_consecutive_successes := 0, cb_last_failure_time := now,
                    cb_total_failures := cb_total_failures cb + 1\<rparr>
        in (if cb_st cb = VWASM_CB_HALF_OPEN then cb\<lparr>cb_st := VWASM_CB_OPEN\<rparr>
            else if cb_st cb = VWASM_CB_CLOSED \<and> cb_consecutive_failures cb \<ge> cb_threshold cb
            then cb\<lparr>cb_st := VWASM_CB_OPEN\<rparr> else cb, True)))"

lemma cb_event_sim:
  assumes "cb_ok cb" "cb_event cb ev = (cb', r)"
  shows "cb_ok cb' \<and> cb_upstream cb' = cb_upstream cb \<and> (cb_abs cb', r) = breaker_step 5 10 (cb_abs cb) ev"
proof (cases "cb_st cb")
  case VWASM_CB_CLOSED
  then have lt: "cb_consecutive_failures cb < VWASM_HTTP_CB_THRESHOLD_DEFAULT"
    using assms(1) by (simp add: cb_ok_def)
  note thr = threshold_step [OF lt]
  have z: "(0 :: u32) < VWASM_HTTP_CB_THRESHOLD_DEFAULT" by (simp add: http_limits)
  show ?thesis using assms VWASM_CB_CLOSED thr z lt
    by (cases ev) (auto simp: cb_event_def cb_ok_def cb_abs_def Let_def not_le split: if_splits)
next
  case VWASM_CB_OPEN
  then show ?thesis using assms
    by (cases ev) (auto simp: cb_event_def cb_ok_def cb_abs_def Let_def http_limits split: if_splits)
next
  case VWASM_CB_HALF_OPEN
  have z: "(0 :: u32) < VWASM_HTTP_CB_THRESHOLD_DEFAULT" by (simp add: http_limits)
  show ?thesis using assms VWASM_CB_HALF_OPEN z
    by (cases ev) (auto simp: cb_event_def cb_ok_def cb_abs_def Let_def split: if_splits)
qed

text \<open>Statistics do not matter to the breakers.\<close>

lemma breakers_stats [simp]:
  "breakers_inv (pool\<lparr>hp_stats := s\<rparr>) = breakers_inv pool"
  "breaker_of (pool\<lparr>hp_stats := s\<rparr>) = breaker_of pool"
  "tracked (pool\<lparr>hp_stats := s\<rparr>) = tracked pool"
  by (simp_all add: breakers_inv_def breaker_of_def tracked_def fun_eq_iff)

lemma cb_step_found:
  assumes "cb_find_or_create pool (fst u) (snd u) = (pool1, Some i)"
  shows "\<exists>s. cb_step pool u ev =
    ((cb_set i (fst (cb_event (hp_breakers pool1 ! i) ev)) pool1)\<lparr>hp_stats := s\<rparr>,
     snd (cb_event (hp_breakers pool1 ! i) ev))"
proof -
  have same: "p\<lparr>hp_stats := hp_stats p\<rparr> = p" for p :: http_pool by simp
  show ?thesis
  proof (cases ev)
    case (Allow t)
    show ?thesis
    proof (cases "cb_st (hp_breakers pool1 ! i)")
      case VWASM_CB_OPEN
      show ?thesis
      proof (cases "t - cb_last_failure_time (hp_breakers pool1 ! i)
          \<ge> int (unat (cb_half_open_timeout_s (hp_breakers pool1 ! i)))")
        case True
        then show ?thesis using assms Allow VWASM_CB_OPEN
          by (intro exI [of _ "hp_stats pool1"])
             (simp add: cb_step_def vwasm_http_pool_cb_allow_def cb_event_def cb_set_def Let_def)
      next
        case False
        then show ?thesis using assms Allow VWASM_CB_OPEN
          by (auto simp: cb_step_def vwasm_http_pool_cb_allow_def cb_event_def Let_def)
      qed
    qed (use assms Allow in \<open>intro exI [of _ "hp_stats pool1"],
          simp add: cb_step_def vwasm_http_pool_cb_allow_def cb_event_def cb_set_def Let_def\<close>)+
  qed (use assms in \<open>intro exI [of _ "hp_stats pool1"],
        simp add: cb_step_def vwasm_http_pool_cb_success_def vwasm_http_pool_cb_failure_def
          cb_event_def cb_set_def Let_def\<close>)+
qed

lemma cb_step_tracked:
  assumes inv: "breakers_inv pool" and tr: "tracked pool u" and st: "cb_step pool u ev = (pool', r)"
  shows "cb_inv pool' u \<and>
    set (map cb_upstream (hp_breakers pool)) \<subseteq> set (map cb_upstream (hp_breakers pool')) \<and>
    (breaker_of pool' u, r) = breaker_step 5 10 (breaker_of pool u) ev \<and>
    (\<forall>v. \<not> same_upstream u v \<longrightarrow> breaker_of pool' v = breaker_of pool v)"
proof -
  have tr': "tracked pool (fst u, snd u)" using tr by simp
  from find_or_create_tracked [OF inv tr'] obtain pool1 i where
    fc: "cb_find_or_create pool (fst u) (snd u) = (pool1, Some i)" and inv1: "breakers_inv pool1"
    and i: "i < length (hp_breakers pool1)"
    and key: "cb_upstream (hp_breakers pool1 ! i) = upstream_key (fst u) (snd u)"
    and abs: "cb_abs (hp_breakers pool1 ! i) = breaker_of pool u"
    and bo: "breaker_of pool1 = breaker_of pool"
    and sub: "set (map cb_upstream (hp_breakers pool)) \<subseteq> set (map cb_upstream (hp_breakers pool1))"
    by auto
  let ?cb = "hp_breakers pool1 ! i"
  obtain cb' r' where ev: "cb_event ?cb ev = (cb', r')" by (cases "cb_event ?cb ev")
  obtain s where step: "pool' = (cb_set i cb' pool1)\<lparr>hp_stats := s\<rparr>" "r = r'"
    using cb_step_found [OF fc, of ev] st ev by auto
  have "cb_ok ?cb" using inv1 i by (auto simp: breakers_inv_def list_all_length)
  from cb_event_sim [OF this ev]
  have sim: "cb_ok cb'" "cb_upstream cb' = cb_upstream ?cb"
    "(cb_abs cb', r') = breaker_step 5 10 (cb_abs ?cb) ev" by auto
  note set' = cb_set_breakers [OF inv1 i sim(2,1)]
  have "cb_upstream ?cb \<in> set (map cb_upstream (hp_breakers pool1))" using i by simp
  then have "cb_inv pool' u"
    unfolding cb_inv_def step using set'(1,3) key by (simp add: image_iff)
  moreover have "set (map cb_upstream (hp_breakers pool)) \<subseteq> set (map cb_upstream (hp_breakers pool'))"
    using sub set'(3) unfolding step by simp
  moreover have "(breaker_of pool' u, r) = breaker_step 5 10 (breaker_of pool u) ev"
    unfolding step using set'(2) [of u] sim key abs by simp
  moreover have "\<forall>v. \<not> same_upstream u v \<longrightarrow> breaker_of pool' v = breaker_of pool v"
    unfolding step using set'(2) sim key bo by (auto simp: same_upstream_def)
  ultimately show ?thesis by blast
qed

lemma cb_step_untracked:
  assumes "\<not> tracked pool u"
  shows "cb_step pool u ev = (pool, True)"
proof -
  have "cb_find_or_create pool (fst u) (snd u) = (pool, None)"
    using assms find_index_None [of "\<lambda>b. cb_upstream b = upstream_key (fst u) (snd u)" "hp_breakers pool"]
    by (auto simp: cb_find_or_create_def tracked_def Let_def rev_image_eqI)
  then show ?thesis
    by (cases ev) (simp_all add: cb_step_def vwasm_http_pool_cb_allow_def
        vwasm_http_pool_cb_success_def vwasm_http_pool_cb_failure_def)
qed

lemma breaker_of_same: "same_upstream u v \<Longrightarrow> breaker_of pool u = breaker_of pool v"
  by (simp add: same_upstream_def breaker_of_def)

interpretation poolcb: breakers breaker_of cb_step cb_inv same_upstream 5 10
proof
  fix pool u u' ev pool' r
  assume inv: "cb_inv pool u" and same: "same_upstream u u'" and st: "cb_step pool u' ev = (pool', r)"
  have tr: "tracked pool u'" "breakers_inv pool"
    using inv same by (auto simp: cb_inv_def tracked_def same_upstream_def)
  from cb_step_tracked [OF tr(2,1) st] show
    "cb_inv pool' u \<and> (breaker_of pool' u, r) = breaker_step 5 10 (breaker_of pool u) ev"
    using breaker_of_same [OF same] same by (auto simp: cb_inv_def same_upstream_def)
next
  fix pool u u' ev pool' r
  assume inv: "cb_inv pool u" and diff: "\<not> same_upstream u u'" and st: "cb_step pool u' ev = (pool', r)"
  show "cb_inv pool' u \<and> breaker_of pool' u = breaker_of pool u"
  proof (cases "tracked pool u'")
    case True
    have "\<not> same_upstream u' u" using diff by (auto simp: same_upstream_def)
    then show ?thesis using cb_step_tracked [OF _ True st] inv by (cases u) (auto simp: cb_inv_def)
  next
    case False
    then show ?thesis using cb_step_untracked [OF False, of ev] inv st by simp
  qed
qed

section \<open>Runs of the abstract breaker\<close>

lemma run_append:
  "breaker_run thr tmo b (xs @ ys) =
     (let (b1, r1) = breaker_run thr tmo b xs; (b2, r2) = breaker_run thr tmo b1 ys in (b2, r1 @ r2))"
  by (induction xs arbitrary: b) (auto split: prod.splits)

fun is_failure :: "breaker_event \<Rightarrow> bool" where
  "is_failure (Failure t) = True"
| "is_failure _ = False"

fun is_success :: "breaker_event \<Rightarrow> bool" where
  "is_success (Success t) = True"
| "is_success _ = False"

text \<open>Fewer failures than the threshold, and no success, leave a closed breaker closed.\<close>

lemma closed_run:
  "list_all (\<lambda>ev. \<not> is_success ev) evs \<Longrightarrow> n + length (filter is_failure evs) < thr \<Longrightarrow>
   breaker_run thr tmo (Closed n) evs =
     (Closed (n + length (filter is_failure evs)), replicate (length evs) True)"
proof (induction evs arbitrary: n)
  case (Cons ev evs)
  then show ?case by (cases ev) auto
qed simp

text \<open>Attempts that are rejected and then reported as failures keep the breaker open.\<close>

definition attempts :: "int list \<Rightarrow> breaker_event list" where
  "attempts ts = concat (map (\<lambda>t. [Allow t, Failure t]) ts)"

fun closely :: "int \<Rightarrow> int \<Rightarrow> int list \<Rightarrow> bool" where
  "closely gap t [] = True"
| "closely gap t (t' # ts) \<longleftrightarrow> t' - t < gap \<and> closely gap t' ts"

lemma attempts_rejected:
  "closely tmo f ts \<Longrightarrow> breaker_run thr tmo (Open f) (attempts ts) =
     (Open (last (f # ts)), concat (map (\<lambda>_. [False, True]) ts))"
  by (induction ts arbitrary: f) (auto simp: attempts_def)

section \<open>Properties\<close>


definition pool0 :: http_pool where
  "pool0 = the (vwasm_http_pool_new mem_ok 2 0)"

lemma pool0_breakers: "hp_breakers pool0 = []" "hp_max_breakers pool0 = 32"
  by (simp_all add: pool0_def vwasm_http_pool_new_def http_limits Let_def)

lemma pool0_inv: "breakers_inv pool0" "tracked pool0 u" "breaker_of pool0 u = Closed 0"
  by (simp_all add: breakers_inv_def tracked_def breaker_of_def pool0_breakers)


text \<open>Five consecutive failures open the circuit, whatever happens to other upstreams in between.
  From a closed breaker, every request is let through while fewer than five failures have been
  reported and no success; after the fifth, reported at time \<open>t\<close>, a request at time \<open>t'\<close> is let
  through exactly when ten seconds have passed.\<close>

theorem breaker_trips_after_five:
  assumes "cb_inv pool u" "breaker_of pool u = Closed 0"
    and "run_on cb_step (same_upstream u) pool evs = (pool1, rs1)"
    and "mine = map snd (filter (same_upstream u \<circ> fst) evs)"
    and "list_all (\<lambda>ev. \<not> is_success ev) mine" "length (filter is_failure mine) = 4"
    and "run_on cb_step (same_upstream u) pool1 [(u, Failure t), (u, Allow t')] = (pool2, rs2)"
  shows "rs1 = replicate (length mine) True \<and> rs2 = [True, t' - t \<ge> 10]"
proof -
  have u: "same_upstream u u" by (simp add: same_upstream_def)
  have 1: "cb_inv pool1 u" "(breaker_of pool1 u, rs1) = breaker_run 5 10 (Closed 0) mine"
    using poolcb.run_sim [OF assms(1,3)] assms(2,4) by auto
  then have "breaker_of pool1 u = Closed 4" "rs1 = replicate (length mine) True"
    using closed_run [OF assms(5), of 0 5 10] assms(6) by auto
  moreover have "(breaker_of pool2 u, rs2) = breaker_run 5 10 (breaker_of pool1 u) [Failure t, Allow t']"
    using poolcb.run_sim [OF 1(1) assms(7)] u by auto
  ultimately show ?thesis by (auto split: if_splits)
qed

definition pool1 :: http_pool where
  "pool1 = fst (cb_step pool0 (''api'', 80) (Allow 0))"

lemma pool1_inv: "cb_inv pool1 (''api'', 80)" "breaker_of pool1 (''api'', 80) = Closed 0"
  using cb_step_tracked [OF pool0_inv(1,2) prod.collapse [symmetric], of "(''api'', 80)" "Allow 0"]
  by (simp_all add: pool1_def pool0_inv)

theorem breaker_trips_after_five_witness:
  "snd (run_on cb_step (same_upstream (''api'', 80))
      (fst (run_on cb_step (same_upstream (''api'', 80)) pool1
         (replicate 4 ((''api'', 80), Failure 3)))) [((''api'', 80), Failure 5), ((''api'', 80), Allow 9)])
    = [True, False]"
  using breaker_trips_after_five [OF pool1_inv prod.collapse [symmetric] refl _ _ prod.collapse [symmetric],
      of "replicate 4 ((''api'', 80), Failure 3)" 5 9]
  by (simp add: same_upstream_def numeral_eq_Suc)

text \<open>C37: an open circuit never closes under steady traffic. A rejected attempt is reported as a failure by
  the caller, which restarts the ten seconds; so when attempts follow each other by less than ten
  seconds, every one of them is rejected, for ever, whatever the state of the upstream.\<close>

theorem breaker_steady_traffic_stays_open:
  assumes "cb_inv pool u" "breaker_of pool u = Open f" "closely 10 f ts"
    and "run_on cb_step (same_upstream u) pool (map (\<lambda>ev. (u, ev)) (attempts ts)) = (pool', rs)"
  shows "rs = concat (map (\<lambda>_. [False, True]) ts) \<and> breaker_of pool' u = Open (last (f # ts))"
proof -
  have mine: "map snd (filter (same_upstream u \<circ> fst) (map (\<lambda>ev. (u, ev)) evs)) = evs" for evs
    by (induction evs) (auto simp: same_upstream_def)
  show ?thesis
    using poolcb.run_sim [OF assms(1,4), unfolded mine assms(2)] attempts_rejected [OF assms(3), of 5]
    by simp
qed

definition pool2 :: http_pool where
  "pool2 = fst (run_on cb_step (same_upstream (''api'', 80)) pool1 (replicate 5 ((''api'', 80), Failure 3)))"

lemma pool2_inv: "cb_inv pool2 (''api'', 80)" "breaker_of pool2 (''api'', 80) = Open 3"
  using poolcb.run_sim [OF pool1_inv(1) prod.collapse [symmetric],
      of "replicate 5 ((''api'', 80), Failure 3)"] pool1_inv(2)
  by (simp_all add: pool2_def same_upstream_def numeral_eq_Suc)

theorem breaker_steady_traffic_stays_open_witness:
  "snd (run_on cb_step (same_upstream (''api'', 80)) pool2
      (map (\<lambda>ev. ((''api'', 80), ev)) (attempts [9, 18, 27]))) = [False, True, False, True, False, True]"
  using breaker_steady_traffic_stays_open [OF pool2_inv, of "[9, 18, 27]", OF _ prod.collapse [symmetric]]
  by simp

end
