(* ===== verification/Http_Conns.thy ===== *)
theory Http_Conns
  imports "HOL-Library.Multiset" Circuit_Breaker Http_Cache
begin

text \<open>
  The connection slots of \<^verbatim>\<open>src/http_pool.c\<close>: acquiring a connection (reuse, a fresh connection in a
  free slot, eviction of the oldest idle slot, or a temporary connection on the heap) and releasing
  it. \<open>clk\<close> gives the successive clock readings of a call (the breaker's, the pool's own, the DNS
  cache's), \<open>pollf\<close> what \<open>poll\<close> reports for an idle descriptor, \<open>gai\<close> the resolver, and \<open>conn\<close> what
  the system calls of a connection attempt to an address return. Descriptors closed by a call are
  part of its result.
\<close>

section \<open>Liveness of an idle connection\<close>

text \<open>The result of \<open>poll\<close>, whether an error condition is set, and whether data is pending.\<close>

type_synonym poll_result = "int \<times> bool \<times> bool"

definition conn_is_alive :: "(int \<Rightarrow> poll_result) \<Rightarrow> int \<Rightarrow> bool" where
  "conn_is_alive pollf fd =
     (case pollf fd of (ret, err, readable) \<Rightarrow>
        if ret < 0 then False
        else if ret = 0 then True
        else if err then False
        else if \<not> readable then True
        else False)"

section \<open>Acquiring\<close>

datatype conn_ref = Slot nat | Overflow http_conn

text \<open>The first loop: look for an idle connection to the same host and port, closing those that are
  too old, worn out or dead on the way. The slots, the index found, the descriptors closed.\<close>

fun reuse_scan ::
  "http_pool \<Rightarrow> int \<Rightarrow> (int \<Rightarrow> poll_result) \<Rightarrow> bytes \<Rightarrow> u16 \<Rightarrow> http_conn list
   \<Rightarrow> http_conn list \<times> nat option \<times> int list" where
  "reuse_scan pool now pollf host port [] = ([], None, [])"
| "reuse_scan pool now pollf host port (c # cs) =
     (if hc_fd c < 0 \<or> hc_in_use c \<or> hc_host c \<noteq> host \<or> hc_port c \<noteq> port then
        (case reuse_scan pool now pollf host port cs of
           (cs', i, closed) \<Rightarrow> (c # cs', map_option Suc i, closed))
      else if now - hc_created_at c > int (unat (hp_max_conn_age_s pool)) \<or>
              hc_requests_served c \<ge> int (unat (hp_max_requests_per_conn pool)) \<or>
              \<not> conn_is_alive pollf (hc_fd c) then
        (case reuse_scan pool now pollf host port cs of
           (cs', i, closed) \<Rightarrow> (c\<lparr>hc_fd := -1\<rparr> # cs', map_option Suc i, hc_fd c # closed))
      else (c\<lparr>hc_in_use := True, hc_last_used := now, hc_requests_served := hc_requests_served c + 1\<rparr> # cs,
            Some 0, []))"

text \<open>The slot contents of a fresh connection.\<close>

definition fresh_conn :: "int \<Rightarrow> bytes \<Rightarrow> u16 \<Rightarrow> int \<Rightarrow> http_conn" where
  "fresh_conn fd host port now =
     \<lparr>hc_fd = fd, hc_host = strlcpy_to host 256, hc_port = port, hc_last_used = now,
      hc_created_at = now, hc_in_use = True, hc_keep_alive = True, hc_requests_served = 1\<rparr>"

text \<open>The third loop: the index of the idle connection used longest ago, the last of equals.\<close>

fun oldest_idle :: "nat \<Rightarrow> http_conn list \<Rightarrow> int \<Rightarrow> nat option \<Rightarrow> nat option" where
  "oldest_idle i [] oldest_time found = found"
| "oldest_idle i (c # cs) oldest_time found =
     (if hc_fd c \<ge> 0 \<and> \<not> hc_in_use c \<and> hc_last_used c \<le> oldest_time
      then oldest_idle (i + 1) cs (hc_last_used c) (Some i)
      else oldest_idle (i + 1) cs oldest_time found)"

record acquire_result =
  ar_pool :: http_pool
  ar_conn :: "(int \<times> conn_ref) option"
  ar_closed :: "int list"
  ar_dialed :: "sockaddr option"

definition bump_stats :: "(http_stats \<Rightarrow> http_stats) \<Rightarrow> http_pool \<Rightarrow> http_pool" where
  "bump_stats f pool = pool\<lparr>hp_stats := f (hp_stats pool)\<rparr>"

text \<open>Where a freshly connected descriptor goes. The temporary connection is the one allocation.\<close>

definition place_conn ::
  "malloc \<Rightarrow> int \<Rightarrow> bytes \<Rightarrow> u16 \<Rightarrow> int \<Rightarrow> int list \<Rightarrow> sockaddr \<Rightarrow> http_pool \<Rightarrow> acquire_result" where
  "place_conn al now host port fd closed sa pool =
     (case find_index (\<lambda>c. hc_fd c < 0) (hp_conns pool) of
        Some i \<Rightarrow>
          \<lparr>ar_pool = bump_stats (\<lambda>s. s\<lparr>stat_creates := stat_creates s + 1, stat_acquires := stat_acquires s + 1\<rparr>)
             (pool\<lparr>hp_conns := (hp_conns pool)[i := fresh_conn fd host port now],
                   hp_num_active := hp_num_active pool + 1\<rparr>),
           ar_conn = Some (fd, Slot i), ar_closed = closed, ar_dialed = Some sa\<rparr>
      | None \<Rightarrow>
          (case oldest_idle 0 (hp_conns pool) now None of
             Some i \<Rightarrow>
               \<lparr>ar_pool = bump_stats (\<lambda>s. s\<lparr>stat_evictions := stat_evictions s + 1,
                    stat_creates := stat_creates s + 1, stat_acquires := stat_acquires s + 1\<rparr>)
                  (pool\<lparr>hp_conns := (hp_conns pool)[i := fresh_conn fd host port now]\<rparr>),
                ar_conn = Some (fd, Slot i), ar_closed = closed @ [hc_fd (hp_conns pool ! i)],
                ar_dialed = Some sa\<rparr>
           | None \<Rightarrow>
               if \<not> al 0 then \<lparr>ar_pool = pool, ar_conn = None, ar_closed = closed @ [fd], ar_dialed = Some sa\<rparr>
               else
                 \<lparr>ar_pool = bump_stats (\<lambda>s. s\<lparr>stat_creates := stat_creates s + 1,
                      stat_acquires := stat_acquires s + 1\<rparr>) pool,
                  ar_conn = Some (fd, Overflow ((fresh_conn fd host port now)\<lparr>hc_keep_alive := False\<rparr>)),
                  ar_closed = closed, ar_dialed = Some sa\<rparr>))"

text \<open>No idle connection: resolve, check the address, connect and place the connection.\<close>

definition acquire_new ::
  "malloc \<Rightarrow> (nat \<Rightarrow> int) \<Rightarrow> resolver \<Rightarrow> (sockaddr \<Rightarrow> connect_env) \<Rightarrow> http_pool \<Rightarrow> bytes \<Rightarrow> u16 \<Rightarrow> u32
   \<Rightarrow> bool \<Rightarrow> int list \<Rightarrow> acquire_result" where
  "acquire_new al clk gai conn pool host port timeout_ms ssrf_exempt closed =
     (case vwasm_http_pool_resolve (clk 2) gai (Some pool) (Some host) port of
        (p, None) \<Rightarrow> \<lparr>ar_pool = the p, ar_conn = None, ar_closed = closed, ar_dialed = None\<rparr>
      | (p, Some sa) \<Rightarrow>
          if \<not> ssrf_exempt \<and> vwasm_http_addr_is_private (Some sa)
          then \<lparr>ar_pool = the p, ar_conn = None, ar_closed = closed, ar_dialed = None\<rparr>
          else
            (case connect_with_timeout (conn sa) timeout_ms of (fd, closed', _) \<Rightarrow>
               if fd < 0
               then \<lparr>ar_pool = the p, ar_conn = None, ar_closed = closed @ closed', ar_dialed = Some sa\<rparr>
               else place_conn al (clk 1) host port fd closed sa (the p)))"

definition vwasm_http_pool_acquire ::
  "malloc \<Rightarrow> (nat \<Rightarrow> int) \<Rightarrow> (int \<Rightarrow> poll_result) \<Rightarrow> resolver \<Rightarrow> (sockaddr \<Rightarrow> connect_env)
   \<Rightarrow> http_pool \<Rightarrow> bytes \<Rightarrow> u16 \<Rightarrow> u32 \<Rightarrow> bool \<Rightarrow> acquire_result" where
  "vwasm_http_pool_acquire al clk pollf gai conn pool host port timeout_ms ssrf_exempt =
     (let timeout_ms = (if timeout_ms = 0 then hp_default_timeout_ms pool else timeout_ms) in
      case vwasm_http_pool_cb_allow (clk 0) (Some pool) host port of
        (p, False) \<Rightarrow> \<lparr>ar_pool = the p, ar_conn = None, ar_closed = [], ar_dialed = None\<rparr>
      | (p, True) \<Rightarrow>
          (let pool = the p in
           case (if ssrf_exempt then reuse_scan pool (clk 1) pollf host port (hp_conns pool)
                 else (hp_conns pool, None, [])) of
             (conns, Some i, closed) \<Rightarrow>
               \<lparr>ar_pool = bump_stats (\<lambda>s. s\<lparr>stat_reuses := stat_reuses s + 1,
                    stat_acquires := stat_acquires s + 1\<rparr>) (pool\<lparr>hp_conns := conns\<rparr>),
                ar_conn = Some (hc_fd (conns ! i), Slot i), ar_closed = closed, ar_dialed = None\<rparr>
           | (conns, None, closed) \<Rightarrow>
               acquire_new al clk gai conn (pool\<lparr>hp_conns := conns\<rparr>) host port timeout_ms ssrf_exempt
                 closed))"

section \<open>Releasing\<close>

text \<open>The pool and the descriptors closed. \<open>now\<close> is the clock reading on the keep-alive path.\<close>

definition vwasm_http_pool_release ::
  "int \<Rightarrow> http_pool \<Rightarrow> conn_ref option \<Rightarrow> bool \<Rightarrow> http_pool \<times> int list" where
  "vwasm_http_pool_release now pool ref keep_alive =
     (case ref of
        None \<Rightarrow> (pool, [])
      | Some r \<Rightarrow>
          (let pool = bump_stats (\<lambda>s. s\<lparr>stat_releases := stat_releases s + 1\<rparr>) pool;
               c = (case r of Slot i \<Rightarrow> hp_conns pool ! i | Overflow c \<Rightarrow> c);
               put_back = (\<lambda>c'. case r of Slot i \<Rightarrow> pool\<lparr>hp_conns := (hp_conns pool)[i := c']\<rparr>
                                | Overflow _ \<Rightarrow> pool)
           in if \<not> keep_alive \<or> \<not> hc_keep_alive c \<or> hc_fd c < 0 then
                (put_back (c\<lparr>hc_fd := (if hc_fd c \<ge> 0 then -1 else hc_fd c), hc_in_use := False\<rparr>),
                 if hc_fd c \<ge> 0 then [hc_fd c] else [])
              else
                (put_back (c\<lparr>hc_in_use := False, hc_last_used := now\<rparr>),
                 case r of Slot _ \<Rightarrow> [] | Overflow _ \<Rightarrow> if hc_fd c \<ge> 0 then [hc_fd c] else [])))"

definition vwasm_http_pool_close :: "int \<Rightarrow> http_pool \<Rightarrow> conn_ref option \<Rightarrow> http_pool \<times> int list" where
  "vwasm_http_pool_close now pool ref = vwasm_http_pool_release now pool ref False"

section \<open>Lemmas\<close>

text \<open>The descriptors the pool holds.\<close>

definition pool_fds :: "http_conn list \<Rightarrow> int multiset" where
  "pool_fds cs = mset (filter (\<lambda>fd. fd \<ge> 0) (map hc_fd cs))"

definition conns_inv :: "http_conn list \<Rightarrow> bool" where
  "conns_inv cs \<longleftrightarrow> list_all (\<lambda>c. hc_in_use c \<longrightarrow> hc_fd c \<ge> 0) cs"

lemma find_or_create_conns: "cb_find_or_create pool h p = (pool', i) \<Longrightarrow> hp_conns pool' = hp_conns pool"
  by (auto simp: cb_find_or_create_def Let_def split: option.splits if_splits)

lemma cb_allow_conns:
  "vwasm_http_pool_cb_allow t (Some pool) h p = (p', r) \<Longrightarrow> \<exists>q. p' = Some q \<and> hp_conns q = hp_conns pool"
  by (cases "cb_find_or_create pool h p")
     (auto simp: vwasm_http_pool_cb_allow_def cb_set_def Let_def find_or_create_conns
       split: option.splits cb_state.splits if_splits)

lemma report_conns:
  "\<exists>q. vwasm_http_pool_cb_success t (Some pool) h p = Some q \<and> hp_conns q = hp_conns pool"
  "\<exists>q. vwasm_http_pool_cb_failure t (Some pool) h p = Some q \<and> hp_conns q = hp_conns pool"
  by (cases "cb_find_or_create pool h p";
      auto simp: vwasm_http_pool_cb_success_def vwasm_http_pool_cb_failure_def cb_set_def Let_def
        find_or_create_conns split: option.splits)+

lemma resolve_conns:
  "vwasm_http_pool_resolve t gai (Some pool) (Some h) p = (p', r) \<Longrightarrow>
   \<exists>q. p' = Some q \<and> hp_conns q = hp_conns pool"
  by (auto simp: resolve_eq dns_store_def Let_def split: option.splits if_splits)

lemma bump_stats_conns [simp]: "hp_conns (bump_stats f pool) = hp_conns pool"
  by (simp add: bump_stats_def)

lemma reuse_scan_fds:
  "reuse_scan pool now pollf h p cs = (cs', i, closed) \<Longrightarrow>
   pool_fds cs' + mset closed = pool_fds cs"
  by (induction cs arbitrary: cs' i closed)
     (auto simp: pool_fds_def split: if_splits prod.splits)

lemma reuse_scan_slots:
  "reuse_scan pool now pollf h p cs = (cs', i, closed) \<Longrightarrow>
   length cs' = length cs \<and>
   (\<forall>j < length cs. hc_in_use (cs ! j) \<longrightarrow> cs' ! j = cs ! j) \<and>
   (\<forall>j. i = Some j \<longrightarrow> j < length cs \<and> \<not> hc_in_use (cs ! j) \<and> hc_in_use (cs' ! j) \<and>
      hc_fd (cs' ! j) = hc_fd (cs ! j) \<and> hc_fd (cs ! j) \<ge> 0 \<and>
      hc_host (cs' ! j) = h \<and> hc_port (cs' ! j) = p) \<and>
   (conns_inv cs \<longrightarrow> conns_inv cs')"
proof (induction cs arbitrary: cs' i closed)
  case Nil
  then show ?case by simp
next
  case (Cons c cs)
  obtain cs1 i1 closed1 where rec: "reuse_scan pool now pollf h p cs = (cs1, i1, closed1)"
    by (cases "reuse_scan pool now pollf h p cs") auto
  note IH = Cons.IH [OF rec]
  show ?case using Cons.prems IH
    by (auto simp: rec conns_inv_def nth_Cons' split: if_splits)
qed

lemma pool_fds_update:
  "i < length cs \<Longrightarrow>
   pool_fds (cs[i := c]) + (if hc_fd (cs ! i) \<ge> 0 then {#hc_fd (cs ! i)#} else {#}) =
   pool_fds cs + (if hc_fd c \<ge> 0 then {#hc_fd c#} else {#})"
proof (induction cs arbitrary: i)
  case (Cons x xs)
  show ?case
  proof (cases i)
    case (Suc j)
    then show ?thesis using Cons.IH [of j] Cons.prems by (auto simp: pool_fds_def)
  qed (auto simp: pool_fds_def)
qed simp

lemma oldest_idle_found:
  "oldest_idle k cs t f = Some i \<Longrightarrow>
   f = Some i \<or> (\<exists>j < length cs. i = k + j \<and> hc_fd (cs ! j) \<ge> 0 \<and> \<not> hc_in_use (cs ! j) \<and> hc_last_used (cs ! j) \<le> t)"
proof (induction k cs t f rule: oldest_idle.induct)
  case (2 k c cs t f)
  show ?case
  proof (cases "hc_fd c \<ge> 0 \<and> \<not> hc_in_use c \<and> hc_last_used c \<le> t")
    case True
    then have "Some k = Some i \<or> (\<exists>j < length cs. i = k + 1 + j \<and> hc_fd (cs ! j) \<ge> 0 \<and>
        \<not> hc_in_use (cs ! j) \<and> hc_last_used (cs ! j) \<le> hc_last_used c)"
      using 2 by simp
    then show ?thesis
    proof
      assume "Some k = Some i"
      then show ?thesis using True by (intro disjI2 exI [of _ 0]) auto
    next
      assume "\<exists>j < length cs. i = k + 1 + j \<and> hc_fd (cs ! j) \<ge> 0 \<and> \<not> hc_in_use (cs ! j) \<and>
        hc_last_used (cs ! j) \<le> hc_last_used c"
      then obtain j where "j < length cs" "i = k + 1 + j" "hc_fd (cs ! j) \<ge> 0" "\<not> hc_in_use (cs ! j)"
        "hc_last_used (cs ! j) \<le> hc_last_used c" by blast
      then show ?thesis using True by (intro disjI2 exI [of _ "Suc j"]) auto
    qed
  next
    case False
    then have "f = Some i \<or> (\<exists>j < length cs. i = k + 1 + j \<and> hc_fd (cs ! j) \<ge> 0 \<and> \<not> hc_in_use (cs ! j) \<and>
        hc_last_used (cs ! j) \<le> t)"
      using 2 by auto
    then show ?thesis by (auto intro: exI [of _ "Suc _"])
  qed
qed simp

lemma fresh_conn_simps [simp]:
  "hc_fd (fresh_conn fd h p t) = fd" "hc_in_use (fresh_conn fd h p t)"
  "hc_port (fresh_conn fd h p t) = p" "hc_host (fresh_conn fd h p t) = strlcpy_to h 256"
  by (simp_all add: fresh_conn_def)

text \<open>Placing a fresh descriptor: the books balance, and no slot in use is touched.\<close>

definition overflow_fds :: "(int \<times> conn_ref) option \<Rightarrow> int multiset" where
  "overflow_fds r = (case r of Some (fd, Overflow _) \<Rightarrow> {#fd#} | _ \<Rightarrow> {#})"

lemma place_conn_fds:
  assumes "fd \<ge> 0" "place_conn al now h p fd closed sa pool = r"
  shows "pool_fds (hp_conns (ar_pool r)) + mset (ar_closed r) + overflow_fds (ar_conn r) =
    pool_fds (hp_conns pool) + mset closed + {#fd#}"
proof (cases "find_index (\<lambda>c. hc_fd c < 0) (hp_conns pool)")
  case (Some i)
  then have "i < length (hp_conns pool)" "hc_fd (hp_conns pool ! i) < 0" by (simp_all add: find_index_Some)
  then show ?thesis
    using pool_fds_update [of i "hp_conns pool" "fresh_conn fd h p now"] assms Some
    by (auto simp: place_conn_def overflow_fds_def ac_simps)
next
  case None
  show ?thesis
  proof (cases "oldest_idle 0 (hp_conns pool) now None")
    case (Some i)
    then have "i < length (hp_conns pool)" "hc_fd (hp_conns pool ! i) \<ge> 0"
      using oldest_idle_found [of 0 "hp_conns pool" now None i] by auto
    then show ?thesis
      using pool_fds_update [of i "hp_conns pool" "fresh_conn fd h p now"] assms Some None
      by (auto simp: place_conn_def overflow_fds_def ac_simps)
  qed (use assms None in \<open>auto simp: place_conn_def overflow_fds_def\<close>)
qed

lemma place_conn_slots:
  assumes "fd \<ge> 0" "conns_inv (hp_conns pool)" "place_conn al now h p fd closed sa pool = r"
  shows "length (hp_conns (ar_pool r)) = length (hp_conns pool) \<and>
    (\<forall>j < length (hp_conns pool). hc_in_use (hp_conns pool ! j) \<longrightarrow>
        hp_conns (ar_pool r) ! j = hp_conns pool ! j) \<and>
    (\<forall>f i. ar_conn r = Some (f, Slot i) \<longrightarrow> f = fd \<and> i < length (hp_conns pool) \<and> \<not> hc_in_use (hp_conns pool ! i) \<and>
        hp_conns (ar_pool r) ! i = fresh_conn fd h p now) \<and>
    conns_inv (hp_conns (ar_pool r))"
proof (cases "find_index (\<lambda>c. hc_fd c < 0) (hp_conns pool)")
  case (Some i)
  then have "i < length (hp_conns pool)" "hc_fd (hp_conns pool ! i) < 0" by (simp_all add: find_index_Some)
  moreover from this have "\<not> hc_in_use (hp_conns pool ! i)"
    using assms(2) by (auto simp: conns_inv_def list_all_length)
  ultimately show ?thesis using assms Some
    by (auto simp: place_conn_def conns_inv_def list_all_length nth_list_update_if)
next
  case None
  show ?thesis
  proof (cases "oldest_idle 0 (hp_conns pool) now None")
    case (Some i)
    then have "i < length (hp_conns pool)" "\<not> hc_in_use (hp_conns pool ! i)"
      using oldest_idle_found [of 0 "hp_conns pool" now None i] by auto
    then show ?thesis using assms Some None
      by (auto simp: place_conn_def conns_inv_def list_all_length nth_list_update_if)
  qed (use assms None in \<open>auto simp: place_conn_def split: if_splits\<close>)
qed

lemma acquire_new_cases:
  assumes "acquire_new al clk gai conn pool h p tm exempt closed = r"
  obtains
    (failed) "hp_conns (ar_pool r) = hp_conns pool" "ar_conn r = None" "ar_closed r = closed"
      "ar_dialed r = None"
  | (refused) sa fd closed' tv where "exempt \<or> \<not> vwasm_http_addr_is_private (Some sa)"
      "connect_with_timeout (conn sa) tm = (fd, closed', tv)" "fd < 0"
      "hp_conns (ar_pool r) = hp_conns pool" "ar_conn r = None" "ar_closed r = closed @ closed'"
      "ar_dialed r = Some sa"
  | (placed) sa fd tv closed' q where "exempt \<or> \<not> vwasm_http_addr_is_private (Some sa)"
      "connect_with_timeout (conn sa) tm = (fd, closed', tv)" "fd \<ge> 0" "hp_conns q = hp_conns pool"
      "r = place_conn al (clk 1) h p fd closed sa q"
proof -
  obtain b sa where res: "vwasm_http_pool_resolve (clk 2) gai (Some pool) (Some h) p = (b, sa)"
    by (cases "vwasm_http_pool_resolve (clk 2) gai (Some pool) (Some h) p")
  obtain q where q: "b = Some q" "hp_conns q = hp_conns pool" using resolve_conns [OF res] by auto
  show ?thesis
  proof (cases "sa = None \<or> (\<not> exempt \<and> vwasm_http_addr_is_private sa)")
    case True
    then have "r = \<lparr>ar_pool = q, ar_conn = None, ar_closed = closed, ar_dialed = None\<rparr>"
      using assms res q(1) by (auto simp: acquire_new_def split: option.splits)
    then show ?thesis using failed q(2) by simp
  next
    case False
    then obtain s where s: "sa = Some s" "exempt \<or> \<not> vwasm_http_addr_is_private (Some s)" by auto
    obtain fd closed' tv where c: "connect_with_timeout (conn s) tm = (fd, closed', tv)"
      by (metis prod_cases3)
    have r: "r = (if fd < 0 then \<lparr>ar_pool = q, ar_conn = None, ar_closed = closed @ closed',
        ar_dialed = Some s\<rparr> else place_conn al (clk 1) h p fd closed s q)"
      using assms res q(1) s c by (auto simp: acquire_new_def)
    show ?thesis
    proof (cases "fd < 0")
      case True
      then show ?thesis using r q(2) by (intro refused [OF s(2) c True]) simp_all
    next
      case False
      then show ?thesis using r by (intro placed [OF s(2) c _ q(2)]) simp_all
    qed
  qed
qed

lemma acquire_cases:
  assumes "vwasm_http_pool_acquire al clk pollf gai conn pool h p tm exempt = r"
  obtains
    (rejected) q where "vwasm_http_pool_cb_allow (clk 0) (Some pool) h p = (Some q, False)"
      "hp_conns q = hp_conns pool" "r = \<lparr>ar_pool = q, ar_conn = None, ar_closed = [], ar_dialed = None\<rparr>"
  | (reused) q cs i closed where "exempt" "hp_conns q = hp_conns pool"
      "reuse_scan q (clk 1) pollf h p (hp_conns pool) = (cs, Some i, closed)"
      "hp_conns (ar_pool r) = cs" "ar_conn r = Some (hc_fd (cs ! i), Slot i)" "ar_closed r = closed"
      "ar_dialed r = None"
  | (new) q q' cs closed where "exempt \<Longrightarrow> reuse_scan q' (clk 1) pollf h p (hp_conns pool) = (cs, None, closed)"
      "\<not> exempt \<Longrightarrow> cs = hp_conns pool \<and> closed = []" "hp_conns q = cs"
      "r = acquire_new al clk gai conn q h p (if tm = 0 then hp_default_timeout_ms pool else tm) exempt closed"
proof (cases "vwasm_http_pool_cb_allow (clk 0) (Some pool) h p")
  case (Pair a ok)
  obtain q where q: "a = Some q" "hp_conns q = hp_conns pool" using cb_allow_conns [OF Pair] by blast
  show thesis
  proof (cases ok)
    case False
    then show ?thesis using rejected [of q] Pair q assms by (simp add: vwasm_http_pool_acquire_def Let_def)
  next
    case True
    obtain cs f closed where scan: "(if exempt then reuse_scan q (clk 1) pollf h p (hp_conns q)
        else (hp_conns q, None, [])) = (cs, f, closed)" by (metis prod_cases3)
    have r: "r = (case f of Some i \<Rightarrow> \<lparr>ar_pool = bump_stats (\<lambda>s. s\<lparr>stat_reuses := stat_reuses s + 1,
             stat_acquires := stat_acquires s + 1\<rparr>) (q\<lparr>hp_conns := cs\<rparr>),
           ar_conn = Some (hc_fd (cs ! i), Slot i), ar_closed = closed, ar_dialed = None\<rparr>
         | None \<Rightarrow> acquire_new al clk gai conn (q\<lparr>hp_conns := cs\<rparr>) h p
             (if tm = 0 then hp_default_timeout_ms pool else tm) exempt closed)"
      using True unfolding assms [symmetric] vwasm_http_pool_acquire_def Let_def
      by (simp only: Pair q(1) prod.case bool.case option.sel scan)
    show thesis
    proof (cases f)
      case (Some i)
      then show ?thesis using scan q(2) r by (intro reused [of q cs i closed]) (auto split: if_splits)
    next
      case None
      show ?thesis
        using scan None q(2) r by (intro new [of q cs closed "q\<lparr>hp_conns := cs\<rparr>"]) (auto split: if_splits)
    qed
  qed
qed

lemma connect_result:
  "connect_with_timeout e t = (fd, closed, tv) \<Longrightarrow>
   (fd < 0 \<and> mset closed = (if ce_socket e < 0 then {#} else {#ce_socket e#})) \<or>
   (fd \<ge> 0 \<and> fd = ce_socket e \<and> closed = [])"
  by (auto simp: connect_with_timeout_def Let_def split: if_splits)

definition dialed_fd :: "(sockaddr \<Rightarrow> connect_env) \<Rightarrow> sockaddr option \<Rightarrow> int multiset" where
  "dialed_fd conn d = (case d of None \<Rightarrow> {#}
     | Some sa \<Rightarrow> if ce_socket (conn sa) < 0 then {#} else {#ce_socket (conn sa)#})"

lemma place_conn_dialed [simp]: "ar_dialed (place_conn al t h p fd closed sa q) = Some sa"
  by (simp add: place_conn_def split: option.split)

lemma acquire_new_fds:
  assumes "acquire_new al clk gai conn pool h p tm exempt closed = r"
  shows "pool_fds (hp_conns (ar_pool r)) + mset (ar_closed r) + overflow_fds (ar_conn r) =
    pool_fds (hp_conns pool) + mset closed + dialed_fd conn (ar_dialed r)"
  using assms
proof (cases rule: acquire_new_cases)
  case failed
  then show ?thesis by (simp add: overflow_fds_def dialed_fd_def)
next
  case (refused sa fd closed' tv)
  then show ?thesis using connect_result [OF refused(2)] by (auto simp: overflow_fds_def dialed_fd_def)
next
  case (placed sa fd tv closed' q)
  have "fd = ce_socket (conn sa)" using connect_result [OF placed(2)] placed(3) by auto
  then show ?thesis using place_conn_fds [OF placed(3) placed(5) [symmetric]] placed
    by (auto simp: dialed_fd_def)
qed

lemma acquire_address:
  "case ar_dialed (vwasm_http_pool_acquire al clk pollf gai conn pool h p tm False) of
     None \<Rightarrow> ar_conn (vwasm_http_pool_acquire al clk pollf gai conn pool h p tm False) = None
   | Some sa \<Rightarrow> \<not> vwasm_http_addr_is_private (Some sa)"
proof -
  define r where "r = vwasm_http_pool_acquire al clk pollf gai conn pool h p tm False"
  from r_def [symmetric] have "case ar_dialed r of None \<Rightarrow> ar_conn r = None
      | Some sa \<Rightarrow> \<not> vwasm_http_addr_is_private (Some sa)"
  proof (cases rule: acquire_cases)
    case (new q q' cs closed)
    from new(4) [symmetric] show ?thesis
      by (cases rule: acquire_new_cases) (auto simp: Let_def)
  qed auto
  then show ?thesis unfolding r_def .
qed

lemma acquire_fds:
  assumes "vwasm_http_pool_acquire al clk pollf gai conn pool h p tm exempt = r"
  shows "pool_fds (hp_conns (ar_pool r)) + mset (ar_closed r) + overflow_fds (ar_conn r) =
    pool_fds (hp_conns pool) + dialed_fd conn (ar_dialed r)"
  using assms
proof (cases rule: acquire_cases)
  case (rejected q)
  then show ?thesis by (simp add: overflow_fds_def dialed_fd_def)
next
  case (reused q cs i closed)
  then show ?thesis using reuse_scan_fds [OF reused(3)] by (simp add: overflow_fds_def dialed_fd_def)
next
  case (new q q' cs closed)
  have "pool_fds cs + mset closed = pool_fds (hp_conns pool)"
    using new(1,2) reuse_scan_fds by (cases exempt) auto
  then show ?thesis using acquire_new_fds [OF new(4) [symmetric]] new(3) by simp
qed

text \<open>Which slots are in use afterwards: those that were, and the one handed out.\<close>

definition used_slots :: "http_conn list \<Rightarrow> nat set" where
  "used_slots cs = {j. j < length cs \<and> hc_in_use (cs ! j)}"

definition given_slot :: "(int \<times> conn_ref) option \<Rightarrow> nat set" where
  "given_slot r = (case r of Some (_, Slot i) \<Rightarrow> {i} | _ \<Rightarrow> {})"

lemma used_slots_Cons: "used_slots (x # xs) = (if hc_in_use x then {0} else {}) \<union> Suc ` used_slots xs"
proof (rule set_eqI)
  fix j
  show "j \<in> used_slots (x # xs) \<longleftrightarrow> j \<in> (if hc_in_use x then {0} else {}) \<union> Suc ` used_slots xs"
    by (cases j) (auto simp: used_slots_def)
qed

lemma reuse_scan_used:
  "reuse_scan pool now pollf h p cs = (cs', i, closed) \<Longrightarrow>
   length cs' = length cs \<and> used_slots cs' = used_slots cs \<union> set_option i"
proof (induction cs arbitrary: cs' i closed)
  case Nil
  then show ?case by (simp add: used_slots_def)
next
  case (Cons c cs)
  obtain cs1 i1 closed1 where rec: "reuse_scan pool now pollf h p cs = (cs1, i1, closed1)"
    by (cases "reuse_scan pool now pollf h p cs") auto
  show ?case using Cons.prems Cons.IH [OF rec]
    by (auto simp: rec used_slots_Cons image_Un option.set_map split: if_splits)
qed

lemma used_slots_set: "i < length cs \<Longrightarrow> hc_in_use c \<Longrightarrow> used_slots (cs[i := c]) = insert i (used_slots cs)"
  by (auto simp: used_slots_def nth_list_update_if split: if_splits)

lemma used_slots_clear: "\<not> hc_in_use c \<Longrightarrow> used_slots (cs[i := c]) = used_slots cs - {i}"
  by (auto simp: used_slots_def nth_list_update_if split: if_splits)

lemma place_conn_used:
  assumes "place_conn al now h p fd closed sa pool = r"
  shows "used_slots (hp_conns (ar_pool r)) = used_slots (hp_conns pool) \<union> given_slot (ar_conn r)"
proof (cases "find_index (\<lambda>c. hc_fd c < 0) (hp_conns pool)")
  case (Some i)
  then have "i < length (hp_conns pool)" by (simp add: find_index_Some)
  then show ?thesis using assms Some by (auto simp: place_conn_def given_slot_def used_slots_set)
next
  case None
  show ?thesis
  proof (cases "oldest_idle 0 (hp_conns pool) now None")
    case (Some i)
    then have "i < length (hp_conns pool)"
      using oldest_idle_found [of 0 "hp_conns pool" now None i] by auto
    then show ?thesis using assms Some None by (auto simp: place_conn_def given_slot_def used_slots_set)
  next
    case none: None
    show ?thesis using assms None none by (cases "al 0") (auto simp: place_conn_def given_slot_def)
  qed
qed

lemma acquire_used:
  assumes "vwasm_http_pool_acquire al clk pollf gai conn pool h p tm exempt = r"
  shows "used_slots (hp_conns (ar_pool r)) = used_slots (hp_conns pool) \<union> given_slot (ar_conn r)"
  using assms
proof (cases rule: acquire_cases)
  case (new q q' cs closed)
  have cs: "used_slots cs = used_slots (hp_conns pool)"
  proof (cases exempt)
    case True
    from reuse_scan_used [OF new(1) [OF this]] show ?thesis by simp
  qed (use new(2) in simp)
  from new(4) [symmetric] show ?thesis
  proof (cases rule: acquire_new_cases)
    case (placed sa fd tv closed' q2)
    then show ?thesis using place_conn_used [OF placed(5) [symmetric]] cs new(3) by simp
  qed (simp_all add: given_slot_def cs new(3))
qed (auto simp: given_slot_def dest: reuse_scan_used)

lemma place_conn_ref:
  assumes "fd \<ge> 0" "conns_inv (hp_conns pool)" "place_conn al now h p fd closed sa pool = r"
    and "ar_conn r = Some (fd', ref)"
  shows "case ref of Slot i \<Rightarrow> i < length (hp_conns (ar_pool r)) \<and> i \<notin> used_slots (hp_conns pool)
    | Overflow c \<Rightarrow> hc_fd c = fd' \<and> fd' \<ge> 0"
  using place_conn_slots [OF assms(1-3)] assms
  by (auto simp: place_conn_def used_slots_def split: conn_ref.splits option.splits if_splits)

lemma acquire_ref:
  assumes "conns_inv (hp_conns pool)" "vwasm_http_pool_acquire al clk pollf gai conn pool h p tm exempt = r"
    and ref: "ar_conn r = Some (fd, ref)"
  shows "case ref of Slot i \<Rightarrow> i < length (hp_conns (ar_pool r)) \<and> i \<notin> used_slots (hp_conns pool)
    | Overflow c \<Rightarrow> hc_fd c = fd \<and> fd \<ge> 0"
  using assms(2)
proof (cases rule: acquire_cases)
  case (reused q cs i closed)
  then show ?thesis using reuse_scan_slots [OF reused(3)] ref by (auto simp: used_slots_def)
next
  case (new q q' cs closed)
  have scan: "conns_inv cs" "used_slots cs = used_slots (hp_conns pool)"
    using new(1,2) reuse_scan_slots [of q' "clk 1" pollf h p "hp_conns pool" cs None closed]
      reuse_scan_used [of q' "clk 1" pollf h p "hp_conns pool" cs None closed] assms(1)
    by (cases exempt; simp)+
  from new(4) [symmetric] show ?thesis
  proof (cases rule: acquire_new_cases)
    case (placed sa fd1 tv closed' q2)
    have "conns_inv (hp_conns q2)" using placed(4) new(3) scan(1) by simp
    from place_conn_ref [OF placed(3) this placed(5) [symmetric] ref] show ?thesis
      using placed(4) new(3) scan(2) by (simp split: conn_ref.splits)
  qed (use ref in auto)
qed (use ref in auto)

lemma release_fds:
  assumes "case ref of Slot i \<Rightarrow> i < length (hp_conns pool) | Overflow c \<Rightarrow> hc_fd c \<ge> 0"
    and "vwasm_http_pool_release now pool (Some ref) keep = (pool', closed)"
  shows "pool_fds (hp_conns pool') + mset closed =
      pool_fds (hp_conns pool) + (case ref of Slot _ \<Rightarrow> {#} | Overflow c \<Rightarrow> {#hc_fd c#}) \<and>
    (\<forall>i. ref = Slot i \<longrightarrow> \<not> hc_in_use (hp_conns pool' ! i) \<and>
       (\<not> keep \<longrightarrow> hc_fd (hp_conns pool' ! i) < 0) \<and>
       (\<forall>j. j \<noteq> i \<longrightarrow> hp_conns pool' ! j = hp_conns pool ! j))"
proof (cases ref)
  case (Slot i)
  then have i: "i < length (hp_conns pool)" using assms(1) by simp
  let ?c = "hp_conns pool ! i"
  show ?thesis
    using assms(2) Slot i
      pool_fds_update [OF i, of "?c\<lparr>hc_fd := -1, hc_in_use := False\<rparr>"]
      pool_fds_update [OF i, of "?c\<lparr>hc_in_use := False\<rparr>"]
      pool_fds_update [OF i, of "?c\<lparr>hc_in_use := False, hc_last_used := now\<rparr>"]
    by (auto simp: vwasm_http_pool_release_def Let_def split: if_splits)
next
  case (Overflow c)
  then show ?thesis using assms
    by (auto simp: vwasm_http_pool_release_def Let_def split: if_splits)
qed

lemma release_used:
  "vwasm_http_pool_release now pool (Some ref) keep = (pool', closed) \<Longrightarrow>
   used_slots (hp_conns pool') = used_slots (hp_conns pool) - (case ref of Slot i \<Rightarrow> {i} | Overflow _ \<Rightarrow> {})"
  by (auto simp: vwasm_http_pool_release_def Let_def used_slots_clear split: if_splits conn_ref.splits)

section \<open>Properties\<close>

text \<open>A callout that is not exempt never connects to a private address, and never rides on a
  pooled connection whose address was not checked: whenever it obtains a descriptor, a connection
  was made for it, to an address that the filter let through. This holds for every resolver
  answer, cached or not, and every pool.\<close>

theorem acquire_checks_address:
  "let r = vwasm_http_pool_acquire al clk pollf gai conn pool h p tm False in
   (case ar_dialed r of None \<Rightarrow> ar_conn r = None | Some sa \<Rightarrow> \<not> vwasm_http_addr_is_private (Some sa))"
  unfolding Let_def by (rule acquire_address)

text \<open>C30: no descriptor is lost, duplicated or closed twice by an acquire. The descriptors in the slots
  afterwards, those closed, and one handed out without a slot, together are exactly the descriptors in
  the slots before and the one opened by this call, for every outcome of the system calls, the
  allocator and the liveness checks.\<close>

theorem acquire_conserves_descriptors:
  "let r = vwasm_http_pool_acquire al clk pollf gai conn pool h p tm exempt in
   pool_fds (hp_conns (ar_pool r)) + mset (ar_closed r) + overflow_fds (ar_conn r) =
   pool_fds (hp_conns pool) + dialed_fd conn (ar_dialed r)"
  by (simp add: Let_def acquire_fds [OF refl])

text \<open>A connection has one user. Acquiring leaves every slot in use as it is, and the slot it hands
  out was not in use before, is in use after, and holds the returned descriptor for the requested
  port (and host, up to the 255 bytes a slot keeps).\<close>

theorem acquire_exclusive:
  assumes "conns_inv (hp_conns pool)" "nul_free h" "length h \<le> 255"
    and "vwasm_http_pool_acquire al clk pollf gai conn pool h p tm exempt = r"
  shows "conns_inv (hp_conns (ar_pool r)) \<and> length (hp_conns (ar_pool r)) = length (hp_conns pool) \<and>
    (\<forall>j < length (hp_conns pool). hc_in_use (hp_conns pool ! j) \<longrightarrow>
        hp_conns (ar_pool r) ! j = hp_conns pool ! j) \<and>
    (\<forall>fd i. ar_conn r = Some (fd, Slot i) \<longrightarrow>
        i < length (hp_conns pool) \<and> \<not> hc_in_use (hp_conns pool ! i) \<and>
        (let c = hp_conns (ar_pool r) ! i in
         hc_in_use c \<and> hc_fd c = fd \<and> 0 \<le> fd \<and> hc_host c = h \<and> hc_port c = p))"
  using assms(4)
proof (cases rule: acquire_cases)
  case (rejected q)
  then show ?thesis using assms(1) by simp
next
  case (reused q cs i closed)
  then show ?thesis using reuse_scan_slots [OF reused(3)] assms(1) by (auto simp: Let_def)
next
  case (new q q' cs closed)
  have scan: "length cs = length (hp_conns pool) \<and> conns_inv cs \<and>
      (\<forall>j < length (hp_conns pool). hc_in_use (hp_conns pool ! j) \<longrightarrow> cs ! j = hp_conns pool ! j)"
    using new(1,2) reuse_scan_slots assms(1) by (cases exempt) auto
  have host: "strlcpy_to h 256 = h" using assms(2,3) by (simp add: strlcpy_to_id)
  from new(4) [symmetric] show ?thesis
  proof (cases rule: acquire_new_cases)
    case (placed sa fd tv closed' q2)
    have inv: "conns_inv (hp_conns q2)" using placed(4) new(3) scan by simp
    show ?thesis
      using place_conn_slots [OF placed(3) inv placed(5) [symmetric]] placed(3,4) new(3) scan host
      by (auto simp: Let_def)
  qed (use scan new(3) in auto)
qed

theorem acquire_exclusive_witness:
  "let r = vwasm_http_pool_acquire mem_ok (\<lambda>_. 5) (\<lambda>_. (0, False, False))
         (\<lambda>_ _. Some (SA_INET (replicate 4 (CHR 0x08)) 80))
         (\<lambda>_. \<lparr>ce_socket = 9, ce_nonblock_ok = True, ce_connect_ret = 0, ce_in_progress = False,
              ce_poll_ret = 0, ce_so_error_ok = True\<rparr>) pool0 ''api'' 80 0 False
   in ar_conn r = Some (9, Slot 0) \<and> hc_in_use (hp_conns (ar_pool r) ! 0)"
proof -
  define r where "r = vwasm_http_pool_acquire mem_ok (\<lambda>_. 5) (\<lambda>_. (0, False, False))
         (\<lambda>_ _. Some (SA_INET (replicate 4 (CHR 0x08)) 80))
         (\<lambda>_. \<lparr>ce_socket = 9, ce_nonblock_ok = True, ce_connect_ret = 0, ce_in_progress = False,
              ce_poll_ret = 0, ce_so_error_ok = True\<rparr>) pool0 ''api'' 80 0 False"
  have inv: "conns_inv (hp_conns pool0)"
    by (simp add: pool0_def vwasm_http_pool_new_def http_limits http_conn_zero_def conns_inv_def
        list_all_iff Let_def)
  have "ar_conn r = Some (9, Slot 0)"
    by (simp add: r_def vwasm_http_pool_acquire_def acquire_new_def vwasm_http_pool_cb_allow_def
        cb_find_or_create_def cb_set_def pool0_def vwasm_http_pool_new_def http_limits
        http_conn_zero_def vwasm_http_pool_resolve_def dns_store_def vwasm_http_addr_is_private_def
        inet_private_bytes octets_private_def connect_with_timeout_def place_conn_def Let_def
        numeral_eq_Suc)
  then show ?thesis
    using acquire_exclusive [OF inv _ _ r_def [symmetric]] by (simp add: r_def [symmetric] Let_def)
qed

text \<open>Releasing gives a connection back or closes it, once. The descriptors in the slots afterwards
  and those closed are exactly the descriptors in the slots before and, for a connection without a
  slot, its own; a released slot is no longer in use, and it keeps its descriptor only on a
  keep-alive release.\<close>

theorem release_conserves_descriptors:
  assumes "case ref of Slot i \<Rightarrow> i < length (hp_conns pool) | Overflow c \<Rightarrow> hc_fd c \<ge> 0"
    and "vwasm_http_pool_release now pool (Some ref) keep = (pool', closed)"
  shows "pool_fds (hp_conns pool') + mset closed =
      pool_fds (hp_conns pool) + (case ref of Slot _ \<Rightarrow> {#} | Overflow c \<Rightarrow> {#hc_fd c#}) \<and>
    (\<forall>i. ref = Slot i \<longrightarrow> \<not> hc_in_use (hp_conns pool' ! i) \<and>
       (\<not> keep \<longrightarrow> hc_fd (hp_conns pool' ! i) < 0) \<and>
       (\<forall>j. j \<noteq> i \<longrightarrow> hp_conns pool' ! j = hp_conns pool ! j))"
  using assms by (rule release_fds)

theorem release_conserves_descriptors_witness:
  "let (pool', closed) = vwasm_http_pool_release 7
       (pool0\<lparr>hp_conns := [fresh_conn 4 ''api'' 80 1, fresh_conn 5 ''api'' 80 2]\<rparr>) (Some (Slot 0)) False
   in \<not> hc_in_use (hp_conns pool' ! 0) \<and> pool_fds (hp_conns pool') + mset closed = {#4, 5#}"
  using release_conserves_descriptors [where ref = "Slot 0" and now = 7 and keep = False and pool =
      "pool0\<lparr>hp_conns := [fresh_conn 4 ''api'' 80 1, fresh_conn 5 ''api'' 80 2]\<rparr>"]
  by (auto simp: pool_fds_def split: prod.splits)

section \<open>An interleaving of release and acquire\<close>

text \<open>The closing path of \<open>vwasm_http_pool_release\<close> writes \<open>fd\<close> and then \<open>in_use\<close> before it takes the
  lock, so these are two steps that other threads can see.\<close>

definition release_close_fd :: "nat \<Rightarrow> http_conn list \<Rightarrow> http_conn list \<times> int list" where
  "release_close_fd i cs =
     (let c = cs ! i in
      if hc_fd c \<ge> 0 then (cs[i := c\<lparr>hc_fd := -1\<rparr>], [hc_fd c]) else (cs, []))"

definition release_clear_use :: "nat \<Rightarrow> http_conn list \<Rightarrow> http_conn list" where
  "release_clear_use i cs = cs[i := (cs ! i)\<lparr>hc_in_use := False\<rparr>]"

lemma release_is_two_steps:
  assumes "i < length (hp_conns pool)"
  shows "hp_conns (fst (vwasm_http_pool_release now pool (Some (Slot i)) False)) =
    release_clear_use i (fst (release_close_fd i (hp_conns pool)))"
  using assms
  by (auto simp: vwasm_http_pool_release_def release_clear_use_def release_close_fd_def Let_def)


end
