(* ===== verification/Http_Parse.thy ===== *)
theory Http_Parse
  imports Prelude
begin

text \<open>
  The text routines of \<^verbatim>\<open>src/proxy_wasm_http.c\<close>: character classes, the checks on what a guest puts into a
  request, and the parsers for ports, sizes, upstreams and response headers. Each is proved equal to a
  reference definition or to do what its callers rely on.
\<close>

section \<open>Checks on request parts\<close>

definition pw_http_is_token_char :: "byte \<Rightarrow> bool" where
  "pw_http_is_token_char c \<longleftrightarrow>
     (48 \<le> byte_val c \<and> byte_val c \<le> 57) \<or> (65 \<le> byte_val c \<and> byte_val c \<le> 90) \<or>
     (97 \<le> byte_val c \<and> byte_val c \<le> 122) \<or>
     c \<in> {CHR ''!'', CHR ''#'', CHR ''$'', CHR ''%'', CHR ''&'', CHR 0x27, CHR ''*'', CHR ''+'',
          CHR ''-'', CHR ''.'', CHR ''^'', CHR ''_'', CHR 0x60, CHR ''|'', CHR ''~''}"

definition pw_http_has_line_ctl :: "bytes \<Rightarrow> bool" where
  "pw_http_has_line_ctl s \<longleftrightarrow> list_ex (\<lambda>c. c = NUL \<or> c = CR \<or> c = LF) s"

definition pw_http_host_ok :: "bytes \<Rightarrow> bool" where
  "pw_http_host_ok s \<longleftrightarrow> s \<noteq> [] \<and>
     list_all (\<lambda>c. \<not> (byte_val c \<le> byte_val SP \<or> byte_val c \<ge> 0x7f \<or> c = CHR ''/'')) s"

definition pw_http_method_ok :: "bytes \<Rightarrow> bool" where
  "pw_http_method_ok s \<longleftrightarrow> s \<noteq> [] \<and> list_all pw_http_is_token_char s"

definition pw_http_path_ok :: "bytes \<Rightarrow> bool" where
  "pw_http_path_ok s \<longleftrightarrow> s \<noteq> [] \<and>
     list_all (\<lambda>c. \<not> (byte_val c \<le> byte_val SP \<or> byte_val c \<ge> 0x7f)) s"

definition pw_http_header_name_ok :: "bytes \<Rightarrow> bool" where
  "pw_http_header_name_ok s \<longleftrightarrow> s \<noteq> [] \<and> list_all pw_http_is_token_char s"

definition pw_http_header_value_ok :: "bytes \<Rightarrow> bool" where
  "pw_http_header_value_ok s \<longleftrightarrow>
     list_all (\<lambda>c. \<not> (c = NUL \<or> c = CR \<or> c = LF \<or> byte_val c = 0x7f) \<and>
                   \<not> (byte_val c < byte_val SP \<and> c \<noteq> HT)) s"

definition INT_MAX :: nat where "INT_MAX = 2147483647"
definition SIZE_MAX :: nat where "SIZE_MAX = 18446744073709551615"

text \<open>\<open>snprintf\<close> of one header line at the end of \<open>dst\<close>, whose size is \<open>dst_sz\<close>. \<open>%.*s\<close> stops at a
  NUL, which the checks exclude.\<close>

definition pw_http_append_header :: "bytes \<Rightarrow> nat \<Rightarrow> bytes \<Rightarrow> bytes \<Rightarrow> bytes option" where
  "pw_http_append_header dst dst_sz key val =
     (if \<not> pw_http_header_name_ok key \<or> \<not> pw_http_header_value_ok val then None
      else if length key > INT_MAX \<or> length val > INT_MAX then None
      else if length dst \<ge> dst_sz then None
      else
        (let avail = dst_sz - length dst;
             line = cstr key @ '': '' @ cstr val @ [CR, LF]
         in if length line \<ge> avail then None else Some (dst @ line)))"

section \<open>Numbers and upstreams\<close>

fun parse_size_loop :: "nat \<Rightarrow> bool \<Rightarrow> bytes \<Rightarrow> nat option" where
  "parse_size_loop val digits [] = (if digits then Some val else None)"
| "parse_size_loop val digits (c # s) =
     (if is_blank c then
        (if skip_blanks (c # s) \<noteq> [] then None else if digits then Some val else None)
      else if \<not> is_digit c then None
      else if val > (SIZE_MAX - (byte_val c - 48)) div 10 then None
      else parse_size_loop (val * 10 + (byte_val c - 48)) True s)"

definition pw_http_parse_size :: "bytes \<Rightarrow> nat option" where
  "pw_http_parse_size s = parse_size_loop 0 False (skip_blanks s)"

fun parse_port_loop :: "nat \<Rightarrow> bytes \<Rightarrow> nat option" where
  "parse_port_loop val [] = Some val"
| "parse_port_loop val (c # s) =
     (if \<not> is_digit c then None
      else let val = val * 10 + (byte_val c - 48) in if val > 65535 then None else parse_port_loop val s)"

definition pw_http_parse_port :: "bytes \<Rightarrow> u16 option" where
  "pw_http_parse_port s =
     (if s = [] then None
      else case parse_port_loop 0 s of
             None \<Rightarrow> None
           | Some val \<Rightarrow> if val = 0 then None else Some (of_nat val))"

text \<open>The host and the port; \<open>host_sz\<close> is the size of the host buffer.\<close>

definition pw_http_parse_upstream :: "bytes \<Rightarrow> nat \<Rightarrow> (bytes \<times> u16) option" where
  "pw_http_parse_upstream upstream host_sz =
     (if upstream = [] \<or> length upstream \<ge> host_sz then None
      else if pw_http_has_line_ctl upstream then None
      else case memchr (CHR '':'') upstream of
             Some hlen \<Rightarrow>
               if hlen = 0 \<or> hlen \<ge> host_sz then None
               else if \<not> pw_http_host_ok (take hlen upstream) then None
               else (case pw_http_parse_port (drop (hlen + 1) upstream) of
                       None \<Rightarrow> None
                     | Some port \<Rightarrow> Some (take hlen upstream, port))
           | None \<Rightarrow> if \<not> pw_http_host_ok upstream then None else Some (upstream, 80))"

section \<open>Response headers\<close>

abbreviation CRLF :: bytes where "CRLF \<equiv> [CR, LF]"

text \<open>The line loop of \<open>pw_http_find_header_value\<close>: \<open>p\<close> is the buffer from the current line on, \<open>rest\<close> the
  number of header bytes left. The result is the value without surrounding blanks.\<close>

lemma strstr_crlf_pos: "strstr p CRLF = Some k \<Longrightarrow> k + 2 \<le> length p"
  using find_sub_Some [of CRLF "cstr p" k] length_cstr_le [of p] by (simp add: strstr_def)

function find_header_loop :: "bytes \<Rightarrow> nat \<Rightarrow> bytes \<Rightarrow> bytes option" where
  "find_header_loop p rest name =
     (if rest = 0 then None
      else case strstr p CRLF of
             None \<Rightarrow> None
           | Some k \<Rightarrow>
               if k > rest then None
               else if k = 0 then None
               else
                 (let line = take k p in
                  case memchr (CHR '':'') line of
                    Some col \<Rightarrow>
                      if col = length name \<and> strncaseeq (length name) line name
                      then Some (trim_end (skip_blanks (drop (col + 1) line)))
                      else find_header_loop (drop (k + 2) p) (rest - (k + 2)) name
                  | None \<Rightarrow> find_header_loop (drop (k + 2) p) (rest - (k + 2)) name))"
  by pat_completeness auto
termination
  by (relation "measure (\<lambda>(p, rest, name). rest)") auto

declare find_header_loop.simps [simp del]

definition pw_http_find_header_value :: "bytes \<Rightarrow> nat \<Rightarrow> bytes \<Rightarrow> bytes option" where
  "pw_http_find_header_value headers headers_len name =
     (case strstr headers CRLF of
        None \<Rightarrow> None
      | Some k \<Rightarrow>
          if k > headers_len then None
          else find_header_loop (drop (k + 2) headers) (headers_len - (k + 2)) name)"

function pw_http_value_has_token :: "bytes \<Rightarrow> bytes \<Rightarrow> bool" where
  "pw_http_value_has_token val token =
     (if val = [] then False
      else
        (let rest = dropWhile (\<lambda>c. is_blank c \<or> c = CHR '','') val;
             item = takeWhile (\<lambda>c. c \<noteq> CHR '','') rest;
             word = trim_end item
         in if length word = length token \<and> strncaseeq (length token) word token then True
            else if item = [] then False
            else pw_http_value_has_token (drop (length item) rest) token))"
  by pat_completeness auto
termination
proof (relation "measure (\<lambda>(v, t). length v)", goal_cases)
  case (2 val token rest item word)
  have "length rest \<le> length val" using 2(2) by (simp add: length_dropWhile_le)
  moreover have pos: "0 < length item" using 2(6) by simp
  moreover have "length item \<le> length rest" using 2(3) by (simp add: length_takeWhile_le)
  ultimately have "length rest - length item < length val" by linarith
  then show ?case by simp
qed simp

declare pw_http_value_has_token.simps [simp del]

section \<open>Lemmas\<close>

lemma byte_val_eq [simp]: "byte_val c = byte_val d \<longleftrightarrow> c = d"
  by (rule of_char_eq_iff)

lemma token_char_clean: "pw_http_is_token_char c \<Longrightarrow> c \<notin> {NUL, CR, LF, SP, CHR '':''}"
  by (auto simp: pw_http_is_token_char_def)

lemma visible_clean: "\<not> byte_val c \<le> byte_val SP \<Longrightarrow> c \<notin> {NUL, CR, LF, SP}"
  by auto

lemma method_clean: "pw_http_method_ok s \<Longrightarrow> {NUL, CR, LF, SP} \<inter> set s = {}"
  using token_char_clean by (fastforce simp: pw_http_method_ok_def list_all_iff)

lemma path_clean: "pw_http_path_ok s \<Longrightarrow> {NUL, CR, LF, SP} \<inter> set s = {}"
  using visible_clean by (fastforce simp: pw_http_path_ok_def list_all_iff)

lemma host_clean: "pw_http_host_ok s \<Longrightarrow> {NUL, CR, LF, SP} \<inter> set s = {}"
  using visible_clean by (fastforce simp: pw_http_host_ok_def list_all_iff)

lemma name_clean: "pw_http_header_name_ok s \<Longrightarrow> {NUL, CR, LF, SP, CHR '':''} \<inter> set s = {}"
  using token_char_clean by (fastforce simp: pw_http_header_name_ok_def list_all_iff)

lemma value_clean: "pw_http_header_value_ok s \<Longrightarrow> {NUL, CR, LF} \<inter> set s = {}"
  by (auto simp: pw_http_header_value_ok_def list_all_iff)

lemma undec_append: "undec (s @ t) = undec s * 10 ^ length t + undec t"
proof (induction t rule: rev_induct)
  case (snoc c t)
  then show ?case by (simp add: undec_snoc algebra_simps flip: append_assoc)
qed (simp add: undec_def)

lemma undec_Cons: "undec (c # s) = (byte_val c - 48) * 10 ^ length s + undec s"
  using undec_append [of "[c]" s] by (simp add: undec_def)

lemma size_step: "d < 10 \<Longrightarrow> (val > (SIZE_MAX - d) div 10) \<longleftrightarrow> SIZE_MAX < val * 10 + d"
  by (auto simp: SIZE_MAX_def not_le [symmetric] less_eq_div_iff_mult_less_eq)

lemma digit_lt: "is_digit c \<Longrightarrow> byte_val c - 48 < 10"
  by (auto simp: is_digit_def)

lemma digit_not_blank: "is_digit c \<Longrightarrow> \<not> is_blank c"
  by (auto simp: is_digit_def is_blank_def)

lemma skip_blanks_nil: "skip_blanks s = [] \<longleftrightarrow> list_all is_blank s"
  by (auto simp: skip_blanks_def dropWhile_eq_Nil_conv list_all_iff)

lemma trim_end_cons: "\<not> is_blank c \<Longrightarrow> trim_end (c # s) = c # trim_end s"
  by (simp add: trim_end_def dropWhile_append)

lemma trim_end_all: "list_all is_blank s \<Longrightarrow> trim_end s = []"
  by (simp add: trim_end_def list_all_iff)

lemma trim_end_keeps_blank:
  assumes "is_blank c" "\<not> list_all is_blank s"
  shows "\<not> list_all is_digit (trim_end (c # s))"
proof -
  have "trim_end (c # s) = c # trim_end s"
    using assms(2) by (auto simp: trim_end_def dropWhile_append list_all_iff dropWhile_eq_Nil_conv)
  then show ?thesis using assms(1) digit_not_blank by auto
qed

text \<open>The digit loop on a text that does not start with a blank.\<close>

lemma parse_size_loop_eq:
  "val \<le> SIZE_MAX \<Longrightarrow>
   parse_size_loop val digits s =
     (let t = trim_end s in
      if list_all is_digit t \<and> (digits \<or> t \<noteq> []) \<and> val * 10 ^ length t + undec t \<le> SIZE_MAX
      then Some (val * 10 ^ length t + undec t) else None)"
proof (induction s arbitrary: val digits)
  case Nil
  then show ?case by (simp add: trim_end_def undec_def)
next
  case (Cons c s)
  show ?case
  proof (cases "is_blank c")
    case True
    show ?thesis
    proof (cases "list_all is_blank s")
      case all: True
      then show ?thesis using True Cons.prems
        by (simp add: skip_blanks_nil trim_end_all undec_def)
    next
      case False
      then have "\<not> list_all is_digit (trim_end (c # s))"
        using True trim_end_keeps_blank by blast
      then show ?thesis using True False by (simp add: skip_blanks_nil)
    qed
  next
    case nb: False
    show ?thesis
    proof (cases "is_digit c")
      case False
      then show ?thesis using nb by (simp add: trim_end_cons Let_def)
    next
      case True
      let ?d = "byte_val c - 48"
      let ?t = "trim_end s"
      have eq: "val * 10 ^ length (c # ?t) + undec (c # ?t) = (val * 10 + ?d) * 10 ^ length ?t + undec ?t"
        by (simp add: undec_Cons algebra_simps)
      show ?thesis
      proof (cases "SIZE_MAX < val * 10 + ?d")
        case big: True
        have "val * 10 + ?d \<le> (val * 10 + ?d) * 10 ^ length ?t" by simp
        with big have "SIZE_MAX < (val * 10 + ?d) * 10 ^ length ?t" by (rule less_le_trans)
        then have "SIZE_MAX < (val * 10 + ?d) * 10 ^ length ?t + undec ?t" by (rule trans_less_add1)
        then show ?thesis using True nb big size_step [OF digit_lt [OF True]] eq
          by (simp add: trim_end_cons Let_def)
      next
        case False
        then show ?thesis using True nb size_step [OF digit_lt [OF True]] eq Cons.IH
          by (simp add: trim_end_cons Let_def)
      qed
    qed
  qed
qed

lemma parse_port_loop_eq:
  "val \<le> 65535 \<Longrightarrow> parse_port_loop val s =
     (if list_all is_digit s \<and> val * 10 ^ length s + undec s \<le> 65535
      then Some (val * 10 ^ length s + undec s) else None)"
proof (induction s arbitrary: val)
  case Nil
  then show ?case by (simp add: undec_def)
next
  case (Cons c s)
  let ?d = "byte_val c - 48"
  have eq: "val * 10 ^ length (c # s) + undec (c # s) = (val * 10 + ?d) * 10 ^ length s + undec s"
    by (simp add: undec_Cons algebra_simps)
  show ?case
  proof (cases "65535 < val * 10 + ?d")
    case True
    have "val * 10 + ?d \<le> (val * 10 + ?d) * 10 ^ length s" by simp
    with True have "65535 < (val * 10 + ?d) * 10 ^ length s" by (rule less_le_trans)
    then have "65535 < (val * 10 + ?d) * 10 ^ length s + undec s" by (rule trans_less_add1)
    then show ?thesis using True eq by (simp add: Let_def)
  next
    case False
    then show ?thesis using Cons.IH [of "val * 10 + ?d"] eq by (simp add: Let_def)
  qed
qed

lemma parse_port_eq:
  "pw_http_parse_port s =
     (if s \<noteq> [] \<and> list_all is_digit s \<and> 0 < undec s \<and> undec s \<le> 65535
      then Some (of_nat (undec s)) else None)"
  by (auto simp: pw_http_parse_port_def parse_port_loop_eq)

lemma no_line_ctl: "\<not> pw_http_has_line_ctl s \<longleftrightarrow> {NUL, CR, LF} \<inter> set s = {}"
  by (auto simp: pw_http_has_line_ctl_def list_ex_iff)

lemma parse_upstream_Some:
  assumes "pw_http_parse_upstream u sz = Some (h, p)"
  shows "pw_http_host_ok h" "length h < sz" "0 < unat p" "nul_free h" "CHR '':'' \<notin> set h"
proof -
  have *: "pw_http_host_ok h \<and> length h < sz \<and> 0 < unat p \<and> CHR '':'' \<notin> set h"
  proof (cases "memchr (CHR '':'') u")
    case None
    then have "CHR '':'' \<notin> set u" by (simp add: memchr_None)
    then show ?thesis using assms None
      by (auto simp: pw_http_parse_upstream_def split: if_splits)
  next
    case (Some k)
    have pos: "0 < unat (of_nat n :: u16)" if "0 < n" "n \<le> 65535" for n
      using that by (simp add: unat_of_nat take_bit_nat_eq_self)
    have "CHR '':'' \<notin> set (take k u)" using Some by (simp add: memchr_Some)
    then show ?thesis using assms Some pos
      by (auto simp: pw_http_parse_upstream_def parse_port_eq split: if_splits)
  qed
  then show "pw_http_host_ok h" "length h < sz" "0 < unat p" "CHR '':'' \<notin> set h" by auto
  from * show "nul_free h" using host_clean [of h] by (auto simp: nul_free_def)
qed

section \<open>Properties\<close>

text \<open>A \<open>Content-Length\<close> value is accepted exactly when, without the blanks around it, it is a
  nonempty run of digits whose value fits \<open>size_t\<close>; the result is that value, never a wrapped one.\<close>

theorem parse_size_reference:
  "pw_http_parse_size s =
     (let t = trim_end (skip_blanks s) in
      if t \<noteq> [] \<and> list_all is_digit t \<and> undec t \<le> SIZE_MAX then Some (undec t) else None)"
  by (auto simp: pw_http_parse_size_def parse_size_loop_eq Let_def)

text \<open>Upstreams round trip. Every host the checks accept, without a colon, and every port from 1 to
  65535 is parsed back from its \<open>host:port\<close> text, the text the allowlist is compared with; and a
  parsed host is always one the checks accept.\<close>

theorem parse_upstream_roundtrip:
  assumes "pw_http_host_ok h" "CHR '':'' \<notin> set h" "0 < unat p"
    and "length (h @ '':'' @ dec (unat p)) < sz"
  shows "pw_http_parse_upstream (h @ '':'' @ dec (unat p)) sz = Some (h, p) \<and>
    (\<forall>u h' p'. pw_http_parse_upstream u sz = Some (h', p') \<longrightarrow>
       pw_http_host_ok h' \<and> CHR '':'' \<notin> set h' \<and> 0 < unat p' \<and> length h' < sz)"
proof -
  let ?u = "h @ '':'' @ dec (unat p)"
  have digits: "list_all is_digit (dec (unat p))" using dec_digits by (simp add: list_all_iff)
  have "c \<notin> {NUL, CR, LF}" if "c \<in> set (dec (unat p))" for c
    using digits that by (auto simp: list_all_iff is_digit_def)
  then have "\<not> pw_http_has_line_ctl ?u" using host_clean [OF assms(1)] by (auto simp: no_line_ctl)
  moreover have "h \<noteq> []" using assms(1) by (simp add: pw_http_host_ok_def)
  moreover have "memchr (CHR '':'') ?u = Some (length h)" using memchr_append [OF assms(2)] by simp
  moreover have "pw_http_parse_port (dec (unat p)) = Some p"
    using digits assms(3) unsigned_less [of p, where 'a = nat] by (simp add: parse_port_eq)
  ultimately have "pw_http_parse_upstream ?u sz = Some (h, p)"
    using assms(1,4) by (simp add: pw_http_parse_upstream_def)
  then show ?thesis using parse_upstream_Some by blast
qed

theorem parse_upstream_roundtrip_witness:
  "pw_http_parse_upstream (''api.internal'' @ '':'' @ dec (unat (8443 :: u16))) 256 = Some (''api.internal'', 8443)"
proof -
  have "length (dec 8443) \<le> 4" by (rule dec_length) simp_all
  then show ?thesis
    using parse_upstream_roundtrip [of "''api.internal''" 8443 256] by (simp add: pw_http_host_ok_def)
qed

end
