(* ===== verification/Http_Call.thy ===== *)
theory Http_Call
  imports Proxy_Context Http_Parse Http_Conns
begin

text \<open>
  The callout host function \<open>pw_proxy_http_call\<close> of \<^verbatim>\<open>src/proxy_wasm_http.c\<close>, in the stages the C
  function has: rate limit, upstream and allowlist, request headers, request text, connection, send,
  read, release and breaker report, response parsing, token. The network is the record
  \<open>net_env\<close>: what the system calls of this call return. The result carries, besides the context, the
  pool and the status, the texts handed to the socket and the descriptors closed.
\<close>

section \<open>The network\<close>

text \<open>\<open>ne_read k\<close> is what the \<open>k\<close>-th successful or final read would deliver (empty for end of file or
  an error); a read delivers at most what was asked for. \<open>ne_write\<close> is whether a text is written in full.\<close>

record net_env =
  ne_al :: malloc
  ne_al_pool :: malloc
  ne_clk :: "nat \<Rightarrow> int"
  ne_poll :: "int \<Rightarrow> poll_result"
  ne_gai :: resolver
  ne_gai_all :: "bytes \<Rightarrow> bytes \<Rightarrow> sockaddr list option"
  ne_conn :: "sockaddr \<Rightarrow> connect_env"
  ne_write :: "bytes \<Rightarrow> bool"
  ne_read :: "nat \<Rightarrow> bytes"

section \<open>Connecting without a pool\<close>

text \<open>The descriptor or -1, the descriptors closed, and the addresses a connection was attempted to.\<close>

fun http_connect_loop ::
  "bool \<Rightarrow> (sockaddr \<Rightarrow> connect_env) \<Rightarrow> sockaddr list \<Rightarrow> int \<times> int list \<times> sockaddr list" where
  "http_connect_loop ssrf_exempt conn [] = (-1, [], [])"
| "http_connect_loop ssrf_exempt conn (sa # res) =
     (if \<not> ssrf_exempt \<and> vwasm_http_addr_is_private (Some sa) then http_connect_loop ssrf_exempt conn res
      else
        (let e = conn sa; fd = ce_socket e in
         if fd < 0 then
           (case http_connect_loop ssrf_exempt conn res of (r, closed, ds) \<Rightarrow> (r, closed, sa # ds))
         else if ce_connect_ret e = 0 then (fd, [], [sa])
         else if ce_in_progress e \<and> ce_poll_ret e > 0 \<and> ce_so_error_ok e then (fd, [], [sa])
         else case http_connect_loop ssrf_exempt conn res of (r, closed, ds) \<Rightarrow> (r, fd # closed, sa # ds)))"

definition pw_http_connect ::
  "net_env \<Rightarrow> bytes \<Rightarrow> u16 \<Rightarrow> bool \<Rightarrow> int \<times> int list \<times> sockaddr list" where
  "pw_http_connect ne host port ssrf_exempt =
     (case ne_gai_all ne host (dec (unat port)) of
        None \<Rightarrow> (-1, [], [])
      | Some res \<Rightarrow> http_connect_loop ssrf_exempt (ne_conn ne) res)"

section \<open>The request\<close>

definition timeout_of :: "u32 \<Rightarrow> u32 \<Rightarrow> u32" where
  "timeout_of arg configured =
     (let t = (if arg = 0 then configured else arg);
          t = (if t = 0 then 5000 else t)
      in if t > 30000 then 30000 else t)"

text \<open>The allowlist: \<open>None\<close> refuses the upstream, otherwise whether it is exempt from the address filter.\<close>

definition allowlist_check :: "bytes list option \<Rightarrow> bytes \<Rightarrow> u16 \<Rightarrow> bool option" where
  "allowlist_check allowed host port =
     (case allowed of
        Some (a # as) \<Rightarrow> if upstream_key host port \<in> set (a # as) then Some True else None
      | _ \<Rightarrow> Some False)"

text \<open>One round of the pair loop over the serialized headers \<open>d\<close>: pair number \<open>hi\<close>, the offset of its
  name, and the method, the path and the extra header lines so far.\<close>

definition header_pair_step ::
  "bytes \<Rightarrow> nat \<Rightarrow> nat \<times> bytes \<times> bytes \<times> bytes \<Rightarrow> (nat \<times> bytes \<times> bytes \<times> bytes) option" where
  "header_pair_step d hi st =
     (case st of (off, meth, path, extra) \<Rightarrow>
        (let ks = unat (get32 (drop (4 + hi * 8) d)); vs = unat (get32 (drop (4 + hi * 8 + 4) d)) in
         if ks + 1 > length d - off then None
         else if d ! (off + ks) \<noteq> NUL then None
         else
           (let k = chunk off ks d; off2 = off + ks + 1 in
            if vs + 1 > length d - off2 then None
            else if d ! (off2 + vs) \<noteq> NUL then None
            else
              (let v = chunk off2 vs d; off3 = off2 + vs + 1 in
               if ks = 7 \<and> k = '':method'' then Some (off3, v, path, extra)
               else if ks = 5 \<and> k = '':path'' then Some (off3, meth, v, extra)
               else if ks > 0 \<and> k ! 0 \<noteq> CHR '':'' then
                 (case pw_http_append_header extra 4096 k v of
                    None \<Rightarrow> None
                  | Some extra \<Rightarrow> Some (off3, meth, path, extra))
               else Some (off3, meth, path, extra)))))"

primrec header_pairs_loop ::
  "nat \<Rightarrow> bytes \<Rightarrow> nat \<Rightarrow> nat \<times> bytes \<times> bytes \<times> bytes \<Rightarrow> (bytes \<times> bytes \<times> bytes) option" where
  "header_pairs_loop 0 d hi st = Some (snd st)"
| "header_pairs_loop (Suc n) d hi st =
     (case header_pair_step d hi st of None \<Rightarrow> None | Some st' \<Rightarrow> header_pairs_loop n d (hi + 1) st')"

definition parse_request_headers ::
  "'z guest_scheme \<Rightarrow> u32 \<Rightarrow> u32 \<Rightarrow> (bytes \<times> bytes \<times> bytes) option" where
  "parse_request_headers ctx headers_ptr headers_size =
     (if headers_size = 0 then Some (''GET'', ''/'', [])
      else if headers_size < 4 \<or> \<not> pw_validate_region ctx headers_ptr headers_size then None
      else case pw_mem_ptr ctx headers_ptr of
             None \<Rightarrow> None
           | Some p \<Rightarrow>
               (let d = chunk p (unat headers_size) (memory ctx);
                    num_pairs = unat (get32 d)
                in if num_pairs > 64 then None
                   else if 4 + num_pairs * 8 > unat headers_size then None
                   else header_pairs_loop num_pairs d 0 (4 + num_pairs * 8, ''GET'', ''/'', [])))"

definition request_text :: "bytes \<Rightarrow> bytes \<Rightarrow> bytes \<Rightarrow> u32 \<Rightarrow> bool \<Rightarrow> bytes \<Rightarrow> bytes" where
  "request_text meth path host body_size keep extra =
     cstr meth @ '' '' @ cstr path @ '' HTTP/1.1'' @ CRLF @ ''Host: '' @ cstr host @ CRLF @
     (if body_size > 0 then ''Content-Length: '' @ dec (unat body_size) @ CRLF else []) @
     (if keep then ''Connection: keep-alive'' else ''Connection: close'') @ CRLF @ cstr extra @ CRLF"

section \<open>The response\<close>

definition PW_HTTP_MAX_RESPONSE :: nat where "PW_HTTP_MAX_RESPONSE = 256 * 1024"

abbreviation HDR_END :: bytes where "HDR_END \<equiv> [CR, LF, CR, LF]"

text \<open>Phase 1: read until the blank line. The buffer, the number of reads made, and the offset of the
  blank line.\<close>

function read_header_phase :: "(nat \<Rightarrow> bytes) \<Rightarrow> nat \<Rightarrow> bytes \<Rightarrow> bytes \<times> nat \<times> nat option" where
  "read_header_phase rd k buf =
     (if length buf < PW_HTTP_MAX_RESPONSE then
        (let d = take (PW_HTTP_MAX_RESPONSE - length buf) (rd k) in
         if d = [] then (buf, k + 1, None)
         else case strstr (buf @ d) HDR_END of
                Some e \<Rightarrow> (buf @ d, k + 1, Some e)
              | None \<Rightarrow> read_header_phase rd (k + 1) (buf @ d))
      else (buf, k, None))"
  by pat_completeness auto
termination
proof (relation "measure (\<lambda>(rd, k, buf). PW_HTTP_MAX_RESPONSE - length buf)", goal_cases)
  case (2 rd k buf d)
  then have "0 < length d" by simp
  then have "PW_HTTP_MAX_RESPONSE - (length buf + length d) < PW_HTTP_MAX_RESPONSE - length buf"
    using 2(1) by linarith
  then show ?case by simp
qed simp

declare read_header_phase.simps [simp del]

text \<open>Phase 2: read the rest of a body of known length. The buffer and how much is still missing.\<close>

function read_body_phase :: "(nat \<Rightarrow> bytes) \<Rightarrow> nat \<Rightarrow> bytes \<Rightarrow> nat \<Rightarrow> bytes \<times> nat" where
  "read_body_phase rd k buf need =
     (if need > 0 then
        (let room = PW_HTTP_MAX_RESPONSE - length buf in
         if room = 0 then (buf, need)
         else
           (let d = take (if need < room then need else room) (rd k) in
            if d = [] then (buf, need)
            else read_body_phase rd (k + 1) (buf @ d) (need - length d)))
      else (buf, need))"
  by pat_completeness auto
termination
proof (relation "measure (\<lambda>(rd, k, buf, need). need)", goal_cases)
  case (2 rd k buf need room d)
  then have "length d \<noteq> 0" by simp
  then show ?case using 2(1) by (simp del: length_0_conv)
qed simp

declare read_body_phase.simps [simp del]

record response_read =
  rr_buf :: bytes
  rr_complete :: bool
  rr_reusable :: bool
  rr_status :: proxy_status

definition read_response :: "(nat \<Rightarrow> bytes) \<Rightarrow> bool \<Rightarrow> response_read" where
  "read_response rd ssrf_exempt =
     (case read_header_phase rd 0 [] of
        (buf, k, None) \<Rightarrow>
          \<lparr>rr_buf = buf, rr_complete = False, rr_reusable = False, rr_status = PROXY_PARSE_FAILURE\<rparr>
      | (buf, k, Some e) \<Rightarrow>
          (let header_bytes = e + 4;
               http11 = (length buf \<ge> 8 \<and> take 8 buf = ''HTTP/1.1'');
               fail = (\<lambda>b st. \<lparr>rr_buf = b, rr_complete = False, rr_reusable = False, rr_status = st\<rparr>)
           in if (case pw_http_find_header_value buf header_bytes ''Transfer-Encoding'' of
                    None \<Rightarrow> False | Some v \<Rightarrow> pw_http_value_has_token v ''chunked'')
              then fail buf PROXY_UNIMPLEMENTED
              else
                (let conn_close = (case pw_http_find_header_value buf header_bytes ''Connection'' of
                       None \<Rightarrow> False | Some v \<Rightarrow> pw_http_value_has_token v ''close'')
                 in case pw_http_find_header_value buf header_bytes ''Content-Length'' of
                      Some v \<Rightarrow>
                        (case pw_http_parse_size v of
                           None \<Rightarrow> fail buf PROXY_PARSE_FAILURE
                         | Some content_length \<Rightarrow>
                             if content_length > PW_HTTP_MAX_RESPONSE - header_bytes
                             then fail buf PROXY_INTERNAL
                             else
                               (let body_have = length buf - header_bytes in
                                if body_have > content_length
                                then \<lparr>rr_buf = take (header_bytes + content_length) buf, rr_complete = True,
                                      rr_reusable = False, rr_status = PROXY_OK\<rparr>
                                else
                                  (case read_body_phase rd k buf (content_length - body_have) of
                                     (buf, need) \<Rightarrow>
                                       if need = 0
                                       then \<lparr>rr_buf = buf, rr_complete = True,
                                             rr_reusable = http11 \<and> \<not> conn_close \<and> ssrf_exempt,
                                             rr_status = PROXY_OK\<rparr>
                                       else fail buf PROXY_INTERNAL)))
                    | None \<Rightarrow>
                        if length buf = header_bytes
                        then \<lparr>rr_buf = buf, rr_complete = True, rr_reusable = False, rr_status = PROXY_OK\<rparr>
                        else fail buf PROXY_PARSE_FAILURE)))"

section \<open>Parsing the response\<close>

text \<open>\<open>for (i = 0; i + 3 < len; i++)\<close> up to the blank line: its offset.\<close>

definition blank_line_offset :: "bytes \<Rightarrow> nat option" where
  "blank_line_offset buf = find_sub HDR_END buf"

text \<open>\<open>while (p < end) { count++; skip to after the next newline }\<close>\<close>

function count_lines :: "bytes \<Rightarrow> nat" where
  "count_lines s = (if s = [] then 0 else 1 + count_lines (drop 1 (dropWhile (\<lambda>c. c \<noteq> LF) s)))"
  by pat_completeness auto
termination
proof (relation "measure length", goal_cases)
  case (2 s)
  have "length (dropWhile (\<lambda>c. c \<noteq> LF) s) \<le> length s" by (rule length_dropWhile_le)
  then show ?case using 2 by (cases s) auto
qed simp

declare count_lines.simps [simp del]

text \<open>The body and the number of headers of a complete response.\<close>

definition parse_response :: "bytes \<Rightarrow> bytes option \<times> u32" where
  "parse_response buf =
     (case blank_line_offset buf of
        None \<Rightarrow> (None, 0)
      | Some i \<Rightarrow>
          (Some (drop (i + 4) buf),
           if i > 0 then of_nat (count_lines (drop 1 (dropWhile (\<lambda>c. c \<noteq> LF) (take i buf)))) else 0))"

section \<open>The callout\<close>

text \<open>\<open>vwasm_http_call_cmp\<close> orders the callout tree by token; insertion keeps an entry that is there.\<close>

definition vwasm_http_call_cmp :: "http_call_entry \<Rightarrow> http_call_entry \<Rightarrow> int" where
  "vwasm_http_call_cmp a b =
     (if hce_token a < hce_token b then -1 else if hce_token a > hce_token b then 1 else 0)"

fun http_calls_insert :: "http_call_entry \<Rightarrow> http_call_entry list \<Rightarrow> http_call_entry list" where
  "http_calls_insert e [] = [e]"
| "http_calls_insert e (x # xs) =
     (if vwasm_http_call_cmp e x < 0 then e # x # xs
      else if vwasm_http_call_cmp e x > 0 then x # http_calls_insert e xs
      else x # xs)"

record call_result =
  cr_ctx :: proxy_ctx
  cr_pool :: "http_pool option"
  cr_status :: proxy_status
  cr_sent :: "bytes list"
  cr_closed :: "int list"
  cr_dialed :: "sockaddr list"

text \<open>The connection: from the pool if there is one. The pool, the connection (descriptor and, from a
  pool, its reference), the descriptors closed and the addresses dialed.\<close>

definition call_connect ::
  "net_env \<Rightarrow> http_pool option \<Rightarrow> bytes \<Rightarrow> u16 \<Rightarrow> u32 \<Rightarrow> bool
   \<Rightarrow> http_pool option \<times> (int \<times> conn_ref option) option \<times> int list \<times> sockaddr list" where
  "call_connect ne poolp host port timeout_ms ssrf_exempt =
     (case poolp of
        Some pool \<Rightarrow>
          (let r = vwasm_http_pool_acquire (ne_al_pool ne) (ne_clk ne) (ne_poll ne) (ne_gai ne) (ne_conn ne)
                     pool host port timeout_ms ssrf_exempt
           in (Some (ar_pool r), map_option (\<lambda>(fd, c). (fd, Some c)) (ar_conn r), ar_closed r,
               case ar_dialed r of None \<Rightarrow> [] | Some sa \<Rightarrow> [sa]))
      | None \<Rightarrow>
          (case pw_http_connect ne host port ssrf_exempt of (fd, closed, d) \<Rightarrow>
             (None, if fd < 0 then None else Some (fd, None), closed, d)))"

text \<open>Giving the connection up: to the pool with \<open>keep\<close>, or by closing it; and the breaker report.\<close>

definition call_finish ::
  "net_env \<Rightarrow> http_pool option \<Rightarrow> bytes \<Rightarrow> u16 \<Rightarrow> int \<times> conn_ref option \<Rightarrow> bool \<Rightarrow> bool
   \<Rightarrow> http_pool option \<times> int list" where
  "call_finish ne poolp host port conn keep ok =
     (let (poolp, closed) =
            (case (poolp, snd conn) of
               (Some pool, Some ref) \<Rightarrow>
                 (case vwasm_http_pool_release (ne_clk ne 3) pool (Some ref) keep of (p, c) \<Rightarrow> (Some p, c))
             | _ \<Rightarrow> (poolp, [fst conn]))
      in (if ok then vwasm_http_pool_cb_success (ne_clk ne 4) poolp host port
          else vwasm_http_pool_cb_failure (ne_clk ne 4) poolp host port, closed))"

text \<open>The token and the response entry.\<close>

definition call_store ::
  "net_env \<Rightarrow> proxy_ctx \<Rightarrow> bytes \<Rightarrow> u32 \<Rightarrow> proxy_ctx \<times> proxy_status" where
  "call_store ne ctx buf ret_ptr =
     (let token_id = http_call_next_token ctx + 1;
          ctx = ctx\<lparr>http_call_next_token := token_id\<rparr>
      in if \<not> ne_al ne 1 then (ctx, PROXY_INTERNAL)
         else
           (let (body, num_headers) = parse_response buf;
                ent = \<lparr>hce_token = token_id,
                       hce_response = \<lparr>hcr_raw = Some buf, hcr_num_headers = num_headers,
                                       hcr_body = body, hcr_valid = True\<rparr>\<rparr>;
                ctx1 = ctx\<lparr>http_calls := http_calls_insert ent (http_calls ctx)\<rparr>
            in case pw_write_u32 ctx1 ret_ptr token_id of
                 (_, False) \<Rightarrow> (ctx, PROXY_INTERNAL)
               | (ctx2, True) \<Rightarrow> (ctx2, PROXY_OK)))"

text \<open>Sending and receiving on an open connection. \<open>body\<close> is the request body in guest memory.\<close>

definition call_exchange ::
  "net_env \<Rightarrow> proxy_ctx \<Rightarrow> http_pool option \<Rightarrow> bytes \<Rightarrow> u16 \<Rightarrow> int \<times> conn_ref option \<Rightarrow> bytes \<Rightarrow> bytes
   \<Rightarrow> bool \<Rightarrow> u32 \<Rightarrow> int list \<Rightarrow> sockaddr list \<Rightarrow> call_result" where
  "call_exchange ne ctx poolp host port conn req body ssrf_exempt ret_ptr closed dialed =
     (let give_up = (\<lambda>st sent. case call_finish ne poolp host port conn False False of (p, c) \<Rightarrow>
            \<lparr>cr_ctx = ctx, cr_pool = p, cr_status = st, cr_sent = sent, cr_closed = closed @ c,
             cr_dialed = dialed\<rparr>)
      in if \<not> ne_write ne req then give_up PROXY_INTERNAL [req]
         else if body \<noteq> [] \<and> \<not> ne_write ne body then give_up PROXY_INTERNAL [req, body]
         else if \<not> ne_al ne 0 then give_up PROXY_INTERNAL (if body = [] then [req] else [req, body])
         else
           (let rr = read_response (ne_read ne) ssrf_exempt;
                (p, c) = call_finish ne poolp host port conn (rr_reusable rr) (rr_complete rr);
                (ctx, st) = (if \<not> rr_complete rr \<or> rr_buf rr = [] then (ctx, rr_status rr)
                             else call_store ne ctx (rr_buf rr) ret_ptr)
            in \<lparr>cr_ctx = ctx, cr_pool = p, cr_status = st,
                cr_sent = (if body = [] then [req] else [req, body]), cr_closed = closed @ c,
                cr_dialed = dialed\<rparr>))"

text \<open>Everything before the connection: the host, the port, whether it is exempt, the request text and the
  body, or the status to return.\<close>

definition call_prepare ::
  "proxy_ctx \<Rightarrow> bool \<Rightarrow> (nat \<Rightarrow> u32) \<Rightarrow> proxy_status + (bytes \<times> u16 \<times> bool \<times> bytes \<times> bytes)" where
  "call_prepare ctx has_pool args =
     (case pw_read_string ctx (args 0) (args 1) 256 of
        None \<Rightarrow> Inl PROXY_BAD_ARGUMENT
      | Some upstream \<Rightarrow>
          (case pw_http_parse_upstream upstream 256 of
             None \<Rightarrow> Inl PROXY_BAD_ARGUMENT
           | Some (host, port) \<Rightarrow>
               (case allowlist_check (allowed_upstreams ctx) host port of
                  None \<Rightarrow> Inl PROXY_BAD_ARGUMENT
                | Some ssrf_exempt \<Rightarrow>
                    (case parse_request_headers ctx (args 2) (args 3) of
                       None \<Rightarrow> Inl PROXY_BAD_ARGUMENT
                     | Some (meth, path, extra) \<Rightarrow>
                         if \<not> pw_http_method_ok meth \<or> \<not> pw_http_path_ok path \<or>
                            length meth > INT_MAX \<or> length path > INT_MAX then Inl PROXY_BAD_ARGUMENT
                         else if args 5 > 0 \<and> \<not> pw_validate_region ctx (args 4) (args 5)
                         then Inl PROXY_BAD_ARGUMENT
                         else
                           (let req = request_text meth path host (args 5) (has_pool \<and> ssrf_exempt) extra
                            in if length req \<ge> 8192 then Inl PROXY_INTERNAL
                               else Inr (host, port, ssrf_exempt, req,
                                         chunk (unat (args 4)) (unat (args 5)) (memory ctx)))))))"

definition pw_proxy_http_call ::
  "net_env \<Rightarrow> proxy_ctx \<Rightarrow> http_pool option \<Rightarrow> (nat \<Rightarrow> u32) \<Rightarrow> call_result" where
  "pw_proxy_http_call ne ctx poolp args =
     (let stop = (\<lambda>ctx p st closed d. \<lparr>cr_ctx = ctx, cr_pool = p, cr_status = st, cr_sent = [],
                    cr_closed = closed, cr_dialed = d\<rparr>)
      in if http_call_max ctx > 0 \<and> http_call_count ctx \<ge> http_call_max ctx
         then stop ctx poolp PROXY_BAD_ARGUMENT [] []
         else
           (let ctx = ctx\<lparr>http_call_count := http_call_count ctx + 1\<rparr>;
                timeout_ms = timeout_of (args 8) (http_timeout_ms ctx)
            in case call_prepare ctx (poolp \<noteq> None) args of
                 Inl st \<Rightarrow> stop ctx poolp st [] []
               | Inr (host, port, ssrf_exempt, req, body) \<Rightarrow>
                   (case call_connect ne poolp host port timeout_ms ssrf_exempt of
                      (p, None, closed, d) \<Rightarrow>
                        stop ctx (vwasm_http_pool_cb_failure (ne_clk ne 4) p host port) PROXY_INTERNAL closed d
                    | (p, Some conn, closed, d) \<Rightarrow>
                        call_exchange ne ctx p host port conn req body ssrf_exempt (args 9) closed d)))"

section \<open>Lemmas: the request text\<close>

definition clean_line :: "bytes \<Rightarrow> bool" where
  "clean_line l \<longleftrightarrow> {NUL, CR, LF} \<inter> set l = {}"

definition header_lines :: "bytes list \<Rightarrow> bytes" where
  "header_lines ls = concat (map (\<lambda>l. l @ CRLF) ls)"

text \<open>Header lines made of a name and a value that pass the checks.\<close>

definition extra_line :: "bytes \<Rightarrow> bool" where
  "extra_line l \<longleftrightarrow> (\<exists>k v. l = k @ '': '' @ v \<and> pw_http_header_name_ok k \<and> pw_http_header_value_ok v)"

lemma extra_line_clean: "extra_line l \<Longrightarrow> clean_line l"
proof -
  assume "extra_line l"
  then obtain k v where "l = k @ '': '' @ v" "pw_http_header_name_ok k" "pw_http_header_value_ok v"
    unfolding extra_line_def by blast
  then show "clean_line l" using name_clean [of k] value_clean [of v] by (auto simp: clean_line_def)
qed

lemma append_header_line:
  assumes "pw_http_append_header dst sz k v = Some dst'"
  shows "\<exists>l. extra_line l \<and> dst' = dst @ l @ CRLF"
proof -
  have ok: "pw_http_header_name_ok k" "pw_http_header_value_ok v"
    using assms by (auto simp: pw_http_append_header_def split: if_splits)
  then have "cstr k = k" "cstr v = v"
    using name_clean [OF ok(1)] value_clean [OF ok(2)] by (auto simp: nul_free_def intro!: cstr_id)
  then have "dst' = dst @ (k @ '': '' @ v) @ CRLF"
    using assms by (auto simp: pw_http_append_header_def Let_def split: if_splits)
  then show ?thesis using ok unfolding extra_line_def by blast
qed

lemma pair_step_extra:
  assumes "header_pair_step d hi (off, m, p, x) = Some (off', m', p', x')"
    and "x = header_lines es" "list_all extra_line es"
  shows "\<exists>es'. x' = header_lines es' \<and> list_all extra_line es'"
proof -
  consider "x' = x" | k v where "pw_http_append_header x 4096 k v = Some x'"
    using assms(1) by (auto simp: header_pair_step_def Let_def split: if_splits option.splits)
  then show ?thesis
  proof cases
    case 1
    then show ?thesis using assms(2,3) by blast
  next
    case (2 k v)
    from append_header_line [OF 2] obtain l where "extra_line l" "x' = x @ l @ CRLF" by blast
    then show ?thesis using assms(2,3)
      by (intro exI [of _ "es @ [l]"]) (simp add: header_lines_def)
  qed
qed

lemma pairs_loop_extra:
  "header_pairs_loop n d hi (off, m, p, header_lines es) = Some (m', p', x') \<Longrightarrow> list_all extra_line es \<Longrightarrow>
   \<exists>es'. x' = header_lines es' \<and> list_all extra_line es'"
proof (induction n arbitrary: hi off m p es)
  case 0
  then show ?case by auto
next
  case (Suc n)
  from Suc.prems(1) obtain off1 m1 p1 x1 where
    step: "header_pair_step d hi (off, m, p, header_lines es) = Some (off1, m1, p1, x1)"
    and rest: "header_pairs_loop n d (hi + 1) (off1, m1, p1, x1) = Some (m', p', x')"
    by (auto split: option.splits)
  from pair_step_extra [OF step refl Suc.prems(2)] obtain es1
    where "x1 = header_lines es1" "list_all extra_line es1" by blast
  then show ?case using Suc.IH rest by blast
qed

lemma request_headers_extra:
  assumes "parse_request_headers ctx hp hs = Some (m, p, x)"
  shows "\<exists>es. x = header_lines es \<and> list_all extra_line es"
proof (cases "hs = 0")
  case True
  then show ?thesis using assms
    by (intro exI [of _ "[]"]) (simp add: parse_request_headers_def header_lines_def)
next
  case False
  then obtain n d off where "header_pairs_loop n d 0 (off, ''GET'', ''/'', header_lines []) = Some (m, p, x)"
    using assms by (auto simp: parse_request_headers_def header_lines_def Let_def
        split: if_splits option.splits)
  then show ?thesis by (rule pairs_loop_extra) simp
qed

lemma header_lines_nul_free: "list_all clean_line ls \<Longrightarrow> nul_free (header_lines ls)"
  by (induction ls) (auto simp: header_lines_def clean_line_def nul_free_def)

text \<open>The lines of a request.\<close>

definition request_lines :: "bytes \<Rightarrow> bytes \<Rightarrow> bytes \<Rightarrow> u32 \<Rightarrow> bool \<Rightarrow> bytes list \<Rightarrow> bytes list" where
  "request_lines meth path host body_size keep extra =
     [meth @ '' '' @ path @ '' HTTP/1.1'', ''Host: '' @ host] @
     (if body_size > 0 then [''Content-Length: '' @ dec (unat body_size)] else []) @
     [if keep then ''Connection: keep-alive'' else ''Connection: close''] @ extra"

lemma request_text_lines:
  assumes "nul_free meth" "nul_free path" "nul_free host" "list_all clean_line extra"
  shows "request_text meth path host n keep (header_lines extra) =
    header_lines (request_lines meth path host n keep extra) @ CRLF"
  using assms header_lines_nul_free [OF assms(4)]
  by (simp add: request_text_def request_lines_def cstr_id) (simp add: header_lines_def)

lemma request_lines_clean:
  assumes "pw_http_method_ok meth" "pw_http_path_ok path" "pw_http_host_ok host" "list_all clean_line extra"
  shows "list_all clean_line (request_lines meth path host n keep extra)"
proof -
  have "clean_line (dec k)" for k
    using dec_digits [of k] by (auto simp: clean_line_def is_digit_def)
  then show ?thesis
    using assms method_clean [OF assms(1)] path_clean [OF assms(2)] host_clean [OF assms(3)]
    by (auto simp: request_lines_def clean_line_def)
qed

lemma prepare_cases:
  assumes "call_prepare ctx hp args = Inr (host, port, ex, req, body)"
  obtains upstream meth path x where
    "pw_read_string ctx (args 0) (args 1) 256 = Some upstream"
    "pw_http_parse_upstream upstream 256 = Some (host, port)"
    "allowlist_check (allowed_upstreams ctx) host port = Some ex"
    "parse_request_headers ctx (args 2) (args 3) = Some (meth, path, x)"
    "pw_http_method_ok meth" "pw_http_path_ok path"
    "req = request_text meth path host (args 5) (hp \<and> ex) x" "length req < 8192"
    "args 5 > 0 \<Longrightarrow> pw_validate_region ctx (args 4) (args 5)"
    "body = chunk (unat (args 4)) (unat (args 5)) (memory ctx)"
  using assms
  by (auto simp: call_prepare_def Let_def split: option.splits if_splits)

section \<open>Lemmas: the response\<close>

lemma find_sub_prefix: "find_sub pat s = Some e \<Longrightarrow> find_sub pat (s @ t) = Some e"
proof (induction s arbitrary: e)
  case Nil
  then show ?case by (cases t) (auto split: if_splits)
next
  case (Cons x s)
  show ?case
  proof (cases "take (length pat) (x # s) = pat")
    case True
    then have "length pat \<le> length (x # s)" by (metis length_take min.cobounded1)
    then have "take (length pat) ((x # s) @ t) = pat" using True by (simp only: take_append) simp
    then show ?thesis using Cons.prems True by simp
  next
    case False
    then obtain j where j: "find_sub pat s = Some j" "e = Suc j" using Cons.prems by auto
    have "j + length pat \<le> length s" using find_sub_Some [OF j(1)] by simp
    then have "take (length pat) ((x # s) @ t) = take (length pat) (x # s)"
      by (simp only: take_append) simp
    then show ?thesis using False Cons.IH [OF j(1)] j(2) by simp
  qed
qed

lemma find_sub_take:
  "find_sub pat s = Some e \<Longrightarrow> e + length pat \<le> n \<Longrightarrow> find_sub pat (take n s) = Some e"
proof (induction s arbitrary: e n)
  case Nil
  then show ?case by simp
next
  case (Cons x s)
  show ?case
  proof (cases "take (length pat) (x # s) = pat")
    case True
    then have e: "e = 0" using Cons.prems(1) by simp
    have "take (length pat) (take n (x # s)) = pat" using True Cons.prems(2) e by (simp add: min_def)
    then show ?thesis using e by (cases "take n (x # s)") (auto split: if_splits)
  next
    case False
    then obtain j where j: "find_sub pat s = Some j" "e = Suc j" using Cons.prems(1) by auto
    obtain m where m: "n = Suc m" using Cons.prems(2) j(2) by (cases n) auto
    have "take (length pat) (x # take m s) = take (length pat) (x # s)"
      using Cons.prems(2) j(2) m by (metis add_leD2 min.absorb2 min.commute take_Suc_Cons take_take)
    then show ?thesis using False Cons.IH [OF j(1), of m] Cons.prems(2) j(2) m by simp
  qed
qed

lemma strstr_find_sub: "strstr s pat = Some e \<Longrightarrow> find_sub pat s = Some e"
  unfolding strstr_def cstr_def
  by (metis find_sub_prefix takeWhile_dropWhile_id)

lemma header_phase_Some:
  "read_header_phase rd k buf = (buf', k', Some e) \<Longrightarrow>
   strstr buf' HDR_END = Some e \<and> length buf' \<le> PW_HTTP_MAX_RESPONSE"
proof (induction rd k buf rule: read_header_phase.induct)
  case (1 rd k buf)
  let ?d = "take (PW_HTTP_MAX_RESPONSE - length buf) (rd k)"
  have lt: "length buf < PW_HTTP_MAX_RESPONSE" "?d \<noteq> []"
    using 1(2) by (subst (asm) read_header_phase.simps, auto simp: Let_def split: if_splits)+
  show ?case
  proof (cases "strstr (buf @ ?d) HDR_END")
    case None
    then show ?thesis using 1 lt by (subst (asm) (2) read_header_phase.simps) (simp add: Let_def)
  next
    case (Some i)
    then show ?thesis using 1(2) lt by (subst (asm) read_header_phase.simps) (auto simp: Let_def)
  qed
qed

lemma body_phase:
  "read_body_phase rd k buf need = (buf', need') \<Longrightarrow> length buf + need \<le> PW_HTTP_MAX_RESPONSE \<Longrightarrow>
   length buf' + need' = length buf + need \<and> take (length buf) buf' = buf \<and>
   ((\<forall>j. rd j \<noteq> []) \<longrightarrow> need' = 0)"
proof (induction rd k buf need rule: read_body_phase.induct)
  case (1 rd k buf need)
  show ?case
  proof (cases "need > 0")
    case False
    then show ?thesis using 1(2) by (subst (asm) read_body_phase.simps) simp
  next
    case True
    let ?room = "PW_HTTP_MAX_RESPONSE - length buf"
    let ?d = "take (if need < ?room then need else ?room) (rd k)"
    have room: "?room \<noteq> 0" using True 1(3) by simp
    have dlen: "length ?d \<le> need" using 1(3) by auto
    show ?thesis
    proof (cases "?d = []")
      case d: True
      then have "rd k = []" using True room by (auto split: if_splits)
      then show ?thesis using 1(2) True room d by (subst (asm) read_body_phase.simps) (auto simp: Let_def)
    next
      case False
      have rec: "read_body_phase rd (k + 1) (buf @ ?d) (need - length ?d) = (buf', need')"
        using 1(2) True room False by (subst (asm) read_body_phase.simps) (simp add: Let_def)
      have "length (buf @ ?d) + (need - length ?d) \<le> PW_HTTP_MAX_RESPONSE" using 1(3) dlen by simp
      from 1(1) [OF True refl room refl False rec this] dlen
      have ih: "length buf' + need' = length buf + need" "take (length (buf @ ?d)) buf' = buf @ ?d"
        "(\<forall>j. rd j \<noteq> []) \<longrightarrow> need' = 0" by auto
      have "take (length buf) (take (length (buf @ ?d)) buf') = buf" unfolding ih(2) by simp
      then show ?thesis using ih by (simp add: min_def)
    qed
  qed
qed

section \<open>Lemmas: the stages of a call\<close>

abbreviation counted :: "proxy_ctx \<Rightarrow> proxy_ctx" where
  "counted ctx \<equiv> ctx\<lparr>http_call_count := http_call_count ctx + 1\<rparr>"

lemma read_string_counted: "pw_read_string (counted ctx) p n sz = pw_read_string ctx p n sz"
proof -
  have "pw_mem_base (counted ctx) = pw_mem_base ctx" by (simp add: pw_mem_base_def)
  then show ?thesis by (simp add: pw_read_string_def pw_validate_region_def pw_mem_ptr_def split: option.split)
qed

lemma call_cases:
  assumes "pw_proxy_http_call ne ctx poolp args = r"
  obtains
    (limited) "http_call_max ctx > 0" "http_call_count ctx \<ge> http_call_max ctx"
      "r = \<lparr>cr_ctx = ctx, cr_pool = poolp, cr_status = PROXY_BAD_ARGUMENT, cr_sent = [], cr_closed = [],
            cr_dialed = []\<rparr>"
  | (refused) st where "http_call_max ctx = 0 \<or> http_call_count ctx < http_call_max ctx"
      "call_prepare (counted ctx) (poolp \<noteq> None) args = Inl st"
      "r = \<lparr>cr_ctx = counted ctx, cr_pool = poolp, cr_status = st, cr_sent = [], cr_closed = [],
            cr_dialed = []\<rparr>"
  | (unconnected) host port ex req body p closed d where
      "http_call_max ctx = 0 \<or> http_call_count ctx < http_call_max ctx"
      "call_prepare (counted ctx) (poolp \<noteq> None) args = Inr (host, port, ex, req, body)"
      "call_connect ne poolp host port (timeout_of (args 8) (http_timeout_ms ctx)) ex = (p, None, closed, d)"
      "r = \<lparr>cr_ctx = counted ctx, cr_pool = vwasm_http_pool_cb_failure (ne_clk ne 4) p host port,
            cr_status = PROXY_INTERNAL, cr_sent = [], cr_closed = closed, cr_dialed = d\<rparr>"
  | (exchanged) host port ex req body p conn closed d where
      "http_call_max ctx = 0 \<or> http_call_count ctx < http_call_max ctx"
      "call_prepare (counted ctx) (poolp \<noteq> None) args = Inr (host, port, ex, req, body)"
      "call_connect ne poolp host port (timeout_of (args 8) (http_timeout_ms ctx)) ex = (p, Some conn, closed, d)"
      "r = call_exchange ne (counted ctx) p host port conn req body ex (args 9) closed d"
proof (cases "http_call_max ctx > 0 \<and> http_call_count ctx \<ge> http_call_max ctx")
  case True
  then show ?thesis using assms by (intro limited) (auto simp: pw_proxy_http_call_def Let_def)
next
  case False
  then have free: "http_call_max ctx = 0 \<or> http_call_count ctx < http_call_max ctx"
    by (auto simp: word_gt_0)
  show ?thesis
  proof (cases "call_prepare (counted ctx) (poolp \<noteq> None) args")
    case (Inl st)
    then show ?thesis using assms False by (intro refused [OF free Inl]) (auto simp: pw_proxy_http_call_def Let_def)
  next
    case (Inr v)
    obtain host port ex req body where v: "v = (host, port, ex, req, body)" by (metis prod_cases5)
    obtain p c closed d where
      con: "call_connect ne poolp host port (timeout_of (args 8) (http_timeout_ms ctx)) ex = (p, c, closed, d)"
      by (metis prod_cases4)
    have r: "r = (case c of
        None \<Rightarrow> \<lparr>cr_ctx = counted ctx, cr_pool = vwasm_http_pool_cb_failure (ne_clk ne 4) p host port,
            cr_status = PROXY_INTERNAL, cr_sent = [], cr_closed = closed, cr_dialed = d\<rparr>
      | Some conn \<Rightarrow> call_exchange ne (counted ctx) p host port conn req body ex (args 9) closed d)"
      using assms False Inr v con by (auto simp: pw_proxy_http_call_def Let_def split: option.splits)
    show ?thesis
    proof (cases c)
      case None
      then show ?thesis using Inr v con r by (intro unconnected [OF free]) auto
    next
      case (Some conn)
      then show ?thesis using Inr v con r by (intro exchanged [OF free]) auto
    qed
  qed
qed

lemma exchange_shape:
  assumes "call_exchange ne ctx p host port conn req body ex ret closed d = r"
  obtains keep ok p' c where "call_finish ne p host port conn keep ok = (p', c)"
    "cr_pool r = p'" "cr_closed r = closed @ c" "cr_dialed r = d"
    "cr_sent r = [req] \<or> cr_sent r = [req, body]"
proof -
  obtain p1 c1 where f: "call_finish ne p host port conn False False = (p1, c1)" by (metis prod.exhaust)
  let ?rr = "read_response (ne_read ne) ex"
  obtain p2 c2 where g: "call_finish ne p host port conn (rr_reusable ?rr) (rr_complete ?rr) = (p2, c2)"
    by (metis prod.exhaust)
  show ?thesis
  proof (cases "\<not> ne_write ne req \<or> (body \<noteq> [] \<and> \<not> ne_write ne body) \<or> \<not> ne_al ne 0")
    case True
    then show ?thesis using assms by (intro that [OF f]) (auto simp: call_exchange_def f Let_def)
  next
    case False
    then show ?thesis using assms
      by (intro that [OF g]) (auto simp: call_exchange_def f g Let_def split: prod.splits)
  qed
qed

lemma connect_loop_shape:
  "http_connect_loop ex conn res = (fd, closed, ds) \<Longrightarrow>
   set ds \<subseteq> set res \<and> (\<not> ex \<longrightarrow> list_all (\<lambda>sa. \<not> vwasm_http_addr_is_private (Some sa)) ds) \<and>
   (fd \<ge> 0 \<longrightarrow> ds \<noteq> []) \<and>
   mset (filter (\<lambda>fd. fd \<ge> 0) (map (\<lambda>sa. ce_socket (conn sa)) ds)) =
     mset closed + (if fd \<ge> 0 then {#fd#} else {#})"
proof (induction res arbitrary: fd closed ds)
  case Nil
  then show ?case by auto
next
  case (Cons sa res)
  show ?case
  proof (cases "\<not> ex \<and> vwasm_http_addr_is_private (Some sa)")
    case True
    then have "http_connect_loop ex conn res = (fd, closed, ds)" using Cons.prems by simp
    from Cons.IH [OF this] show ?thesis by auto
  next
    case False
    obtain r c d where rec: "http_connect_loop ex conn res = (r, c, d)" by (metis prod_cases3)
    have "(fd, closed, ds) = (if ce_socket (conn sa) < 0 then (r, c, sa # d)
        else if ce_connect_ret (conn sa) = 0 \<or> ce_in_progress (conn sa) \<and> ce_poll_ret (conn sa) > 0 \<and>
          ce_so_error_ok (conn sa) then (ce_socket (conn sa), [], [sa])
        else (r, ce_socket (conn sa) # c, sa # d))"
      using Cons.prems
      by (auto simp only: http_connect_loop.simps False rec Let_def prod.case split: if_split_asm) simp_all
    then show ?thesis using Cons.IH [OF rec] False by (auto split: if_split_asm)
  qed
qed

definition opened_fds :: "(sockaddr \<Rightarrow> connect_env) \<Rightarrow> sockaddr list \<Rightarrow> int multiset" where
  "opened_fds conn ds = mset (filter (\<lambda>fd. fd \<ge> 0) (map (\<lambda>sa. ce_socket (conn sa)) ds))"

lemma connect_addresses:
  assumes "call_connect ne poolp host port tm False = (p, c, closed, ds)"
  shows "list_all (\<lambda>sa. \<not> vwasm_http_addr_is_private (Some sa)) ds \<and> (c \<noteq> None \<longrightarrow> ds \<noteq> [])"
proof (cases poolp)
  case None
  then obtain fd where "pw_http_connect ne host port False = (fd, closed, ds)" "c = None \<or> fd \<ge> 0"
    using assms by (auto simp: call_connect_def split: prod.splits if_splits)
  then show ?thesis
    using connect_loop_shape [of False "ne_conn ne" _ fd closed ds]
    by (auto simp: pw_http_connect_def split: option.splits)
next
  case (Some pool)
  then show ?thesis using assms acquire_address [of "ne_al_pool ne" "ne_clk ne" "ne_poll ne" "ne_gai ne"
      "ne_conn ne" pool host port tm]
    by (auto simp: call_connect_def Let_def split: option.splits)
qed

lemma finish_pool:
  assumes "call_finish ne (Some pool) host port (fd, Some ref) keep ok = (p', c)"
  shows "\<exists>q q'. vwasm_http_pool_release (ne_clk ne 3) pool (Some ref) keep = (q, c) \<and> p' = Some q' \<and>
    hp_conns q' = hp_conns q"
proof -
  obtain q c' where rel: "vwasm_http_pool_release (ne_clk ne 3) pool (Some ref) keep = (q, c')"
    by (metis prod.exhaust)
  then show ?thesis using assms report_conns [of "ne_clk ne 4" q host port]
    by (auto simp: call_finish_def Let_def split: if_splits)
qed

lemma finish_direct: "call_finish ne None host port (fd, ref) keep ok = (None, [fd])"
  by (auto simp: call_finish_def vwasm_http_pool_cb_success_def vwasm_http_pool_cb_failure_def
      split: option.splits)

lemma opened_fds_option: "opened_fds conn (case d of None \<Rightarrow> [] | Some sa \<Rightarrow> [sa]) = dialed_fd conn d"
  by (auto simp: opened_fds_def dialed_fd_def split: option.split)

lemma connect_pool:
  assumes "conns_inv (hp_conns pool)" "call_connect ne (Some pool) host port tm ex = (p, c, closed, ds)"
  obtains q where "p = Some q"
    "pool_fds (hp_conns q) + mset closed +
       (case c of Some (fd, Some (Overflow _)) \<Rightarrow> {#fd#} | _ \<Rightarrow> {#}) =
     pool_fds (hp_conns pool) + opened_fds (ne_conn ne) ds"
    "used_slots (hp_conns q) = used_slots (hp_conns pool) \<union>
       (case c of Some (fd, Some (Slot i)) \<Rightarrow> {i} | _ \<Rightarrow> {})"
    "case c of None \<Rightarrow> True | Some (fd, None) \<Rightarrow> False
     | Some (fd, Some (Slot i)) \<Rightarrow> i < length (hp_conns q) \<and> i \<notin> used_slots (hp_conns pool)
     | Some (fd, Some (Overflow oc)) \<Rightarrow> hc_fd oc = fd \<and> fd \<ge> 0"
proof -
  define r where "r = vwasm_http_pool_acquire (ne_al_pool ne) (ne_clk ne) (ne_poll ne) (ne_gai ne)
    (ne_conn ne) pool host port tm ex"
  have eq: "p = Some (ar_pool r)" "c = map_option (\<lambda>(fd, c). (fd, Some c)) (ar_conn r)"
    "closed = ar_closed r" "ds = (case ar_dialed r of None \<Rightarrow> [] | Some sa \<Rightarrow> [sa])"
    using assms(2) by (auto simp: call_connect_def r_def Let_def)
  note r = r_def [symmetric]
  show ?thesis
  proof (rule that [OF eq(1)])
    show "pool_fds (hp_conns (ar_pool r)) + mset closed +
       (case c of Some (fd, Some (Overflow _)) \<Rightarrow> {#fd#} | _ \<Rightarrow> {#}) =
     pool_fds (hp_conns pool) + opened_fds (ne_conn ne) ds"
      using acquire_fds [OF r] unfolding eq opened_fds_option
      by (auto simp: overflow_fds_def split: option.split conn_ref.split)
    show "used_slots (hp_conns (ar_pool r)) = used_slots (hp_conns pool) \<union>
       (case c of Some (fd, Some (Slot i)) \<Rightarrow> {i} | _ \<Rightarrow> {})"
      using acquire_used [OF r] unfolding eq
      by (auto simp: given_slot_def split: option.splits conn_ref.splits)
    show "case c of None \<Rightarrow> True | Some (fd, None) \<Rightarrow> False
     | Some (fd, Some (Slot i)) \<Rightarrow> i < length (hp_conns (ar_pool r)) \<and> i \<notin> used_slots (hp_conns pool)
     | Some (fd, Some (Overflow oc)) \<Rightarrow> hc_fd oc = fd \<and> fd \<ge> 0"
      using acquire_ref [OF assms(1) r] unfolding eq
      by (cases "ar_conn r") (auto split: conn_ref.splits)
  qed
qed

lemma direct_fds:
  assumes "call_connect ne None host port tm ex = (p, c, closed, ds)"
  shows "p = None \<and> mset closed + (case c of None \<Rightarrow> {#} | Some (fd, _) \<Rightarrow> {#fd#}) =
    opened_fds (ne_conn ne) ds"
proof -
  obtain fd where f: "pw_http_connect ne host port ex = (fd, closed, ds)" "p = None"
    "c = (if fd < 0 then None else Some (fd, None))"
    using assms by (auto simp: call_connect_def split: prod.splits)
  then show ?thesis
    using connect_loop_shape [of ex "ne_conn ne" _ fd closed ds]
    by (auto simp: pw_http_connect_def opened_fds_def split: option.splits)
qed

lemma pool_exchange_fds:
  assumes "conns_inv (hp_conns pool)" "call_connect ne (Some pool) host port tm ex = (p, Some conn, closed, d)"
    and "call_finish ne p host port conn keep ok = (p', c)"
  shows "\<exists>pool'. p' = Some pool' \<and> used_slots (hp_conns pool') = used_slots (hp_conns pool) \<and>
    pool_fds (hp_conns pool') + mset (closed @ c) = pool_fds (hp_conns pool) + opened_fds (ne_conn ne) d"
proof -
  obtain fd refo where conn: "conn = (fd, refo)" by (cases conn)
  obtain q where q: "p = Some q"
    "pool_fds (hp_conns q) + mset closed + (case refo of Some (Overflow _) \<Rightarrow> {#fd#} | _ \<Rightarrow> {#}) =
     pool_fds (hp_conns pool) + opened_fds (ne_conn ne) d"
    "used_slots (hp_conns q) = used_slots (hp_conns pool) \<union> (case refo of Some (Slot i) \<Rightarrow> {i} | _ \<Rightarrow> {})"
    "case refo of None \<Rightarrow> False
     | Some (Slot i) \<Rightarrow> i < length (hp_conns q) \<and> i \<notin> used_slots (hp_conns pool)
     | Some (Overflow oc) \<Rightarrow> hc_fd oc = fd \<and> fd \<ge> 0"
    using connect_pool [OF assms(1,2)] unfolding conn by (auto split: prod.splits)
  then obtain ref where ref: "refo = Some ref" by (auto split: option.splits)
  from finish_pool [OF assms(3) [unfolded q(1) conn ref]] obtain q1 q2 where
    rel: "vwasm_http_pool_release (ne_clk ne 3) q (Some ref) keep = (q1, c)"
    "p' = Some q2" "hp_conns q2 = hp_conns q1" by auto
  have ok: "case ref of Slot i \<Rightarrow> i < length (hp_conns q) | Overflow c \<Rightarrow> hc_fd c \<ge> 0"
    using q(4) ref by (auto split: conn_ref.splits)
  define X where "X = (case ref of Slot _ \<Rightarrow> {#} | Overflow c \<Rightarrow> {#hc_fd c#})"
  have X: "(case refo of Some (Overflow _) \<Rightarrow> {#fd#} | _ \<Rightarrow> {#}) = X"
    using q(4) ref by (auto simp: X_def split: conn_ref.splits)
  have "pool_fds (hp_conns q2) + mset (closed @ c) = pool_fds (hp_conns q1) + mset c + mset closed"
    using rel(3) by simp
  also have "\<dots> = pool_fds (hp_conns q) + mset closed + X"
    using release_fds [OF ok rel(1)] by (simp add: X_def)
  also have "\<dots> = pool_fds (hp_conns pool) + opened_fds (ne_conn ne) d" using q(2) X by simp
  finally have fds: "pool_fds (hp_conns q2) + mset (closed @ c) =
    pool_fds (hp_conns pool) + opened_fds (ne_conn ne) d" .
  have "used_slots (hp_conns q2) = used_slots (hp_conns pool)"
    using release_used [OF rel(1)] rel(3) q(3,4) ref by (auto split: conn_ref.splits)
  then show ?thesis using fds rel(2) by blast
qed

section \<open>Properties\<close>

text \<open>A concrete callout for the witnesses: \<open>api:80\<close>, answered with a two-byte body.\<close>

definition call_reply :: bytes where
  "call_reply = ''HTTP/1.1 200 OK'' @ CRLF @ ''Content-Length: 2'' @ CRLF @ CRLF @ ''hi''"

definition call_net :: net_env where
  "call_net =
     \<lparr>ne_al = mem_ok, ne_al_pool = mem_ok, ne_clk = (\<lambda>_. 5), ne_poll = (\<lambda>_. (0, False, False)),
      ne_gai = (\<lambda>_ _. Some (SA_INET (replicate 4 (CHR 0x08)) 80)),
      ne_gai_all = (\<lambda>_ _. Some [SA_INET (replicate 4 (CHR 0x08)) 80]),
      ne_conn = (\<lambda>_. \<lparr>ce_socket = 9, ce_nonblock_ok = True, ce_connect_ret = 0, ce_in_progress = False,
                       ce_poll_ret = 0, ce_so_error_ok = True\<rparr>),
      ne_write = (\<lambda>_. True), ne_read = (\<lambda>k. if k = 0 then call_reply else [])\<rparr>"

definition call_ctx :: proxy_ctx where
  "call_ctx = (pctx_zero (''api:80'' @ replicate 10 NUL) (\<lambda>_ m. (None, m)))
     \<lparr>memory_valid := True, wasm_ctx := True, http_call_max := 2\<rparr>"

definition call_args :: "nat \<Rightarrow> u32" where
  "call_args i = (if i = 1 then 6 else if i = 9 then 8 else 0)"

lemma reply_headers:
  "strstr call_reply HDR_END = Some 34"
  "pw_http_find_header_value call_reply 38 ''Transfer-Encoding'' = None"
  "pw_http_find_header_value call_reply 38 ''Connection'' = None"
  "pw_http_find_header_value call_reply 38 ''Content-Length'' = Some ''2''"
  "pw_http_parse_size ''2'' = Some 2" "length call_reply = 40"
  by (simp_all add: call_reply_def strstr_def cstr_def pw_http_find_header_value_def find_header_loop.simps
      c_tolower_def skip_blanks_def trim_end_def is_blank_def pw_http_parse_size_def is_digit_def Let_def)

lemma call_net_response:
  "read_response (ne_read call_net) False =
   \<lparr>rr_buf = call_reply, rr_complete = True, rr_reusable = False, rr_status = PROXY_OK\<rparr>"
proof -
  have "call_reply \<noteq> []" by (simp add: call_reply_def)
  then have "read_header_phase (ne_read call_net) 0 [] = (call_reply, 1, Some 34)"
    by (subst read_header_phase.simps)
       (simp add: call_net_def PW_HTTP_MAX_RESPONSE_def reply_headers Let_def)
  then show ?thesis
    by (simp add: read_response_def reply_headers PW_HTTP_MAX_RESPONSE_def read_body_phase.simps Let_def)
qed

lemma call_prepared:
  "call_prepare (counted call_ctx) hp call_args =
   Inr (''api'', 80, False, request_text ''GET'' ''/'' ''api'' 0 False [], [])"
proof -
  have "pw_read_string (counted call_ctx) 0 6 256 = Some ''api:80''"
    by (simp add: call_ctx_def pctx_zero_def pw_read_string_def validate_region_iff pw_mem_ptr_def
        pw_mem_base_def chunk_def)
  moreover have "pw_http_parse_upstream ''api:80'' 256 = Some (''api'', 80)"
    by (simp add: pw_http_parse_upstream_def pw_http_has_line_ctl_def pw_http_host_ok_def
        pw_http_parse_port_def is_digit_def Let_def)
  moreover have "length (request_text ''GET'' ''/'' ''api'' 0 False []) < 8192"
    by (simp add: request_text_def cstr_def)
  ultimately show ?thesis
    by (simp add: call_prepare_def call_args_def allowlist_check_def parse_request_headers_def
        pw_http_method_ok_def pw_http_path_ok_def pw_http_is_token_char_def INT_MAX_def chunk_def
        call_ctx_def pctx_zero_def Let_def)
qed

lemma call_connected: "call_connect call_net None ''api'' 80 tm False = (None, Some (9, None), [],
    [SA_INET (replicate 4 (CHR 0x08)) 80])"
  by (simp add: call_connect_def pw_http_connect_def call_net_def vwasm_http_addr_is_private_def
      inet_private_bytes octets_private_def numeral_eq_Suc)

lemma call_run:
  "pw_proxy_http_call call_net call_ctx None call_args =
   call_exchange call_net (counted call_ctx) None ''api'' 80 (9, None)
     (request_text ''GET'' ''/'' ''api'' 0 False []) [] False 8 [] [SA_INET (replicate 4 (CHR 0x08)) 80]"
  using call_prepared [of False] call_connected
  by (simp add: pw_proxy_http_call_def call_args_def call_ctx_def pctx_zero_def Let_def)

lemma call_run_sent:
  "cr_sent (pw_proxy_http_call call_net call_ctx None call_args) =
   [request_text ''GET'' ''/'' ''api'' 0 False []]"
proof -
  have "ne_write call_net x" "ne_al call_net k" for x k by (simp_all add: call_net_def)
  then show ?thesis by (simp add: call_run call_exchange_def Let_def split: prod.split)
qed

text \<open>C8: whatever header pairs, method, path, upstream and sizes the guest passes, the text handed to the
  socket is a request line, the host, length and connection lines the host chose, and header lines made of
  a checked name and a checked value, each ended by CR LF, and one blank line. No line contains a CR, an
  LF or a NUL, so the guest cannot smuggle a header, a body or a second request into it. What follows is
  at most the guest's own body region.\<close>

theorem request_no_injection:
  assumes "pw_proxy_http_call ne ctx poolp args = r" "cr_sent r = req # rest"
  shows "\<exists>meth path host keep extra.
    (let lines = request_lines meth path host (args 5) keep extra in
     req = header_lines lines @ CRLF \<and> list_all clean_line lines) \<and>
    list_all extra_line extra \<and> pw_http_host_ok host \<and> length req < 8192 \<and>
    (rest = [] \<or> rest = [chunk (unat (args 4)) (unat (args 5)) (memory ctx)])"
  using assms(1)
proof (cases rule: call_cases)
  case (exchanged host port ex req1 body p conn closed d)
  from exchanged(4) [symmetric] have sent: "cr_sent r = [req1] \<or> cr_sent r = [req1, body]"
    by (rule exchange_shape) blast
  from exchanged(2) obtain upstream meth path x where
    prep: "pw_http_parse_upstream upstream 256 = Some (host, port)"
    "parse_request_headers (counted ctx) (args 2) (args 3) = Some (meth, path, x)"
    "pw_http_method_ok meth" "pw_http_path_ok path"
    "req1 = request_text meth path host (args 5) (poolp \<noteq> None \<and> ex) x" "length req1 < 8192"
    "body = chunk (unat (args 4)) (unat (args 5)) (memory ctx)"
    by (rule prepare_cases) auto
  from request_headers_extra [OF prep(2)] obtain es where
    es: "x = header_lines es" "list_all extra_line es" by blast
  then have clean: "list_all clean_line es" by (auto simp: list_all_iff extra_line_clean)
  have host: "pw_http_host_ok host" using parse_upstream_Some [OF prep(1)] by blast
  have "nul_free meth" "nul_free path" "nul_free host"
    using method_clean [OF prep(3)] path_clean [OF prep(4)] host_clean [OF host] by (auto simp: nul_free_def)
  from request_text_lines [OF this clean] request_lines_clean [OF prep(3,4) host clean] es host sent prep
  show ?thesis using assms(2) unfolding Let_def
    by (intro exI [of _ meth] exI [of _ path] exI [of _ host] exI [of _ "poolp \<noteq> None \<and> ex"]
        exI [of _ es]) auto
qed (use assms(2) in auto)

theorem request_no_injection_witness:
  "\<exists>lines. cr_sent (pw_proxy_http_call call_net call_ctx None call_args) = [header_lines lines @ CRLF] \<and>
     list_all clean_line lines"
  using request_no_injection [OF refl call_run_sent] call_run_sent by (auto simp: Let_def)

text \<open>C9: where a callout may go. With an allowlist, nothing is dialed or sent unless the upstream the guest
  named is on it. Without one, everything sent goes over a connection made for this call, and no
  address of a private block is ever dialed, whatever the resolver, the DNS cache or the pool hold.\<close>

theorem call_upstream_policy:
  assumes "pw_proxy_http_call ne ctx poolp args = r" "cr_dialed r \<noteq> [] \<or> cr_sent r \<noteq> []"
  shows "if allowed_upstreams ctx \<in> {None, Some []}
    then cr_dialed r \<noteq> [] \<and> list_all (\<lambda>sa. \<not> vwasm_http_addr_is_private (Some sa)) (cr_dialed r)
    else \<exists>upstream host port. pw_read_string ctx (args 0) (args 1) 256 = Some upstream \<and>
      pw_http_parse_upstream upstream 256 = Some (host, port) \<and>
      upstream_key host port \<in> set (the (allowed_upstreams ctx))"
proof -
  have step: ?thesis if prep: "call_prepare (counted ctx) (poolp \<noteq> None) args = Inr (host, port, ex, req, body)"
    and con: "call_connect ne poolp host port tm ex = (p, c, closed, cr_dialed r)"
    and d: "c \<noteq> None \<or> cr_dialed r \<noteq> []" for host port ex req body tm p c closed
  proof -
    from prep obtain upstream where u: "pw_read_string (counted ctx) (args 0) (args 1) 256 = Some upstream"
      "pw_http_parse_upstream upstream 256 = Some (host, port)"
      "allowlist_check (allowed_upstreams ctx) host port = Some ex"
      by (rule prepare_cases) auto
    have "pw_read_string ctx (args 0) (args 1) 256 = Some upstream"
      using u(1) unfolding read_string_counted .
    then show ?thesis
      using u(2,3) con d connect_addresses [of ne poolp host port tm p c closed "cr_dialed r"]
      by (auto simp: allowlist_check_def split: option.splits list.splits if_splits)
  qed
  from assms(1) show ?thesis
  proof (cases rule: call_cases)
    case (unconnected host port ex req body p closed d)
    then show ?thesis using step [OF unconnected(2)] assms(2) by auto
  next
    case (exchanged host port ex req body p conn closed d)
    have "cr_dialed r = d" using exchanged(4) by (metis exchange_shape)
    then show ?thesis using exchanged(3) by (intro step [OF exchanged(2)]) auto
  qed (use assms(2) in auto)
qed

lemma call_run_dialed:
  "cr_dialed (pw_proxy_http_call call_net call_ctx None call_args) = [SA_INET (replicate 4 (CHR 0x08)) 80]"
proof -
  have "ne_write call_net x" "ne_al call_net k" for x k by (simp_all add: call_net_def)
  then show ?thesis by (simp add: call_run call_exchange_def Let_def split: prod.split)
qed

theorem call_upstream_policy_witness:
  "list_all (\<lambda>sa. \<not> vwasm_http_addr_is_private (Some sa))
     (cr_dialed (pw_proxy_http_call call_net call_ctx None call_args))"
  using call_upstream_policy [where ne = call_net and ctx = call_ctx and poolp = None and args = call_args]
    call_run_dialed by (simp add: call_ctx_def pctx_zero_def)

text \<open>C18: a whole callout leaks nothing. On every path (refused, not connected, failed in sending or
  reading, out of memory, answered) the descriptors in the pool afterwards and those closed are those in
  the pool before and the ones this call opened, and exactly the slots that were in use before the call
  are in use after it. Without a pool, everything opened is closed.\<close>

theorem call_conserves_descriptors:
  assumes "pw_proxy_http_call ne ctx poolp args = r"
    and "case poolp of None \<Rightarrow> True | Some pool \<Rightarrow> conns_inv (hp_conns pool)"
  shows "case poolp of
    None \<Rightarrow> cr_pool r = None \<and> mset (cr_closed r) = opened_fds (ne_conn ne) (cr_dialed r)
  | Some pool \<Rightarrow> \<exists>pool'. cr_pool r = Some pool' \<and> used_slots (hp_conns pool') = used_slots (hp_conns pool) \<and>
      pool_fds (hp_conns pool') + mset (cr_closed r) =
      pool_fds (hp_conns pool) + opened_fds (ne_conn ne) (cr_dialed r)"
proof (cases poolp)
  case None
  from assms(1) show ?thesis
  proof (cases rule: call_cases)
    case (unconnected host port ex req body p closed d)
    have "p = None" "mset closed = opened_fds (ne_conn ne) d"
      using direct_fds [OF unconnected(3) [unfolded None]] by simp_all
    then show ?thesis using None unconnected(4) by (simp add: vwasm_http_pool_cb_failure_def)
  next
    case (exchanged host port ex req body p conn closed d)
    from exchanged(4) [symmetric] obtain keep ok p' c where
      "call_finish ne p host port conn keep ok = (p', c)" "cr_pool r = p'" "cr_closed r = closed @ c"
      "cr_dialed r = d" by (rule exchange_shape)
    moreover have "p = None" "mset closed + {#fst conn#} = opened_fds (ne_conn ne) d"
      using direct_fds [OF exchanged(3) [unfolded None]] by (auto split: prod.splits)
    moreover have "call_finish ne None host port conn keep ok = (None, [fst conn])"
      using finish_direct [of ne host port "fst conn" "snd conn" keep ok] by simp
    ultimately show ?thesis using None by auto
  qed (use None in \<open>simp_all add: opened_fds_def\<close>)
next
  case (Some pool)
  have inv: "conns_inv (hp_conns pool)" using assms(2) Some by simp
  from assms(1) show ?thesis
  proof (cases rule: call_cases)
    case (unconnected host port ex req body p closed d)
    obtain q where q: "p = Some q"
      "pool_fds (hp_conns q) + mset closed = pool_fds (hp_conns pool) + opened_fds (ne_conn ne) d"
      "used_slots (hp_conns q) = used_slots (hp_conns pool)"
      using connect_pool [OF inv unconnected(3) [unfolded Some]] by auto
    then show ?thesis using unconnected(4) Some report_conns(2) [of "ne_clk ne 4" q host port] by auto
  next
    case (exchanged host port ex req body p conn closed d)
    from exchanged(4) [symmetric] obtain keep ok p' c where fin:
      "call_finish ne p host port conn keep ok = (p', c)" "cr_pool r = p'" "cr_closed r = closed @ c"
      "cr_dialed r = d" by (rule exchange_shape)
    show ?thesis
      using pool_exchange_fds [OF inv exchanged(3) [unfolded Some] fin(1)] fin(2-4) Some by auto
  qed (use Some in \<open>simp_all add: opened_fds_def\<close>)
qed

theorem call_conserves_descriptors_witness:
  "mset (cr_closed (pw_proxy_http_call call_net call_ctx None call_args)) = {#9#}"
proof -
  have "opened_fds (ne_conn call_net) [SA_INET (replicate 4 (CHR 0x08)) 80] = {#9#}"
    by (simp add: opened_fds_def call_net_def)
  then show ?thesis
    using call_conserves_descriptors [where ne = call_net and ctx = call_ctx and poolp = None
        and args = call_args] call_run_dialed by simp
qed

section \<open>Sequences of callouts\<close>

text \<open>A request's execution as the callout counter sees it: callouts, and any other steps of the host or
  the guest that leave the counter and the limit alone. The first argument counts the callouts that
  reached the network.\<close>

definition reached_network :: "call_result \<Rightarrow> bool" where
  "reached_network r \<longleftrightarrow> cr_dialed r \<noteq> [] \<or> cr_sent r \<noteq> []"

inductive callouts :: "nat \<Rightarrow> proxy_ctx \<Rightarrow> proxy_ctx \<Rightarrow> bool" where
  start: "callouts 0 ctx ctx"
| other: "callouts n ctx ctx1 \<Longrightarrow> http_call_count ctx2 = http_call_count ctx1 \<Longrightarrow>
     http_call_max ctx2 = http_call_max ctx1 \<Longrightarrow> callouts n ctx ctx2"
| call: "callouts n ctx ctx1 \<Longrightarrow> pw_proxy_http_call ne ctx1 poolp args = r \<Longrightarrow>
     callouts (n + (if reached_network r then 1 else 0)) ctx (cr_ctx r)"

lemma store_counters:
  "call_store ne ctx buf ret = (ctx', st) \<Longrightarrow>
   http_call_count ctx' = http_call_count ctx \<and> http_call_max ctx' = http_call_max ctx"
  by (auto simp: call_store_def write_u32_cases Let_def split: if_splits prod.splits)

lemma exchange_counters:
  assumes "call_exchange ne ctx p host port conn req body ex ret closed d = r"
  shows "http_call_count (cr_ctx r) = http_call_count ctx \<and> http_call_max (cr_ctx r) = http_call_max ctx"
  using assms store_counters [of ne ctx "rr_buf (read_response (ne_read ne) ex)" ret]
  by (auto simp: call_exchange_def Let_def split: prod.splits if_splits)

lemma call_counters:
  assumes "pw_proxy_http_call ne ctx poolp args = r"
  shows "http_call_max (cr_ctx r) = http_call_max ctx \<and>
    (if http_call_max ctx > 0 \<and> http_call_count ctx \<ge> http_call_max ctx
     then http_call_count (cr_ctx r) = http_call_count ctx \<and> \<not> reached_network r
     else http_call_count (cr_ctx r) = http_call_count ctx + 1)"
  using assms
proof (cases rule: call_cases)
  case (exchanged host port ex req body p conn closed d)
  then show ?thesis using exchange_counters [OF exchanged(4) [symmetric]] by auto
qed (auto simp: reached_network_def)

lemma inc_below:
  assumes "a < (b :: u32)"
  shows "unat (a + 1) = unat a + 1" "a + 1 \<le> b"
proof -
  have ab: "unat a < unat b" using assms by (simp add: word_less_nat_alt)
  then have "unat a + 1 < 2 ^ 32" using unsigned_less [of b, where 'a = nat] by simp
  then show *: "unat (a + 1) = unat a + 1" by (simp add: unat_word_ariths)
  then show "a + 1 \<le> b" using ab by (simp add: word_le_nat_alt)
qed

lemma callouts_counted:
  "callouts n ctx ctx' \<Longrightarrow> http_call_max ctx > 0 \<Longrightarrow> http_call_count ctx \<le> http_call_max ctx \<Longrightarrow>
   http_call_max ctx' = http_call_max ctx \<and> http_call_count ctx' \<le> http_call_max ctx \<and>
   n + unat (http_call_count ctx) \<le> unat (http_call_count ctx')"
proof (induction rule: callouts.induct)
  case (call n ctx ctx1 ne poolp args r)
  note IH = call.IH [OF call.prems]
  note step = call_counters [OF call.hyps(2)]
  show ?case
  proof (cases "http_call_count ctx1 \<ge> http_call_max ctx1")
    case True
    then show ?thesis using IH step call.prems by auto
  next
    case False
    then have "unat (http_call_count ctx1 + 1) = unat (http_call_count ctx1) + 1"
      "http_call_count ctx1 + 1 \<le> http_call_max ctx1"
      using inc_below [of "http_call_count ctx1" "http_call_max ctx1"] by simp_all
    then show ?thesis using IH step False by auto
  qed
qed auto

text \<open>The callout limit holds over a whole request. However many callouts a guest attempts, with
  whatever arguments and network, and whatever else runs in between, at most \<open>http_call_max\<close> of them
  dial an address or send a byte.\<close>

theorem callout_limit:
  assumes "callouts n ctx ctx'" "http_call_count ctx = 0" "http_call_max ctx > 0"
  shows "n \<le> unat (http_call_max ctx)"
  using callouts_counted [OF assms(1,3)] assms(2) by (auto simp: word_le_nat_alt)

theorem callout_limit_witness:
  "\<exists>n ctx'. callouts n call_ctx ctx' \<and> n = 1 \<and> n \<le> unat (http_call_max call_ctx)"
proof -
  define r where "r = pw_proxy_http_call call_net call_ctx None call_args"
  have "callouts (0 + (if reached_network r then 1 else 0)) call_ctx (cr_ctx r)"
    by (rule callouts.call [OF callouts.start]) (simp add: r_def)
  moreover have "reached_network r" using call_run_sent by (simp add: reached_network_def r_def)
  ultimately have run: "callouts 1 call_ctx (cr_ctx r)" by simp
  moreover have "1 \<le> unat (http_call_max call_ctx)"
    using callout_limit [OF run] by (simp add: call_ctx_def pctx_zero_def)
  ultimately show ?thesis by blast
qed

end
