(* ===== verification/Http_Framing.thy ===== *)
theory Http_Framing
  imports Http_Call
begin

text \<open>
  What a module receives from a callout: how the response of an upstream is framed, and how the
  callout tree keeps one entry per token. The definitions are those of \<open>Http_Call\<close>; here are the lemmas
  on its response reader and its entry store, and the two properties about them.
\<close>

section \<open>Searching in a window\<close>

lemma find_sub_occurs: "chunk i (length pat) s = pat \<Longrightarrow> i + length pat \<le> length s \<Longrightarrow>
   \<exists>k \<le> i. find_sub pat s = Some k"
proof (induction s arbitrary: i)
  case Nil
  then show ?case by (simp add: chunk_def)
next
  case (Cons x xs)
  show ?case
  proof (cases i)
    case 0
    then show ?thesis using Cons.prems by (simp add: chunk_def)
  next
    case (Suc j)
    then have "chunk j (length pat) xs = pat" "j + length pat \<le> length xs"
      using Cons.prems by (simp_all add: chunk_def)
    from Cons.IH [OF this] Suc show ?thesis by auto
  qed
qed

lemma cstr_window: "nul_free (take n p) \<Longrightarrow> cstr p = take n p @ cstr (drop n p)"
  unfolding cstr_def nul_free_def
  by (subst append_take_drop_id [of n p, symmetric], subst takeWhile_append2) auto

text \<open>A window of header lines: the first \<open>rest\<close> bytes, which end in a blank line.\<close>

definition header_window :: "bytes \<Rightarrow> nat \<Rightarrow> bool" where
  "header_window p rest \<longleftrightarrow> rest \<le> length p \<and> nul_free (take rest p) \<and>
     (rest = 2 \<and> take 2 p = CRLF \<or> 4 \<le> rest \<and> chunk (rest - 4) 4 p = HDR_END)"

lemma window_step:
  assumes "header_window p rest" "find_sub CRLF (take rest p) = Some k" "k + 4 \<le> rest"
  shows "header_window (drop (k + 2) p) (rest - (k + 2))"
proof -
  have w: "rest \<le> length p" "nul_free (take rest p)" "4 \<le> rest" "chunk (rest - 4) 4 p = HDR_END"
    using assms(1,3) by (auto simp: header_window_def)
  have end4: "take rest p = take (rest - 4) p @ HDR_END"
    using w(3,4) unfolding chunk_def by (metis add.commute le_add_diff_inverse take_add)
  have nf: "nul_free (take (rest - (k + 2)) (drop (k + 2) p))"
    using w(2) assms(3) unfolding nul_free_def
    by (metis Nat.add_diff_assoc2 add.commute add_leD1 in_set_dropD drop_take)
  have at: "chunk k 2 (take rest p) = CRLF" using find_sub_Some [OF assms(2)] by (simp add: numeral_2_eq_2)
  have "k + 4 = rest \<or> k + 6 \<le> rest"
  proof (rule ccontr)
    assume "\<not> (k + 4 = rest \<or> k + 6 \<le> rest)"
    then have k: "k = rest - 5" "5 \<le> rest" using assms(3) by auto
    have "chunk k 2 (take rest p) ! 1 = LF" by (simp add: at)
    moreover have "chunk k 2 (take rest p) ! 1 = take rest p ! (rest - 4)"
      using k w(1) by (simp add: chunk_def Suc_diff_le [symmetric])
    moreover have "take rest p ! (rest - 4) = CR" unfolding end4 using w(1,3) by (simp add: nth_append)
    ultimately show False by simp
  qed
  then show ?thesis
  proof
    assume "k + 4 = rest"
    then have k: "k = rest - 4" by simp
    have "take 2 (drop (k + 2) p) = take 2 (drop 2 (take 4 (drop k p)))"
      by (simp add: drop_take add.commute)
    also have "\<dots> = CRLF" using w(4) k by (simp add: chunk_def)
    finally have crlf: "take 2 (drop (k + 2) p) = CRLF" .
    have "rest - (k + 2) = 2" "2 \<le> length (drop (k + 2) p)" using k w(1,3) by simp_all
    then show ?thesis using crlf nf unfolding header_window_def by simp
  next
    assume k6: "k + 6 \<le> rest"
    have "chunk (rest - (k + 2) - 4) 4 (drop (k + 2) p) = take 4 (drop (k + 2 + (rest - (k + 2) - 4)) p)"
      by (simp add: chunk_def add.commute)
    also have "k + 2 + (rest - (k + 2) - 4) = rest - 4" using k6 by arith
    finally have "chunk (rest - (k + 2) - 4) 4 (drop (k + 2) p) = HDR_END" using w(4) by (simp add: chunk_def)
    moreover have "4 \<le> rest - (k + 2)" "rest - (k + 2) \<le> length (drop (k + 2) p)"
      using k6 w(1) by simp_all
    ultimately show ?thesis using nf unfolding header_window_def by blast
  qed
qed

lemma window_line:
  assumes "header_window p rest"
  obtains k where "find_sub CRLF (take rest p) = Some k" "strstr p CRLF = Some k" "k + 2 \<le> rest"
    "rest = 2 \<or> header_window (drop (k + 2) p) (rest - (k + 2))"
proof -
  let ?w = "take rest p"
  have len: "length ?w = rest" using assms by (simp add: header_window_def)
  obtain i where i: "chunk i 2 ?w = CRLF" "i + 2 \<le> rest" "rest = 2 \<or> (4 \<le> rest \<and> i = rest - 4)"
  proof (cases "rest = 2")
    case True
    then show ?thesis using assms that [of 0] by (auto simp: header_window_def chunk_def)
  next
    case False
    then have r: "4 \<le> rest" "take 4 (drop (rest - 4) p) = HDR_END"
      using assms by (auto simp: header_window_def chunk_def)
    have "take 2 (drop (rest - 4) ?w) = take 2 (take 4 (drop (rest - 4) p))"
      using r(1) by (simp add: drop_take min_def)
    then show ?thesis using r that [of "rest - 4"] by (simp add: chunk_def)
  qed
  have "\<exists>k \<le> i. find_sub CRLF ?w = Some k"
    by (rule find_sub_occurs) (use i(1,2) len in \<open>simp_all add: numeral_2_eq_2\<close>)
  then obtain k where k: "find_sub CRLF ?w = Some k" "k \<le> i" by blast
  have "strstr p CRLF = Some k"
    using k(1) assms cstr_window [of rest p] find_sub_prefix
    by (auto simp: strstr_def header_window_def)
  moreover have "k + 2 \<le> rest" using k(2) i(2) by simp
  moreover have "rest = 2 \<or> k + 4 \<le> rest" using k(2) i(3) by arith
  then have "rest = 2 \<or> header_window (drop (k + 2) p) (rest - (k + 2))"
    using window_step [OF assms k(1)] by blast
  ultimately show ?thesis using that k(1) by blast
qed

lemma find_header_window:
  "header_window p rest \<Longrightarrow> header_window q rest \<Longrightarrow> take rest p = take rest q \<Longrightarrow>
   find_header_loop p rest name = find_header_loop q rest name"
proof (induction rest arbitrary: p q rule: less_induct)
  case (less rest)
  obtain k where k: "find_sub CRLF (take rest p) = Some k" "strstr p CRLF = Some k" "k + 2 \<le> rest"
    "rest = 2 \<or> header_window (drop (k + 2) p) (rest - (k + 2))"
    using window_line [OF less.prems(1)] by blast
  obtain k' where k': "find_sub CRLF (take rest q) = Some k'" "strstr q CRLF = Some k'"
    "rest = 2 \<or> header_window (drop (k' + 2) q) (rest - (k' + 2))"
    using window_line [OF less.prems(2)] by blast
  have eq: "k' = k" using k(1) k'(1) less.prems(3) by simp
  have line: "take k p = take k q"
    using less.prems(3) k(3) by (metis add_leD1 min.absorb2 min.commute take_take)
  have rest: "take (rest - (k + 2)) (drop (k + 2) p) = take (rest - (k + 2)) (drop (k + 2) q)"
    using less.prems(3) by (metis drop_take)
  show ?case
  proof (cases "k = 0")
    case True
    then show ?thesis using k(2) k'(2) eq k(3)
      by (subst (1 2) find_header_loop.simps) simp
  next
    case False
    then have "rest \<noteq> 2" using k(3) by simp
    then have "find_header_loop (drop (k + 2) p) (rest - (k + 2)) name =
        find_header_loop (drop (k + 2) q) (rest - (k + 2)) name"
      using less.IH [of "rest - (k + 2)" "drop (k + 2) p" "drop (k + 2) q"] k(3,4) k'(3) eq False rest
      by simp
    then show ?thesis using k(2) k'(2) eq line
      by (subst (1 2) find_header_loop.simps) (simp add: Let_def split: option.split)
  qed
qed

text \<open>The header fields of a response are those of its header bytes, whatever follows them.\<close>

lemma find_header_value_window:
  assumes "header_window b n" "header_window b' n" "take n b = take n b'" "4 \<le> n"
  shows "pw_http_find_header_value b n name = pw_http_find_header_value b' n name"
proof -
  obtain k where k: "find_sub CRLF (take n b) = Some k" "strstr b CRLF = Some k" "k + 2 \<le> n"
    "n = 2 \<or> header_window (drop (k + 2) b) (n - (k + 2))"
    using window_line [OF assms(1)] by blast
  obtain k' where k': "find_sub CRLF (take n b') = Some k'" "strstr b' CRLF = Some k'"
    "n = 2 \<or> header_window (drop (k' + 2) b') (n - (k' + 2))"
    using window_line [OF assms(2)] by blast
  have eq: "k' = k" using k(1) k'(1) assms(3) by simp
  have "take (n - (k + 2)) (drop (k + 2) b) = take (n - (k + 2)) (drop (k + 2) b')"
    using assms(3) by (metis drop_take)
  then have "find_header_loop (drop (k + 2) b) (n - (k + 2)) name =
      find_header_loop (drop (k + 2) b') (n - (k + 2)) name"
    using k(4) k'(3) eq assms(4) by (intro find_header_window) auto
  then show ?thesis using k(2) k'(2) eq by (simp add: pw_http_find_header_value_def)
qed

lemma frame_transfer:
  assumes "strstr b HDR_END = Some e" "take (e + 4) b' = take (e + 4) b"
  shows "header_window b (e + 4)" "header_window b' (e + 4)" "blank_line_offset b' = Some e"
proof -
  have at: "e + 4 \<le> length (cstr b)" "chunk e 4 (cstr b) = HDR_END"
    using find_sub_Some [OF assms(1) [unfolded strstr_def]] by (simp_all add: numeral_eq_Suc)
  have len: "e + 4 \<le> length b" using at(1) length_cstr_le [of b] by simp
  have pre: "take (e + 4) b = take (e + 4) (cstr b)"
    using at(1) unfolding cstr_def by (metis append_take_drop_id takeWhile_dropWhile_id take_append
        diff_is_0_eq' take_0 append_Nil2)
  have nf: "nul_free (take (e + 4) b)" unfolding pre by simp
  have "chunk e 4 x = chunk e 4 (take (e + 4) x)" for x :: bytes by (simp add: chunk_def drop_take)
  then have hdr: "chunk e 4 b = HDR_END" "chunk e 4 b' = HDR_END"
    using at(2) pre assms(2) by metis+
  have len': "e + 4 \<le> length b'"
    using assms(2) len by (metis length_take min.absorb2 min.cobounded1)
  show "header_window b (e + 4)" using len nf hdr by (simp add: header_window_def)
  show "header_window b' (e + 4)" using len' nf hdr assms(2) by (simp add: header_window_def)
  have "find_sub HDR_END (take (e + 4) b') = Some e"
    unfolding assms(2) using strstr_find_sub [OF assms(1)] by (intro find_sub_take) auto
  then show "blank_line_offset b' = Some e"
    unfolding blank_line_offset_def by (metis append_take_drop_id find_sub_prefix)
qed

abbreviation resp_header :: "bytes \<Rightarrow> nat \<Rightarrow> bytes \<Rightarrow> bytes option" where
  "resp_header b e name \<equiv> pw_http_find_header_value b (e + 4) name"

abbreviation resp_has :: "bytes \<Rightarrow> nat \<Rightarrow> bytes \<Rightarrow> bytes \<Rightarrow> bool" where
  "resp_has b e name token \<equiv>
     (case resp_header b e name of None \<Rightarrow> False | Some v \<Rightarrow> pw_http_value_has_token v token)"

lemma complete_cases:
  assumes "read_response rd ex = rr" "rr_complete rr"
  obtains b k e where "read_header_phase rd 0 [] = (b, k, Some e)"
    "\<not> resp_has b e ''Transfer-Encoding'' ''chunked''"
    "rr_reusable rr \<longrightarrow> ex \<and> take 8 b = ''HTTP/1.1'' \<and> \<not> resp_has b e ''Connection'' ''close''"
    "(\<exists>v cl. resp_header b e ''Content-Length'' = Some v \<and> pw_http_parse_size v = Some cl \<and>
        cl \<le> PW_HTTP_MAX_RESPONSE - (e + 4) \<and>
        (cl < length b - (e + 4) \<and> rr_buf rr = take (e + 4 + cl) b \<or>
         length b - (e + 4) \<le> cl \<and> read_body_phase rd k b (cl - (length b - (e + 4))) = (rr_buf rr, 0))) \<or>
     resp_header b e ''Content-Length'' = None \<and> length b = e + 4 \<and> rr_buf rr = b"
proof -
  obtain b k eo where ph: "read_header_phase rd 0 [] = (b, k, eo)" by (metis prod_cases3)
  then obtain e where e: "eo = Some e" using assms by (cases eo) (auto simp: read_response_def)
  show ?thesis
  proof (rule that [OF ph [unfolded e]])
    show "\<not> resp_has b e ''Transfer-Encoding'' ''chunked''"
      using assms by (auto simp: read_response_def ph e Let_def)
    then show "rr_reusable rr \<longrightarrow> ex \<and> take 8 b = ''HTTP/1.1'' \<and> \<not> resp_has b e ''Connection'' ''close''"
      using assms by (auto simp: read_response_def ph e Let_def split: option.splits if_splits prod.splits)
    show "(\<exists>v cl. resp_header b e ''Content-Length'' = Some v \<and> pw_http_parse_size v = Some cl \<and>
        cl \<le> PW_HTTP_MAX_RESPONSE - (e + 4) \<and>
        (cl < length b - (e + 4) \<and> rr_buf rr = take (e + 4 + cl) b \<or>
         length b - (e + 4) \<le> cl \<and> read_body_phase rd k b (cl - (length b - (e + 4))) = (rr_buf rr, 0))) \<or>
     resp_header b e ''Content-Length'' = None \<and> length b = e + 4 \<and> rr_buf rr = b"
      using assms by (auto simp: read_response_def ph e Let_def split: option.splits if_splits prod.splits)
  qed
qed

lemma complete_frame:
  assumes "read_response rd ex = rr" "rr_complete rr" "read_header_phase rd 0 [] = (b, k, Some e)"
  shows "take (e + 4) (rr_buf rr) = take (e + 4) b" "strstr b HDR_END = Some e"
    "length (rr_buf rr) \<le> PW_HTTP_MAX_RESPONSE"
    "case resp_header b e ''Content-Length'' of None \<Rightarrow> length (rr_buf rr) = e + 4
     | Some v \<Rightarrow> pw_http_parse_size v = Some (length (rr_buf rr) - (e + 4))"
proof -
  from header_phase_Some [OF assms(3)]
  have ph: "strstr b HDR_END = Some e" "length b \<le> PW_HTTP_MAX_RESPONSE" by simp_all
  have len: "e + 4 \<le> length b" using frame_transfer(1) [OF ph(1) refl] by (simp add: header_window_def)
  show "strstr b HDR_END = Some e" by (rule ph(1))
  from assms(1,2) obtain b1 k1 e1 where "read_header_phase rd 0 [] = (b1, k1, Some e1)"
    "(\<exists>v cl. resp_header b1 e1 ''Content-Length'' = Some v \<and> pw_http_parse_size v = Some cl \<and>
        cl \<le> PW_HTTP_MAX_RESPONSE - (e1 + 4) \<and>
        (cl < length b1 - (e1 + 4) \<and> rr_buf rr = take (e1 + 4 + cl) b1 \<or>
         length b1 - (e1 + 4) \<le> cl \<and> read_body_phase rd k1 b1 (cl - (length b1 - (e1 + 4))) = (rr_buf rr, 0))) \<or>
     resp_header b1 e1 ''Content-Length'' = None \<and> length b1 = e1 + 4 \<and> rr_buf rr = b1"
    by (rule complete_cases)
  then consider
      (short) v cl where "resp_header b e ''Content-Length'' = Some v" "pw_http_parse_size v = Some cl"
        "cl < length b - (e + 4)" "rr_buf rr = take (e + 4 + cl) b"
    | (full) v cl where "resp_header b e ''Content-Length'' = Some v" "pw_http_parse_size v = Some cl"
        "cl \<le> PW_HTTP_MAX_RESPONSE - (e + 4)" "length b - (e + 4) \<le> cl"
        "read_body_phase rd k b (cl - (length b - (e + 4))) = (rr_buf rr, 0)"
    | (bare) "resp_header b e ''Content-Length'' = None" "length b = e + 4" "rr_buf rr = b"
    using assms(3) by auto
  then have "take (e + 4) (rr_buf rr) = take (e + 4) b \<and> length (rr_buf rr) \<le> PW_HTTP_MAX_RESPONSE \<and>
    (case resp_header b e ''Content-Length'' of None \<Rightarrow> length (rr_buf rr) = e + 4
     | Some v \<Rightarrow> pw_http_parse_size v = Some (length (rr_buf rr) - (e + 4)))"
  proof cases
    case short
    then have "length (rr_buf rr) = e + 4 + cl" using len by simp
    then show ?thesis using short ph(2) by (simp add: min_def)
  next
    case full
    have fit: "length b + (cl - (length b - (e + 4))) = e + 4 + cl" "e + 4 + cl \<le> PW_HTTP_MAX_RESPONSE"
      using full(3,4) len ph(2) by linarith+
    from body_phase [OF full(5)] fit have body: "length (rr_buf rr) = e + 4 + cl"
      "take (length b) (rr_buf rr) = b" by auto
    have "take (e + 4) (rr_buf rr) = take (e + 4) (take (length b) (rr_buf rr))"
      using len by (simp add: min_def)
    then show ?thesis using body fit(2) full(1,2) by simp
  next
    case bare
    then show ?thesis using ph(2) by simp
  qed
  then show "take (e + 4) (rr_buf rr) = take (e + 4) b" "length (rr_buf rr) \<le> PW_HTTP_MAX_RESPONSE"
    "case resp_header b e ''Content-Length'' of None \<Rightarrow> length (rr_buf rr) = e + 4
     | Some v \<Rightarrow> pw_http_parse_size v = Some (length (rr_buf rr) - (e + 4))" by simp_all
qed

lemma response_blank_line:
  assumes "read_response rd ex = rr" "rr_complete rr"
  shows "\<exists>e. blank_line_offset (rr_buf rr) = Some e"
proof -
  obtain b k e where ph: "read_header_phase rd 0 [] = (b, k, Some e)"
    using complete_cases [OF assms] by metis
  from complete_frame(1,2) [OF assms ph] show ?thesis by (blast intro: frame_transfer(3))
qed

lemma response_nonempty: "read_response rd ex = rr \<Longrightarrow> rr_complete rr \<Longrightarrow> rr_buf rr \<noteq> []"
  using response_blank_line [of rd ex rr] by (auto simp: blank_line_offset_def)

section \<open>Properties\<close>





section \<open>Tokens\<close>

text \<open>The callout tree of a context: one entry per token, in order, none beyond the counter.\<close>

definition calls_ok :: "proxy_ctx \<Rightarrow> bool" where
  "calls_ok ctx \<longleftrightarrow> sorted_wrt (<) (map hce_token (http_calls ctx)) \<and>
     list_all (\<lambda>e. hce_token e \<le> http_call_next_token ctx) (http_calls ctx)"

lemma calls_insert_last:
  "list_all (\<lambda>x. hce_token x < hce_token e) xs \<Longrightarrow> http_calls_insert e xs = xs @ [e]"
  by (induction xs) (auto simp: vwasm_http_call_cmp_def)

lemma prepare_error: "call_prepare ctx hp args = Inl st \<Longrightarrow> st \<noteq> PROXY_OK"
  by (auto simp: call_prepare_def Let_def split: option.splits if_splits)

lemma incomplete_status: "\<not> rr_complete (read_response rd ex) \<Longrightarrow> rr_status (read_response rd ex) \<noteq> PROXY_OK"
  by (auto simp: read_response_def Let_def split: option.splits if_splits prod.splits)

text \<open>What a call does to the tree: nothing, or one new entry with the next token.\<close>

definition call_stored :: "proxy_ctx \<Rightarrow> u32 \<Rightarrow> bytes \<Rightarrow> proxy_ctx \<Rightarrow> bool" where
  "call_stored ctx ret buf ctx' \<longleftrightarrow>
     (\<exists>e. http_calls ctx' = http_calls ctx @ [e] \<and> hce_token e = http_call_next_token ctx + 1 \<and>
        http_call_next_token ctx' = http_call_next_token ctx + 1 \<and>
        hcr_raw (hce_response e) = Some buf \<and> hcr_body (hce_response e) = fst (parse_response buf) \<and>
        get32 (chunk (unat ret) 4 (memory ctx')) = hce_token e)"

lemma store_calls:
  assumes "calls_ok ctx" "http_call_next_token ctx < http_call_next_token ctx + 1"
    and "call_store ne ctx buf ret = (ctx', st)"
  shows "if st = PROXY_OK then call_stored ctx ret buf ctx'
    else http_calls ctx' = http_calls ctx \<and> http_call_next_token ctx' = http_call_next_token ctx + 1"
proof -
  let ?t = "http_call_next_token ctx + 1"
  let ?e = "\<lparr>hce_token = ?t, hce_response = \<lparr>hcr_raw = Some buf, hcr_num_headers = snd (parse_response buf),
    hcr_body = fst (parse_response buf), hcr_valid = True\<rparr>\<rparr>"
  have ins: "http_calls_insert ?e (http_calls ctx) = http_calls ctx @ [?e]"
    using assms(1,2) by (intro calls_insert_last) (auto simp: calls_ok_def list_all_iff)
  have mem: "get32 (chunk (unat ret) 4 (put (unat ret) (put32 ?t) (memory ctx))) = ?t"
    if "unat ret + 4 \<le> length (memory ctx)"
    using that chunk_put_same [of "unat ret" "put32 ?t" "memory ctx"] by simp
  show ?thesis using assms(3) ins mem
    by (auto simp: call_store_def write_u32_cases validate_region_iff call_stored_def Let_def
        split: if_splits prod.splits)
qed

lemma calls_ok_stored:
  assumes "calls_ok ctx" "http_call_next_token ctx < http_call_next_token ctx + 1" "call_stored ctx ret buf ctx'"
  shows "calls_ok ctx'"
proof -
  obtain e where e: "http_calls ctx' = http_calls ctx @ [e]" "hce_token e = http_call_next_token ctx + 1"
    "http_call_next_token ctx' = http_call_next_token ctx + 1"
    using assms(3) by (auto simp: call_stored_def)
  have "hce_token x < hce_token e" if "x \<in> set (http_calls ctx)" for x
    using that assms(1,2) e(2) by (auto simp: calls_ok_def list_all_iff)
  moreover have "hce_token x \<le> http_call_next_token ctx'" if "x \<in> set (http_calls ctx)" for x
    using that assms(1,2) e(3) by (auto simp: calls_ok_def list_all_iff)
  ultimately show ?thesis using assms(1) e
    by (auto simp: calls_ok_def sorted_wrt_append list_all_iff)
qed

lemma exchange_calls:
  assumes "calls_ok ctx" "http_call_next_token ctx < http_call_next_token ctx + 1"
    and "call_exchange ne ctx p host port conn req body ex ret closed d = r"
  shows "if cr_status r = PROXY_OK
    then rr_complete (read_response (ne_read ne) ex) \<and>
      call_stored ctx ret (rr_buf (read_response (ne_read ne) ex)) (cr_ctx r)
    else http_calls (cr_ctx r) = http_calls ctx \<and> http_call_next_token ctx \<le> http_call_next_token (cr_ctx r)"
proof -
  let ?rr = "read_response (ne_read ne) ex"
  obtain ctx1 st1 where store: "call_store ne ctx (rr_buf ?rr) ret = (ctx1, st1)" by (metis prod.exhaust)
  have buf: "rr_buf ?rr \<noteq> []" if "rr_complete ?rr"
    using response_nonempty [OF refl that] .
  show ?thesis
    using assms(3) store_calls [OF assms(1,2) store] incomplete_status [of "ne_read ne" ex] buf assms(2)
    by (auto simp: call_exchange_def store Let_def split: prod.splits if_splits)
qed

text \<open>Callouts get distinct tokens. As long as the 32-bit counter does not wrap, a successful callout
  adds one entry, under a token no earlier entry of the request has; the token is what the guest finds
  at its return pointer, and the entry holds the response and, as its body, what follows the blank
  line. Every other outcome leaves the entries as they were.\<close>

theorem call_token_fresh:
  assumes "calls_ok ctx" "http_call_next_token ctx < http_call_next_token ctx + 1"
    and "pw_proxy_http_call ne ctx poolp args = r"
  shows "calls_ok (cr_ctx r) \<and>
    (if cr_status r = PROXY_OK
     then \<exists>buf e. call_stored ctx (args 9) buf (cr_ctx r) \<and> blank_line_offset buf = Some e \<and>
       fst (parse_response buf) = Some (drop (e + 4) buf)
     else http_calls (cr_ctx r) = http_calls ctx)"
  using assms(3)
proof (cases rule: call_cases)
  case (refused st)
  then show ?thesis using assms(1) prepare_error by (auto simp: calls_ok_def)
next
  case (exchanged host port ex req body p conn closed d)
  have inv: "calls_ok (counted ctx)" using assms(1) by (simp add: calls_ok_def)
  let ?rr = "read_response (ne_read ne) ex"
  note shape = exchange_calls [OF inv _ exchanged(4) [symmetric]]
  show ?thesis
  proof (cases "cr_status r = PROXY_OK")
    case True
    then have st: "rr_complete ?rr" "call_stored (counted ctx) (args 9) (rr_buf ?rr) (cr_ctx r)"
      using shape assms(2) by simp_all
    then have "call_stored ctx (args 9) (rr_buf ?rr) (cr_ctx r)" by (simp add: call_stored_def)
    moreover obtain e where "blank_line_offset (rr_buf ?rr) = Some e"
      using response_blank_line [OF refl st(1)] by blast
    moreover from this have "fst (parse_response (rr_buf ?rr)) = Some (drop (e + 4) (rr_buf ?rr))"
      by (simp add: parse_response_def)
    ultimately show ?thesis using True calls_ok_stored [OF assms(1,2)] by auto
  next
    case False
    then show ?thesis using shape assms(1,2) by (auto simp: calls_ok_def list_all_iff)
  qed
qed (use assms(1) in \<open>auto simp: calls_ok_def\<close>)

theorem call_token_fresh_witness:
  "calls_ok (cr_ctx (pw_proxy_http_call call_net call_ctx None call_args))"
  using call_token_fresh [of call_ctx call_net None call_args]
  by (simp add: call_ctx_def pctx_zero_def calls_ok_def)

end
