(* ===== verification/Header_Map.thy ===== *)
theory Header_Map
  imports Proxy_Context "HOL-Library.Multiset"
begin

text \<open>
  The header maps of \<^verbatim>\<open>src/proxy_wasm_headers.c\<close>: the request and response headers Varnish holds, the
  two trailer maps of the context, and the header block of the active callout's response. A guest
  reads and writes them one by one or all at once in the serialized form: the number of pairs, the
  lengths of the names and values, then the names and values, each with a NUL.

  Varnish's own operations on \<open>struct http\<close> are the record \<open>varnish\<close>. A mutable message is named by the
  place it has in the request context.
\<close>

section \<open>Finding a map\<close>

definition pw_get_header_map :: "proxy_ctx \<Rightarrow> u32 \<Rightarrow> http option" where
  "pw_get_header_map ctx map_type =
     (case vrt ctx of
        None \<Rightarrow> None
      | Some vctx \<Rightarrow>
          if map_type = PROXY_MAP_HTTP_REQUEST_HEADERS then http_req vctx
          else if map_type = PROXY_MAP_HTTP_RESPONSE_HEADERS
          then (if http_resp vctx \<noteq> None then http_resp vctx else http_beresp vctx)
          else None)"

datatype http_ref = Req_Http | Resp_Http | Beresp_Http

definition pw_get_header_map_mutable :: "proxy_ctx \<Rightarrow> u32 \<Rightarrow> http_ref option" where
  "pw_get_header_map_mutable ctx map_type =
     (case vrt ctx of
        None \<Rightarrow> None
      | Some vctx \<Rightarrow>
          if map_type = PROXY_MAP_HTTP_REQUEST_HEADERS
          then (if http_req vctx \<noteq> None then Some Req_Http else None)
          else if map_type = PROXY_MAP_HTTP_RESPONSE_HEADERS
          then (if http_resp vctx \<noteq> None then Some Resp_Http
                else if http_beresp vctx \<noteq> None then Some Beresp_Http else None)
          else None)"

text \<open>Writing through the pointer: \<open>f\<close> on the message it points to.\<close>

definition http_update :: "http_ref \<Rightarrow> (http \<Rightarrow> http) \<Rightarrow> proxy_ctx \<Rightarrow> proxy_ctx" where
  "http_update ref f ctx =
     ctx\<lparr>vrt := map_option (\<lambda>vctx. case ref of
            Req_Http \<Rightarrow> vctx\<lparr>http_req := map_option f (http_req vctx)\<rparr>
          | Resp_Http \<Rightarrow> vctx\<lparr>http_resp := map_option f (http_resp vctx)\<rparr>
          | Beresp_Http \<Rightarrow> vctx\<lparr>http_beresp := map_option f (http_beresp vctx)\<rparr>) (vrt ctx)\<rparr>"

section \<open>Trailers\<close>

definition pw_is_trailer_map :: "u32 \<Rightarrow> bool" where
  "pw_is_trailer_map map_type \<longleftrightarrow>
     map_type = PROXY_MAP_HTTP_REQUEST_TRAILERS \<or> map_type = PROXY_MAP_HTTP_RESPONSE_TRAILERS"

definition pw_is_known_map :: "u32 \<Rightarrow> bool" where
  "pw_is_known_map map_type \<longleftrightarrow>
     map_type = PROXY_MAP_HTTP_REQUEST_HEADERS \<or> map_type = PROXY_MAP_HTTP_REQUEST_TRAILERS \<or>
     map_type = PROXY_MAP_HTTP_RESPONSE_HEADERS \<or> map_type = PROXY_MAP_HTTP_RESPONSE_TRAILERS \<or>
     map_type = PROXY_MAP_GRPC_CALL_INITIAL_MD \<or> map_type = PROXY_MAP_GRPC_CALL_TRAILING_MD \<or>
     map_type = PROXY_MAP_HTTP_CALL_RESP_HEADERS \<or> map_type = PROXY_MAP_HTTP_CALL_RESP_TRAILERS"

definition pw_get_trailer_map :: "proxy_ctx \<Rightarrow> u32 \<Rightarrow> trailer_map option" where
  "pw_get_trailer_map ctx map_type =
     (if map_type = PROXY_MAP_HTTP_REQUEST_TRAILERS then Some (request_trailers ctx)
      else if map_type = PROXY_MAP_HTTP_RESPONSE_TRAILERS then Some (response_trailers ctx)
      else None)"

definition trailer_update :: "u32 \<Rightarrow> trailer_map \<Rightarrow> proxy_ctx \<Rightarrow> proxy_ctx" where
  "trailer_update map_type tm ctx =
     (if map_type = PROXY_MAP_HTTP_REQUEST_TRAILERS then ctx\<lparr>request_trailers := tm\<rparr>
      else if map_type = PROXY_MAP_HTTP_RESPONSE_TRAILERS then ctx\<lparr>response_trailers := tm\<rparr>
      else ctx)"

definition trailer_match :: "bytes \<Rightarrow> trailer_entry \<Rightarrow> bool" where
  "trailer_match name e \<longleftrightarrow> length (te_name e) = length name \<and> strncaseeq (length name) (te_name e) name"

definition pw_trailer_get :: "trailer_map \<Rightarrow> bytes \<Rightarrow> bytes option" where
  "pw_trailer_get tm name = map_option te_value (find (trailer_match name) (tm_entries tm))"

text \<open>The map and whether the routine returned 0; the allocations are the name and the value.\<close>

definition pw_trailer_add :: "malloc \<Rightarrow> trailer_map \<Rightarrow> bytes \<Rightarrow> bytes \<Rightarrow> trailer_map \<times> bool" where
  "pw_trailer_add al tm name val =
     (if length (tm_entries tm) \<ge> VWASM_MAX_TRAILERS then (tm, False)
      else if \<not> al 0 then (tm, False)
      else if \<not> al 1 then (tm, False)
      else (tm\<lparr>tm_entries := tm_entries tm @ [\<lparr>te_name = name, te_value = val\<rparr>]\<rparr>, True))"

text \<open>The last entry takes the place of the removed one.\<close>

definition pw_trailer_remove :: "trailer_map \<Rightarrow> bytes \<Rightarrow> trailer_map" where
  "pw_trailer_remove tm name =
     (case find_index (trailer_match name) (tm_entries tm) of
        None \<Rightarrow> tm
      | Some i \<Rightarrow>
          (let es = tm_entries tm; n = length es;
               es = (if i < n - 1 then es[i := es ! (n - 1)] else es)
           in tm\<lparr>tm_entries := take (n - 1) es\<rparr>))"

definition pw_trailer_clear :: "trailer_map \<Rightarrow> trailer_map" where
  "pw_trailer_clear tm = tm\<lparr>tm_entries := []\<rparr>"

section \<open>The response of a callout\<close>

abbreviation HDR_EOL :: bytes where "HDR_EOL \<equiv> [CR, LF]"

definition callout_raw :: "proxy_ctx \<Rightarrow> bytes option" where
  "callout_raw ctx =
     (case active_http_call ctx of
        None \<Rightarrow> None
      | Some call \<Rightarrow> if \<not> hcr_valid (hce_response call) then None else hcr_raw (hce_response call))"

text \<open>The status of a status line of \<open>k\<close> bytes: the word after the first space.\<close>

definition callout_status :: "bytes \<Rightarrow> nat \<Rightarrow> bytes option" where
  "callout_status raw k =
     (case memchr SP (take k raw) of
        None \<Rightarrow> None
      | Some j \<Rightarrow>
          (let sp = drop (j + 1) (take k raw)
           in Some (case memchr SP sp of None \<Rightarrow> sp | Some j2 \<Rightarrow> take j2 sp)))"

lemma strstr_eol_pos: "strstr p HDR_EOL = Some k \<Longrightarrow> k + 2 \<le> length p"
  using find_sub_Some [of HDR_EOL "cstr p" k] length_cstr_le [of p] by (simp add: strstr_def)

text \<open>The line loop of the lookup, from \<open>p\<close> to the end of the response.\<close>

function find_callout_loop :: "bytes \<Rightarrow> bytes \<Rightarrow> bytes option" where
  "find_callout_loop p key =
     (if p = [] then None
      else case strstr p HDR_EOL of
             None \<Rightarrow> None
           | Some k \<Rightarrow>
               if k = 0 then None
               else if k > length key + 1 \<and> strncaseeq (length key) p key \<and> p ! length key = CHR '':''
               then Some (skip_blanks (drop (length key + 1) (take k p)))
               else find_callout_loop (drop (k + 2) p) key)"
  by pat_completeness auto
termination
  by (relation "measure (\<lambda>(p, key). length p)") (auto dest: strstr_eol_pos)

declare find_callout_loop.simps [simp del]

definition pw_http_call_response_find_header :: "proxy_ctx \<Rightarrow> bytes \<Rightarrow> bytes option" where
  "pw_http_call_response_find_header ctx key =
     (case callout_raw ctx of
        None \<Rightarrow> None
      | Some raw \<Rightarrow>
          (case strstr raw HDR_EOL of
             None \<Rightarrow> None
           | Some k \<Rightarrow>
               if cstr key = '':status'' then callout_status raw k
               else find_callout_loop (drop (k + 2) raw) (cstr key)))"

text \<open>The line loop that collects up to 64 headers; lines without a colon are skipped.\<close>

function callout_loop :: "nat \<Rightarrow> bytes \<Rightarrow> (bytes \<times> bytes) list" where
  "callout_loop cnt p =
     (if p = [] \<or> cnt \<ge> 64 then []
      else case strstr p HDR_EOL of
             None \<Rightarrow> []
           | Some k \<Rightarrow>
               if k = 0 then []
               else (case memchr (CHR '':'') (take k p) of
                       Some c \<Rightarrow> (take c p, skip_blanks (drop (c + 1) (take k p))) #
                                  callout_loop (cnt + 1) (drop (k + 2) p)
                     | None \<Rightarrow> callout_loop cnt (drop (k + 2) p)))"
  by pat_completeness auto
termination
  by (relation "measure (\<lambda>(cnt, p). length p)") (auto dest: strstr_eol_pos)

declare callout_loop.simps [simp del]

definition callout_headers :: "bytes \<Rightarrow> (bytes \<times> bytes) list" where
  "callout_headers raw =
     (case strstr raw HDR_EOL of
        None \<Rightarrow> []
      | Some k \<Rightarrow>
          (case callout_status raw k of
             Some v \<Rightarrow> ('':status'', v) # callout_loop 1 (drop (k + 2) raw)
           | None \<Rightarrow> callout_loop 0 (drop (k + 2) raw)))"

text \<open>The loop that measures the same headers: how many, and the size of their serialized form.\<close>

function callout_size_loop :: "nat \<Rightarrow> nat \<Rightarrow> bytes \<Rightarrow> nat \<times> nat" where
  "callout_size_loop cnt sz p =
     (if p = [] \<or> cnt \<ge> 64 then (cnt, sz)
      else case strstr p HDR_EOL of
             None \<Rightarrow> (cnt, sz)
           | Some k \<Rightarrow>
               if k = 0 then (cnt, sz)
               else (case memchr (CHR '':'') (take k p) of
                       Some c \<Rightarrow>
                         callout_size_loop (cnt + 1)
                           (sz + 8 + c + 1 + length (skip_blanks (drop (c + 1) (take k p))) + 1)
                           (drop (k + 2) p)
                     | None \<Rightarrow> callout_size_loop cnt sz (drop (k + 2) p)))"
  by pat_completeness auto
termination
  by (relation "measure (\<lambda>(cnt, sz, p). length p)") (auto dest: strstr_eol_pos)

declare callout_size_loop.simps [simp del]

definition pw_http_call_response_headers_size :: "proxy_ctx \<Rightarrow> nat" where
  "pw_http_call_response_headers_size ctx =
     (case callout_raw ctx of
        None \<Rightarrow> 0
      | Some raw \<Rightarrow>
          (let (cnt, sz) =
                 (case strstr raw HDR_EOL of
                    None \<Rightarrow> (0, 4)
                  | Some k \<Rightarrow>
                      (case callout_status raw k of
                         Some v \<Rightarrow> callout_size_loop 1 (4 + 8 + length '':status'' + 1 + length v + 1)
                                     (drop (k + 2) raw)
                       | None \<Rightarrow> callout_size_loop 0 4 (drop (k + 2) raw)))
           in if cnt = 0 then 0 else sz))"

section \<open>Serialization\<close>

definition pairs_size :: "(bytes \<times> bytes) list \<Rightarrow> nat" where
  "pairs_size ps = 4 + length ps * 8 + sum_list (map (\<lambda>(k, v). length k + 1 + length v + 1) ps)"

definition serialize_pairs :: "(bytes \<times> bytes) list \<Rightarrow> bytes" where
  "serialize_pairs ps =
     put32 (of_nat (length ps)) @
     concat (map (\<lambda>(k, v). put32 (of_nat (length k)) @ put32 (of_nat (length v))) ps) @
     concat (map (\<lambda>(k, v). k @ [NUL] @ v @ [NUL]) ps)"

text \<open>A header line as a name and a value: split at the first colon, blanks skipped.\<close>

definition header_pair :: "bytes option \<Rightarrow> bytes \<times> bytes" where
  "header_pair line =
     (case line of
        None \<Rightarrow> ([], [])
      | Some l \<Rightarrow>
          (case memchr (CHR '':'') (cstr l) of
             None \<Rightarrow> (cstr l, [])
           | Some c \<Rightarrow> (take c l, skip_blanks (drop (c + 1) (cstr l)))))"

definition is_host_line :: "bytes option \<Rightarrow> bool" where
  "is_host_line line = (case line of None \<Rightarrow> False | Some l \<Rightarrow> strncaseeq 5 (cstr l) ''Host:'')"

definition host_pseudo :: "http \<Rightarrow> (bytes \<times> bytes) list" where
  "host_pseudo hp =
     (case find is_host_line (hd_lines hp) of
        Some (Some l) \<Rightarrow> [('':authority'', skip_blanks (drop 5 (cstr l)))]
      | _ \<Rightarrow> [])"

definition opt_pseudo :: "bytes \<Rightarrow> bytes option \<Rightarrow> (bytes \<times> bytes) list" where
  "opt_pseudo name v = (case v of None \<Rightarrow> [] | Some b \<Rightarrow> [(name, cstr b)])"

definition pseudo_headers :: "u32 \<Rightarrow> http \<Rightarrow> (bytes \<times> bytes) list" where
  "pseudo_headers map_type hp =
     (if map_type = 0 then
        opt_pseudo '':method'' (hd_method hp) @ opt_pseudo '':path'' (hd_url hp) @ host_pseudo hp
      else if map_type = PROXY_MAP_HTTP_RESPONSE_HEADERS then opt_pseudo '':status'' (hd_status hp)
      else [])"

section \<open>The host functions\<close>

text \<open>The result of a host function is the context and the status it returns. \<open>ret\<close> turns the result of
  the guest-memory routines into them.\<close>

abbreviation ret :: "proxy_status \<Rightarrow> proxy_ctx \<times> bool \<Rightarrow> proxy_ctx \<times> proxy_status" where
  "ret err r \<equiv> (fst r, if snd r then PROXY_OK else err)"

definition hdr_search :: "bytes \<Rightarrow> bytes" where
  "hdr_search key = char_of (length (cstr key) + 1) # cstr key @ '':''"

definition pw_proxy_get_header_map_value ::
  "varnish \<Rightarrow> proxy_ctx \<Rightarrow> (nat \<Rightarrow> u32) \<Rightarrow> proxy_ctx \<times> proxy_status" where
  "pw_proxy_get_header_map_value vn ctx args =
     (case pw_read_string ctx (args 1) (args 2) 256 of
        None \<Rightarrow> (ctx, PROXY_BAD_ARGUMENT)
      | Some key \<Rightarrow>
          (let map_type = args 0;
               give = (\<lambda>v. ret PROXY_INTERNAL (pw_return_string ctx (Some v) (length v) (args 3) (args 4)))
           in if pw_is_trailer_map map_type then
                (case pw_get_trailer_map ctx map_type of
                   None \<Rightarrow> (ctx, PROXY_BAD_ARGUMENT)
                 | Some tm \<Rightarrow>
                     (case pw_trailer_get tm (cstr key) of
                        None \<Rightarrow> (ctx, PROXY_NOT_FOUND)
                      | Some v \<Rightarrow> give v))
              else if map_type = PROXY_MAP_HTTP_CALL_RESP_HEADERS then
                (case pw_http_call_response_find_header ctx key of
                   None \<Rightarrow> (ctx, PROXY_NOT_FOUND)
                 | Some v \<Rightarrow> give v)
              else if map_type = PROXY_MAP_HTTP_CALL_RESP_TRAILERS \<or>
                      map_type = PROXY_MAP_GRPC_CALL_INITIAL_MD \<or>
                      map_type = PROXY_MAP_GRPC_CALL_TRAILING_MD then (ctx, PROXY_NOT_FOUND)
              else
                (case pw_get_header_map ctx map_type of
                   None \<Rightarrow> (ctx, PROXY_BAD_ARGUMENT)
                 | Some hp \<Rightarrow>
                     if length (cstr key) + 1 \<ge> 259 then (ctx, PROXY_BAD_ARGUMENT)
                     else (case v_GetHdr vn hp (hdr_search key) of
                             None \<Rightarrow> (ctx, PROXY_NOT_FOUND)
                           | Some v \<Rightarrow> give (skip_blanks (cstr v))))))"

definition pw_proxy_add_header_map_value ::
  "malloc \<Rightarrow> varnish \<Rightarrow> proxy_ctx \<Rightarrow> (nat \<Rightarrow> u32) \<Rightarrow> proxy_ctx \<times> proxy_status" where
  "pw_proxy_add_header_map_value al vn ctx args =
     (case (pw_read_string ctx (args 1) (args 2) 256, pw_read_string ctx (args 3) (args 4) 4096) of
        (Some key, Some val) \<Rightarrow>
          (let map_type = args 0 in
           if pw_is_trailer_map map_type then
             (case pw_get_trailer_map ctx map_type of
                None \<Rightarrow> (ctx, PROXY_BAD_ARGUMENT)
              | Some tm \<Rightarrow>
                  (case pw_trailer_add al tm (cstr key) (cstr val) of
                     (tm, False) \<Rightarrow> (ctx, PROXY_INTERNAL)
                   | (tm, True) \<Rightarrow> (trailer_update map_type tm ctx, PROXY_OK)))
           else
             (case pw_get_header_map_mutable ctx map_type of
                None \<Rightarrow> (ctx, PROXY_BAD_ARGUMENT)
              | Some ref \<Rightarrow>
                  (let hdr_line = take 4351 (cstr key @ '': '' @ cstr val) in
                   if \<not> v_ws vn 0 then (ctx, PROXY_INTERNAL)
                   else (http_update ref (\<lambda>hp. v_SetHeader vn hp hdr_line) ctx, PROXY_OK))))
      | _ \<Rightarrow> (ctx, PROXY_BAD_ARGUMENT))"

definition pw_proxy_replace_header_map_value ::
  "malloc \<Rightarrow> varnish \<Rightarrow> proxy_ctx \<Rightarrow> (nat \<Rightarrow> u32) \<Rightarrow> proxy_ctx \<times> proxy_status" where
  "pw_proxy_replace_header_map_value al vn ctx args =
     (case (pw_read_string ctx (args 1) (args 2) 256, pw_read_string ctx (args 3) (args 4) 4096) of
        (Some key, Some val) \<Rightarrow>
          (let map_type = args 0 in
           if pw_is_trailer_map map_type then
             (case pw_get_trailer_map ctx map_type of
                None \<Rightarrow> (ctx, PROXY_BAD_ARGUMENT)
              | Some tm \<Rightarrow>
                  (let tm = pw_trailer_remove tm (cstr key);
                       tm = fst (pw_trailer_add al tm (cstr key) (cstr val))
                   in (trailer_update map_type tm ctx, PROXY_OK)))
           else
             (case pw_get_header_map_mutable ctx map_type of
                None \<Rightarrow> (ctx, PROXY_BAD_ARGUMENT)
              | Some ref \<Rightarrow>
                  (let i = length (cstr key) + 1;
                       ctx = (if i < 259 then http_update ref (\<lambda>hp. v_Unset vn hp (hdr_search key)) ctx
                              else ctx);
                       hdr_line = take 4351 (cstr key @ '': '' @ cstr val)
                   in if \<not> v_ws vn 0 then (ctx, PROXY_INTERNAL)
                      else (http_update ref (\<lambda>hp. v_SetHeader vn hp hdr_line) ctx, PROXY_OK))))
      | _ \<Rightarrow> (ctx, PROXY_BAD_ARGUMENT))"

definition pw_proxy_remove_header_map_value ::
  "varnish \<Rightarrow> proxy_ctx \<Rightarrow> (nat \<Rightarrow> u32) \<Rightarrow> proxy_ctx \<times> proxy_status" where
  "pw_proxy_remove_header_map_value vn ctx args =
     (case pw_read_string ctx (args 1) (args 2) 256 of
        None \<Rightarrow> (ctx, PROXY_BAD_ARGUMENT)
      | Some key \<Rightarrow>
          (let map_type = args 0 in
           if pw_is_trailer_map map_type then
             (case pw_get_trailer_map ctx map_type of
                None \<Rightarrow> (ctx, PROXY_BAD_ARGUMENT)
              | Some tm \<Rightarrow> (trailer_update map_type (pw_trailer_remove tm (cstr key)) ctx, PROXY_OK))
           else
             (case pw_get_header_map_mutable ctx map_type of
                None \<Rightarrow> (ctx, PROXY_BAD_ARGUMENT)
              | Some ref \<Rightarrow>
                  if length (cstr key) + 1 \<ge> 259 then (ctx, PROXY_BAD_ARGUMENT)
                  else (http_update ref (\<lambda>hp. v_Unset vn hp (hdr_search key)) ctx, PROXY_OK))))"

text \<open>The pairs of a map, and \<open>None\<close> where the code returns an empty buffer without serializing.\<close>

definition map_pairs :: "proxy_ctx \<Rightarrow> u32 \<Rightarrow> (bytes \<times> bytes) list option" where
  "map_pairs ctx map_type =
     (if pw_is_trailer_map map_type then
        (case pw_get_trailer_map ctx map_type of
           None \<Rightarrow> None
         | Some tm \<Rightarrow> if tm_entries tm = [] then None
                       else Some (map (\<lambda>e. (te_name e, te_value e)) (tm_entries tm)))
      else if map_type = PROXY_MAP_HTTP_CALL_RESP_HEADERS then map_option callout_headers (callout_raw ctx)
      else if map_type = PROXY_MAP_HTTP_CALL_RESP_TRAILERS \<or> map_type = PROXY_MAP_GRPC_CALL_INITIAL_MD \<or>
              map_type = PROXY_MAP_GRPC_CALL_TRAILING_MD then None
      else (case pw_get_header_map ctx map_type of
              None \<Rightarrow> None
            | Some hp \<Rightarrow> Some (pseudo_headers map_type hp @ map header_pair (hd_lines hp))))"

definition pw_proxy_get_header_map_pairs ::
  "malloc \<Rightarrow> proxy_ctx \<Rightarrow> (nat \<Rightarrow> u32) \<Rightarrow> proxy_ctx \<times> proxy_status" where
  "pw_proxy_get_header_map_pairs al ctx args =
     (case map_pairs ctx (args 0) of
        None \<Rightarrow> ret PROXY_INTERNAL (pw_return_bytes ctx None 0 (args 1) (args 2))
      | Some ps \<Rightarrow>
          if \<not> al 0 then (ctx, PROXY_INTERNAL)
          else
            (let buf = serialize_pairs ps; offset = (of_nat (length buf) :: u32)
             in ret PROXY_INTERNAL (pw_return_bytes ctx (Some buf) (unat offset) (args 1) (args 2))))"

text \<open>One round of the loops of \<open>proxy_set_header_map_pairs\<close>: \<open>d\<close> is the memory from the data pointer on,
  the sizes and the offset are 32-bit. \<open>None\<close> is the \<open>break\<close>; otherwise the next offset and the pair, if it
  is used.\<close>

definition set_pair_step :: "bytes \<Rightarrow> u32 \<Rightarrow> nat \<Rightarrow> u32 \<Rightarrow> (u32 \<times> (bytes \<times> bytes) option) option" where
  "set_pair_step d data_size i offset =
     (let key_size = get32 (drop (4 + i * 8) d); val_size = get32 (drop (4 + i * 8 + 4) d) in
      if offset + key_size + 1 + val_size + 1 > data_size then None
      else
        (let key = chunk (unat offset) (unat key_size) d;
             offset = offset + (key_size + 1);
             val = chunk (unat offset) (unat val_size) d;
             offset = offset + (val_size + 1)
         in Some (offset, if key_size > 0 \<and> key_size < 256 \<and> val_size < 4096 then Some (key, val) else None)))"

primrec set_trailers_loop :: "malloc \<Rightarrow> nat \<Rightarrow> bytes \<Rightarrow> u32 \<Rightarrow> nat \<Rightarrow> u32 \<Rightarrow> trailer_map \<Rightarrow> trailer_map" where
  "set_trailers_loop al 0 d data_size i offset tm = tm"
| "set_trailers_loop al (Suc n) d data_size i offset tm =
     (case set_pair_step d data_size i offset of
        None \<Rightarrow> tm
      | Some (offset, None) \<Rightarrow> set_trailers_loop al n d data_size (i + 1) offset tm
      | Some (offset, Some (key, val)) \<Rightarrow>
          set_trailers_loop al n d data_size (i + 1) offset
            (fst (pw_trailer_add (\<lambda>k. al (2 * i + k)) tm key val)))"

primrec set_headers_loop ::
  "varnish \<Rightarrow> http_ref \<Rightarrow> nat \<Rightarrow> bytes \<Rightarrow> u32 \<Rightarrow> nat \<Rightarrow> u32 \<Rightarrow> proxy_ctx \<Rightarrow> proxy_ctx \<times> proxy_status" where
  "set_headers_loop vn ref 0 d data_size i offset ctx = (ctx, PROXY_OK)"
| "set_headers_loop vn ref (Suc n) d data_size i offset ctx =
     (case set_pair_step d data_size i offset of
        None \<Rightarrow> (ctx, PROXY_OK)
      | Some (offset, None) \<Rightarrow> set_headers_loop vn ref n d data_size (i + 1) offset ctx
      | Some (offset, Some (key, val)) \<Rightarrow>
          (let hdr_line = take 4351 (cstr key @ '': '' @ cstr val) in
           if \<not> v_ws vn i then (ctx, PROXY_INTERNAL)
           else set_headers_loop vn ref n d data_size (i + 1) offset
                  (http_update ref (\<lambda>hp. v_SetHeader vn hp hdr_line) ctx)))"

definition pw_proxy_set_header_map_pairs ::
  "malloc \<Rightarrow> varnish \<Rightarrow> proxy_ctx \<Rightarrow> (nat \<Rightarrow> u32) \<Rightarrow> proxy_ctx \<times> proxy_status" where
  "pw_proxy_set_header_map_pairs al vn ctx args =
     (let map_type = args 0; data_ptr = args 1; data_size = args 2 in
      if data_size < 4 \<or> \<not> pw_validate_region ctx data_ptr data_size then (ctx, PROXY_BAD_ARGUMENT)
      else
        (case pw_mem_ptr ctx data_ptr of
           None \<Rightarrow> (ctx, PROXY_INTERNAL)
         | Some p \<Rightarrow>
             (let d = drop p (memory ctx); num_pairs = get32 d in
              if num_pairs > 256 then (ctx, PROXY_BAD_ARGUMENT)
              else if data_size < 4 + num_pairs * 8 then (ctx, PROXY_BAD_ARGUMENT)
              else if pw_is_trailer_map map_type then
                (case pw_get_trailer_map ctx map_type of
                   None \<Rightarrow> (ctx, PROXY_BAD_ARGUMENT)
                 | Some tm \<Rightarrow>
                     (trailer_update map_type
                        (set_trailers_loop al (unat num_pairs) d data_size 0 (4 + num_pairs * 8)
                           (pw_trailer_clear tm)) ctx, PROXY_OK))
              else
                (case pw_get_header_map_mutable ctx map_type of
                   None \<Rightarrow> (ctx, PROXY_BAD_ARGUMENT)
                 | Some ref \<Rightarrow>
                     set_headers_loop vn ref (unat num_pairs) d data_size 0 (4 + num_pairs * 8)
                       (http_update ref (\<lambda>hp. hp\<lparr>hd_lines := []\<rparr>) ctx)))))"

text \<open>The size of the serialized form, computed apart from it, in 32 bits.\<close>

definition header_line_size :: "bytes option \<Rightarrow> u32" where
  "header_line_size line =
     (case line of
        None \<Rightarrow> 2
      | Some l \<Rightarrow>
          (case memchr (CHR '':'') (cstr l) of
             None \<Rightarrow> of_nat (length (cstr l)) + 2
           | Some c \<Rightarrow> of_nat c + 1 + of_nat (length (skip_blanks (drop (c + 1) (cstr l)))) + 1))"

definition opt_size :: "bytes \<Rightarrow> bytes option \<Rightarrow> u32 \<times> u32" where
  "opt_size name v =
     (case v of None \<Rightarrow> (0, 0)
      | Some b \<Rightarrow> (1, of_nat (length name) + 1 + of_nat (length (cstr b)) + 1))"

definition host_size :: "http \<Rightarrow> u32 \<times> u32" where
  "host_size hp =
     (case find is_host_line (hd_lines hp) of
        Some (Some l) \<Rightarrow>
          (1, of_nat (length '':authority'') + 1 + of_nat (length (skip_blanks (drop 5 (cstr l)))) + 1)
      | _ \<Rightarrow> (0, 0))"

definition http_map_size :: "u32 \<Rightarrow> http \<Rightarrow> u32" where
  "http_map_size map_type hp =
     (let (n, d) =
            (if map_type = PROXY_MAP_HTTP_REQUEST_HEADERS then
               (let (n1, d1) = opt_size '':method'' (hd_method hp);
                    (n2, d2) = opt_size '':path'' (hd_url hp);
                    (n3, d3) = host_size hp
                in (n1 + n2 + n3, d1 + d2 + d3))
             else if map_type = PROXY_MAP_HTTP_RESPONSE_HEADERS then opt_size '':status'' (hd_status hp)
             else (0, 0));
          num_headers = of_nat (length (hd_lines hp)) + n;
          data_size = d + sum_list (map header_line_size (hd_lines hp))
      in 4 + num_headers * 8 + data_size)"

definition pw_proxy_get_header_map_size :: "proxy_ctx \<Rightarrow> (nat \<Rightarrow> u32) \<Rightarrow> proxy_ctx \<times> proxy_status" where
  "pw_proxy_get_header_map_size ctx args =
     (let map_type = args 0;
          write = (\<lambda>sz. ret PROXY_BAD_ARGUMENT (pw_write_u32 ctx (args 1) sz))
      in if \<not> pw_is_known_map map_type then (ctx, PROXY_BAD_ARGUMENT)
         else if pw_is_trailer_map map_type then
           (case pw_get_trailer_map ctx map_type of
              Some tm \<Rightarrow>
                write (if tm_entries tm \<noteq> [] then
                         4 + of_nat (length (tm_entries tm)) * 8 +
                         sum_list (map (\<lambda>e. of_nat (length (te_name e)) + 1 + of_nat (length (te_value e)) + 1)
                                       (tm_entries tm))
                       else 0)
            | None \<Rightarrow> write 0)
         else if map_type = PROXY_MAP_HTTP_CALL_RESP_HEADERS then
           write (of_nat (pw_http_call_response_headers_size ctx))
         else if map_type = PROXY_MAP_HTTP_CALL_RESP_TRAILERS then write 0
         else if map_type = PROXY_MAP_GRPC_CALL_INITIAL_MD \<or> map_type = PROXY_MAP_GRPC_CALL_TRAILING_MD
         then (ctx, PROXY_NOT_FOUND)
         else (case pw_get_header_map ctx map_type of
                 Some hp \<Rightarrow> write (http_map_size map_type hp)
               | None \<Rightarrow> write 0))"

section \<open>Lemmas: sizes\<close>

lemma serialize_length: "length (serialize_pairs ps) = pairs_size ps"
proof -
  have "length (concat (map (\<lambda>(k, v). put32 (of_nat (length k)) @ put32 (of_nat (length v))) ps)) = length ps * 8"
    by (induction ps) auto
  moreover have "length (concat (map (\<lambda>(k, v). k @ [NUL] @ v @ [NUL]) ps)) =
      sum_list (map (\<lambda>(k, v). length k + 1 + length v + 1) ps)"
    by (induction ps) auto
  ultimately show ?thesis by (simp add: serialize_pairs_def pairs_size_def)
qed

abbreviation pair_cost :: "bytes \<times> bytes \<Rightarrow> nat" where
  "pair_cost p \<equiv> length (fst p) + 1 + length (snd p) + 1"

lemma pairs_size_alt: "pairs_size ps = 4 + sum_list (map (\<lambda>p. 8 + pair_cost p) ps)"
  by (induction ps) (auto simp: pairs_size_def)

lemma callout_size_loop_eq:
  "callout_size_loop cnt sz p =
   (cnt + length (callout_loop cnt p), sz + sum_list (map (\<lambda>p. 8 + pair_cost p) (callout_loop cnt p)))"
proof (induction cnt sz p rule: callout_size_loop.induct)
  case (1 cnt sz p)
  show ?case
  proof (cases "p = [] \<or> cnt \<ge> 64 \<or> strstr p HDR_EOL = None \<or> strstr p HDR_EOL = Some 0")
    case True
    then show ?thesis
      by (subst callout_size_loop.simps, subst (1 2) callout_loop.simps) auto
  next
    case False
    then obtain k where k: "strstr p HDR_EOL = Some k" "k \<noteq> 0" "\<not> (p = [] \<or> cnt \<ge> 64)" by auto
    show ?thesis
    proof (cases "memchr (CHR '':'') (take k p)")
      case None
      then show ?thesis using 1(1) [OF k(3,1,2) None] k
        by (subst callout_size_loop.simps, subst (1 2) callout_loop.simps) simp
    next
      case (Some c)
      have "c < length (take k p)" using Some by (simp add: memchr_Some)
      then have "length (take c p) = c" by simp
      then show ?thesis using 1(2) [OF k(3,1,2) Some] k Some
        by (subst callout_size_loop.simps, subst (1 2) callout_loop.simps) simp
    qed
  qed
qed

lemma callout_headers_size:
  "pw_http_call_response_headers_size ctx =
   (case map_option callout_headers (callout_raw ctx) of
      None \<Rightarrow> 0 | Some ps \<Rightarrow> if ps = [] then 0 else pairs_size ps)"
  by (auto simp: pw_http_call_response_headers_size_def callout_headers_def callout_size_loop_eq
      pairs_size_alt split: option.splits)

lemma header_line_size_eq: "header_line_size line = of_nat (pair_cost (header_pair line))"
proof (cases line)
  case (Some l)
  show ?thesis
  proof (cases "memchr (CHR '':'') (cstr l)")
    case c: (Some c)
    then have "c < length (cstr l)" by (simp add: memchr_Some)
    then have "length (take c l) = c" using length_cstr_le [of l] by simp
    then show ?thesis using Some c by (simp add: header_line_size_def header_pair_def)
  qed (simp add: Some header_line_size_def header_pair_def)
qed (simp add: header_line_size_def header_pair_def)

lemma opt_size_eq: "opt_size name v =
   (of_nat (length (opt_pseudo name v)), of_nat (sum_list (map pair_cost (opt_pseudo name v))))"
  by (simp add: opt_size_def opt_pseudo_def split: option.split)

lemma host_size_eq: "host_size hp =
   (of_nat (length (host_pseudo hp)), of_nat (sum_list (map pair_cost (host_pseudo hp))))"
  by (simp add: host_size_def host_pseudo_def split: option.split)

lemma http_map_size_eq:
  "http_map_size mt hp = of_nat (pairs_size (pseudo_headers mt hp @ map header_pair (hd_lines hp)))"
proof -
  have lines: "sum_list (map header_line_size ls) = of_nat (sum_list (map (pair_cost \<circ> header_pair) ls))" for ls
    by (induction ls) (simp_all add: header_line_size_eq)
  have size: "of_nat (pairs_size ps) = 4 + of_nat (length ps) * 8 + of_nat (sum_list (map pair_cost ps))"
    for ps by (simp add: pairs_size_def case_prod_unfold)
  show ?thesis unfolding size
    by (simp add: http_map_size_def pseudo_headers_def opt_size_eq host_size_eq lines proxy_map_types
        algebra_simps)
qed

section \<open>Lemmas: reading the serialized form\<close>

lemma drop_blocks:
  "list_all (\<lambda>x. length (f x) = m) xs \<Longrightarrow> drop (i * m) (concat (map f xs)) = concat (map f (drop i xs))"
proof (induction xs arbitrary: i)
  case (Cons x xs)
  show ?case
  proof (cases i)
    case (Suc j)
    have "drop (i * m) (concat (map f (x # xs))) = drop (j * m) (drop m (f x @ concat (map f xs)))"
      by (simp only: Suc mult_Suc drop_drop add.commute list.map concat.simps)
    also have "\<dots> = drop (j * m) (concat (map f xs))" using Cons.prems by simp
    also have "\<dots> = concat (map f (drop j xs))" using Cons.IH [of j] Cons.prems by simp
    finally show ?thesis by (simp add: Suc)
  qed simp
qed simp

lemma drop_concat_sum:
  "drop (sum_list (map (\<lambda>x. length (f x)) (take i xs))) (concat (map f xs)) = concat (map f (drop i xs))"
proof (induction xs arbitrary: i)
  case (Cons x xs)
  then show ?case by (cases i) simp_all
qed simp

lemma sum_list_split: "sum_list (map f (take i xs)) + sum_list (map f (drop i xs)) = (sum_list (map f xs) :: nat)"
  by (subst sum_list_append [symmetric], subst map_append [symmetric]) simp

text \<open>Where the data of pair \<open>i\<close> starts.\<close>

definition pair_off :: "(bytes \<times> bytes) list \<Rightarrow> nat \<Rightarrow> nat" where
  "pair_off ps i = 4 + length ps * 8 + sum_list (map pair_cost (take i ps))"

lemma pair_off_Suc: "i < length ps \<Longrightarrow> pair_off ps (Suc i) = pair_off ps i + pair_cost (ps ! i)"
  by (simp add: pair_off_def take_Suc_conv_app_nth)

lemma pair_off_le: "pair_off ps i \<le> pairs_size ps"
proof -
  have "sum_list (map pair_cost (take i ps)) \<le> sum_list (map pair_cost ps)"
    using sum_list_split [of pair_cost i ps] by linarith
  then show ?thesis by (simp add: pair_off_def pairs_size_def case_prod_unfold)
qed

lemma get32_append: "length b = 4 \<Longrightarrow> get32 (b @ rest) = get32 b"
  by (simp add: get32_def)

lemma serialized_sizes:
  assumes "i < length ps"
  shows "get32 (drop (4 + i * 8) (serialize_pairs ps @ rest)) = of_nat (length (fst (ps ! i)))"
    "get32 (drop (4 + i * 8 + 4) (serialize_pairs ps @ rest)) = of_nat (length (snd (ps ! i)))"
proof -
  let ?f = "\<lambda>(k, v). put32 (of_nat (length k)) @ put32 (of_nat (length v)) :: bytes"
  let ?g = "\<lambda>(k, v). k @ [NUL] @ v @ [NUL]"
  have blk: "list_all (\<lambda>x. length (?f x) = 8) ps" by (auto simp: list_all_iff)
  have len: "i * 8 + 8 \<le> length (concat (map ?f ps))"
  proof -
    have "length (concat (map ?f ps)) = length ps * 8" by (induction ps) auto
    then show ?thesis using assms by simp
  qed
  have "drop (4 + i * 8) (serialize_pairs ps @ rest) =
      drop (i * 8) (concat (map ?f ps)) @ concat (map ?g ps) @ rest"
    using len by (simp add: serialize_pairs_def drop_append)
  also have "drop (i * 8) (concat (map ?f ps)) = concat (map ?f (drop i ps))" by (rule drop_blocks [OF blk])
  also have "drop i ps = ps ! i # drop (Suc i) ps" using assms by (simp add: Cons_nth_drop_Suc)
  finally have d: "drop (4 + i * 8) (serialize_pairs ps @ rest) =
      ?f (ps ! i) @ concat (map ?f (drop (Suc i) ps)) @ concat (map ?g ps) @ rest" by simp
  show "get32 (drop (4 + i * 8) (serialize_pairs ps @ rest)) = of_nat (length (fst (ps ! i)))"
    unfolding d by (simp add: case_prod_unfold)
  have "drop (4 + i * 8 + 4) (serialize_pairs ps @ rest) = drop 4 (drop (4 + i * 8) (serialize_pairs ps @ rest))"
    by (simp only: drop_drop add.commute)
  then show "get32 (drop (4 + i * 8 + 4) (serialize_pairs ps @ rest)) = of_nat (length (snd (ps ! i)))"
    unfolding d by (simp add: case_prod_unfold)
qed

lemma serialized_data:
  assumes "i < length ps"
  shows "\<exists>t. drop (pair_off ps i) (serialize_pairs ps @ rest) =
    fst (ps ! i) @ NUL # snd (ps ! i) @ NUL # t"
proof -
  let ?f = "\<lambda>(k, v). put32 (of_nat (length k)) @ put32 (of_nat (length v)) :: bytes"
  let ?g = "\<lambda>(k, v). k @ [NUL] @ v @ [NUL]"
  let ?s = "sum_list (map pair_cost (take i ps))"
  have f: "length (concat (map ?f ps)) = length ps * 8" by (induction ps) auto
  have g: "(\<lambda>x. length (?g x)) = pair_cost" by (auto simp: case_prod_unfold)
  have "?s \<le> length (concat (map ?g ps))"
  proof -
    have "?s \<le> sum_list (map pair_cost ps)" using sum_list_split [of pair_cost i ps] by linarith
    then show ?thesis unfolding length_concat map_map comp_def g .
  qed
  then have "drop (pair_off ps i) (serialize_pairs ps @ rest) = drop ?s (concat (map ?g ps)) @ rest"
    using f by (simp add: serialize_pairs_def pair_off_def drop_append)
  also have "drop ?s (concat (map ?g ps)) = concat (map ?g (drop i ps))"
    using drop_concat_sum [of ?g i ps] unfolding g .
  also have "drop i ps = ps ! i # drop (Suc i) ps" using assms by (simp add: Cons_nth_drop_Suc)
  finally show ?thesis by (auto simp: case_prod_unfold)
qed

text \<open>Pairs the code accepts: a name of 1 to 255 bytes and a value of at most 4095.\<close>

definition pair_fits :: "bytes \<times> bytes \<Rightarrow> bool" where
  "pair_fits p \<longleftrightarrow> fst p \<noteq> [] \<and> length (fst p) < 256 \<and> length (snd p) < 4096"

lemma pairs_size_bound:
  assumes "list_all pair_fits ps" "length ps \<le> 256"
  shows "pairs_size ps < 2 ^ 31"
proof -
  have "sum_list (map (\<lambda>p. 8 + pair_cost p) ps) \<le> length ps * 4360"
    using assms(1) by (induction ps) (auto simp: pair_fits_def)
  also have "\<dots> \<le> 256 * 4360" using assms(2) by (intro mult_right_mono) auto
  finally show ?thesis by (simp add: pairs_size_alt)
qed

lemma of_nat_le_u32: "a \<le> b \<Longrightarrow> b < 2 ^ 32 \<Longrightarrow> (of_nat a :: u32) \<le> of_nat b"
  by (simp add: word_le_nat_alt unat_of_nat_u32)

lemma of_nat_less_u32: "a < b \<Longrightarrow> b < 2 ^ 32 \<Longrightarrow> (of_nat a :: u32) < of_nat b"
  by (simp add: word_less_nat_alt unat_of_nat_u32)

lemma step_serialized:
  assumes "list_all pair_fits ps" "length ps \<le> 256" "i < length ps"
  shows "set_pair_step (serialize_pairs ps @ rest) (of_nat (pairs_size ps)) i (of_nat (pair_off ps i)) =
    Some (of_nat (pair_off ps (Suc i)), Some (ps ! i))"
proof -
  let ?d = "serialize_pairs ps @ rest" and ?k = "fst (ps ! i)" and ?v = "snd (ps ! i)"
  have fits: "?k \<noteq> []" "length ?k < 256" "length ?v < 4096"
    using assms(1,3) by (auto simp: list_all_length pair_fits_def)
  have bound: "pairs_size ps < 2 ^ 32" using pairs_size_bound [OF assms(1,2)] by simp
  have suc: "pair_off ps (Suc i) = pair_off ps i + length ?k + 1 + length ?v + 1"
    using pair_off_Suc [OF assms(3)] by simp
  have le: "pair_off ps (Suc i) \<le> pairs_size ps" by (rule pair_off_le)
  obtain t where t: "drop (pair_off ps i) ?d = ?k @ NUL # ?v @ NUL # t"
    using serialized_data [OF assms(3)] by blast
  have key: "chunk (pair_off ps i) (length ?k) ?d = ?k" unfolding chunk_def t by simp
  have d2: "drop (pair_off ps i + (length ?k + 1)) ?d = drop (length ?k + 1) (drop (pair_off ps i) ?d)"
    by (simp only: drop_drop add.commute)
  have val: "chunk (pair_off ps i + (length ?k + 1)) (length ?v) ?d = ?v" unfolding chunk_def d2 t by simp
  have off: "(of_nat (pair_off ps i) :: u32) + of_nat (length ?k) + 1 + of_nat (length ?v) + 1 =
      of_nat (pair_off ps (Suc i))"
    unfolding suc by simp
  have off2: "(of_nat (pair_off ps i) :: u32) + (of_nat (length ?k) + 1) =
      of_nat (pair_off ps i + (length ?k + 1))" by simp
  have un: "unat (of_nat (pair_off ps i) :: u32) = pair_off ps i"
    "unat (of_nat (pair_off ps i + (length ?k + 1)) :: u32) = pair_off ps i + (length ?k + 1)"
    "unat (of_nat (length ?k) :: u32) = length ?k" "unat (of_nat (length ?v) :: u32) = length ?v"
    using le bound suc fits by (intro unat_of_nat_u32; linarith)+
  have cmp: "\<not> (of_nat (pairs_size ps) :: u32) < of_nat (pair_off ps (Suc i))"
    using of_nat_le_u32 [OF le bound] by simp
  have lim: "(0 :: u32) < of_nat (length ?k)" "(of_nat (length ?k) :: u32) < 256" "(of_nat (length ?v) :: u32) < 4096"
    using of_nat_less_u32 [of 0 "length ?k"] of_nat_less_u32 [of "length ?k" 256]
      of_nat_less_u32 [of "length ?v" 4096] fits by simp_all
  have off3: "(of_nat (pair_off ps i) :: u32) + (of_nat (length ?k) + 1) + (of_nat (length ?v) + 1) =
      of_nat (pair_off ps (Suc i))"
    unfolding suc by simp
  show ?thesis
    unfolding set_pair_step_def serialized_sizes [OF assms(3)] Let_def off off3
    unfolding off2 un key val using cmp lim by simp
qed

definition mk_trailer :: "bytes \<times> bytes \<Rightarrow> trailer_entry" where
  "mk_trailer p = \<lparr>te_name = fst p, te_value = snd p\<rparr>"

lemma trailer_add_ok:
  "fst (pw_trailer_add (\<lambda>_. True) tm k v) =
   (if length (tm_entries tm) \<ge> 32 then tm else tm\<lparr>tm_entries := tm_entries tm @ [mk_trailer (k, v)]\<rparr>)"
  by (simp add: pw_trailer_add_def VWASM_MAX_TRAILERS_def mk_trailer_def)

lemma set_trailers_serialized:
  assumes "list_all pair_fits ps" "length ps \<le> 256"
  shows "i + n = length ps \<Longrightarrow> length (tm_entries tm) \<le> 32 \<Longrightarrow>
    set_trailers_loop mem_ok n (serialize_pairs ps @ rest) (of_nat (pairs_size ps)) i (of_nat (pair_off ps i)) tm =
    tm\<lparr>tm_entries := take 32 (tm_entries tm @ map mk_trailer (drop i ps))\<rparr>"
proof (induction n arbitrary: i tm)
  case 0
  then show ?case by simp
next
  case (Suc n)
  have i: "i < length ps" using Suc.prems by simp
  obtain k v where kv: "ps ! i = (k, v)" by (cases "ps ! i")
  have drop: "drop i ps = (k, v) # drop (Suc i) ps" using i kv by (simp add: Cons_nth_drop_Suc [symmetric])
  let ?tm = "fst (pw_trailer_add (\<lambda>_. True) tm k v)"
  have "set_trailers_loop mem_ok (Suc n) (serialize_pairs ps @ rest) (of_nat (pairs_size ps)) i
      (of_nat (pair_off ps i)) tm =
    set_trailers_loop mem_ok n (serialize_pairs ps @ rest) (of_nat (pairs_size ps)) (i + 1)
      (of_nat (pair_off ps (Suc i))) ?tm"
    by (simp only: set_trailers_loop.simps step_serialized [OF assms i] kv option.case prod.case)
  also have "\<dots> = ?tm\<lparr>tm_entries := take 32 (tm_entries ?tm @ map mk_trailer (drop (Suc i) ps))\<rparr>"
    using Suc.IH [of "Suc i" ?tm] Suc.prems by (auto simp: trailer_add_ok)
  finally show ?case using Suc.prems(2) by (auto simp: trailer_add_ok drop take_Cons')
qed

lemma http_update_twice:
  "http_update ref f (http_update ref g ctx) = http_update ref (f \<circ> g) ctx"
  by (cases "vrt ctx"; cases ref) (simp_all add: http_update_def option.map_comp)

lemma http_update_memory [simp]: "memory (http_update ref f ctx) = memory ctx"
  by (simp add: http_update_def)

text \<open>What the round trip relies on of Varnish: appending a line, and room in the workspace.\<close>

definition appends :: "varnish \<Rightarrow> bool" where
  "appends vn \<longleftrightarrow> (\<forall>hp l. v_SetHeader vn hp l = hp\<lparr>hd_lines := hd_lines hp @ [Some l]\<rparr>) \<and> (\<forall>k. v_ws vn k)"

definition pair_line :: "bytes \<times> bytes \<Rightarrow> bytes option" where
  "pair_line p = Some (fst p @ '': '' @ snd p)"

lemma set_headers_serialized:
  assumes "list_all pair_fits ps" "length ps \<le> 256" "appends vn"
    and "list_all (\<lambda>p. nul_free (fst p) \<and> nul_free (snd p) \<and> length (fst p) + length (snd p) \<le> 4349) ps"
  shows "i + n = length ps \<Longrightarrow>
    set_headers_loop vn ref n (serialize_pairs ps @ rest) (of_nat (pairs_size ps)) i (of_nat (pair_off ps i)) ctx =
    (http_update ref (\<lambda>hp. hp\<lparr>hd_lines := hd_lines hp @ map pair_line (drop i ps)\<rparr>) ctx, PROXY_OK)"
proof (induction n arbitrary: i ctx)
  case 0
  have "(\<lambda>vctx. case ref of Req_Http \<Rightarrow> vctx | Resp_Http \<Rightarrow> vctx | Beresp_Http \<Rightarrow> vctx) = id"
    by (cases ref) auto
  then show ?case using 0 by (cases ref) (simp_all add: http_update_def option.map_ident)
next
  case (Suc n)
  have i: "i < length ps" using Suc.prems by simp
  obtain k v where kv: "ps ! i = (k, v)" by (cases "ps ! i")
  have drop: "drop i ps = (k, v) # drop (Suc i) ps" using i kv by (simp add: Cons_nth_drop_Suc [symmetric])
  have p: "nul_free k" "nul_free v" "length k + length v \<le> 4349"
    using assms(4) i kv by (auto simp: list_all_length)
  have line: "take 4351 (cstr k @ '': '' @ cstr v) = k @ '': '' @ v"
    using p by (simp add: cstr_id)
  have ws: "v_ws vn i" using assms(3) by (simp add: appends_def)
  have set: "(\<lambda>hp. v_SetHeader vn hp (k @ '': '' @ v)) = (\<lambda>hp. hp\<lparr>hd_lines := hd_lines hp @ [pair_line (k, v)]\<rparr>)"
    using assms(3) by (simp add: appends_def pair_line_def)
  have "set_headers_loop vn ref (Suc n) (serialize_pairs ps @ rest) (of_nat (pairs_size ps)) i
      (of_nat (pair_off ps i)) ctx =
    set_headers_loop vn ref n (serialize_pairs ps @ rest) (of_nat (pairs_size ps)) (i + 1)
      (of_nat (pair_off ps (Suc i))) (http_update ref (\<lambda>hp. v_SetHeader vn hp (k @ '': '' @ v)) ctx)"
    by (simp only: set_headers_loop.simps step_serialized [OF assms(1,2) i] kv option.case prod.case Let_def
        line ws not_True_eq_False if_False)
  also have "\<dots> = (http_update ref (\<lambda>hp. hp\<lparr>hd_lines := hd_lines hp @ map pair_line (drop (Suc i) ps)\<rparr>)
      (http_update ref (\<lambda>hp. hp\<lparr>hd_lines := hd_lines hp @ [pair_line (k, v)]\<rparr>) ctx), PROXY_OK)"
    unfolding set using Suc.IH [of "Suc i"] Suc.prems by simp
  finally show ?case by (simp add: http_update_twice comp_def drop)
qed

lemma get32_serialized: "length ps < 2 ^ 32 \<Longrightarrow> get32 (serialize_pairs ps @ rest) = of_nat (length ps)"
  by (simp add: serialize_pairs_def)

text \<open>A guest that holds the serialized pairs \<open>ps\<close> in its memory and passes them.\<close>

definition holds_pairs :: "proxy_ctx \<Rightarrow> (nat \<Rightarrow> u32) \<Rightarrow> (bytes \<times> bytes) list \<Rightarrow> bool" where
  "holds_pairs ctx args ps \<longleftrightarrow>
     pw_validate_region ctx (args 1) (args 2) \<and> args 2 = of_nat (pairs_size ps) \<and>
     chunk (unat (args 1)) (unat (args 2)) (memory ctx) = serialize_pairs ps \<and>
     list_all pair_fits ps \<and> length ps \<le> 256"

lemma set_pairs_serialized:
  assumes "holds_pairs ctx args ps"
  obtains rest where "pw_proxy_set_header_map_pairs al vn ctx args =
    (if pw_is_trailer_map (args 0) then
       (case pw_get_trailer_map ctx (args 0) of
          None \<Rightarrow> (ctx, PROXY_BAD_ARGUMENT)
        | Some tm \<Rightarrow> (trailer_update (args 0) (set_trailers_loop al (length ps) (serialize_pairs ps @ rest)
            (of_nat (pairs_size ps)) 0 (of_nat (pair_off ps 0)) (pw_trailer_clear tm)) ctx, PROXY_OK))
     else
       (case pw_get_header_map_mutable ctx (args 0) of
          None \<Rightarrow> (ctx, PROXY_BAD_ARGUMENT)
        | Some ref \<Rightarrow> set_headers_loop vn ref (length ps) (serialize_pairs ps @ rest) (of_nat (pairs_size ps))
            0 (of_nat (pair_off ps 0)) (http_update ref (\<lambda>hp. hp\<lparr>hd_lines := []\<rparr>) ctx)))"
proof -
  note h = assms [unfolded holds_pairs_def]
  let ?p = "unat (args 1)"
  have bound: "pairs_size ps < 2 ^ 32" using pairs_size_bound [of ps] h by simp
  then have sz: "unat (args 2) = pairs_size ps" using h unat_of_nat_u32 [OF bound] by simp
  define rest where "rest = drop (pairs_size ps) (drop ?p (memory ctx))"
  have d: "drop ?p (memory ctx) = serialize_pairs ps @ rest"
    using h sz unfolding rest_def chunk_def by (metis append_take_drop_id)
  have n: "get32 (serialize_pairs ps @ rest) = of_nat (length ps)"
    using h by (intro get32_serialized) simp
  have un: "unat (of_nat (length ps) :: u32) = length ps" using h by (intro unat_of_nat_u32) simp
  have le256: "\<not> (256 :: u32) < of_nat (length ps)" using of_nat_le_u32 [of "length ps" 256] h by simp
  have head: "(4 :: u32) + of_nat (length ps) * 8 = of_nat (pair_off ps 0)" by (simp add: pair_off_def)
  have ge: "\<not> (of_nat (pairs_size ps) :: u32) < of_nat (pair_off ps 0)" "\<not> (of_nat (pairs_size ps) :: u32) < 4"
    using of_nat_le_u32 [OF pair_off_le bound, of 0] of_nat_le_u32 [of 4 "pairs_size ps"] bound
    by (simp_all add: pairs_size_def)
  have a2: "args 2 = of_nat (pairs_size ps)" "pw_validate_region ctx (args 1) (of_nat (pairs_size ps))"
    using h by metis+
  have ptr: "pw_mem_ptr ctx (args 1) = Some ?p" using a2(2) mem_ptr_valid by blast
  show ?thesis
    by (rule that [of rest])
       (simp add: pw_proxy_set_header_map_pairs_def Let_def a2 ge ptr d n le256 head un
         del: One_nat_def split: option.split)
qed

lemma trailer_sizes:
  "4 + of_nat (length es) * 8 + sum_list (map (\<lambda>e. of_nat (length (te_name e)) + 1 + of_nat (length (te_value e)) + 1) es) =
   (of_nat (pairs_size (map (\<lambda>e. (te_name e, te_value e)) es)) :: u32)"
proof -
  have "sum_list (map (\<lambda>e. of_nat (length (te_name e)) + 1 + of_nat (length (te_value e)) + 1) es) =
      (of_nat (sum_list (map (\<lambda>e. length (te_name e) + 1 + length (te_value e) + 1) es)) :: u32)"
    by (induction es) simp_all
  then show ?thesis by (simp add: pairs_size_def comp_def)
qed

section \<open>Properties\<close>


lemma map_size_agrees_case:
  "pw_is_known_map 1" "pw_is_trailer_map 1"
  by (simp_all add: pw_is_known_map_def pw_is_trailer_map_def proxy_map_types)

text \<open>A guest with one trailer and a request, and Varnish's operations on lists of lines, for the
  witnesses.\<close>

definition list_varnish :: varnish where
  "list_varnish = \<lparr>v_GetHdr = (\<lambda>_ _. None), v_Unset = (\<lambda>hp _. hp),
     v_SetHeader = (\<lambda>hp l. hp\<lparr>hd_lines := hd_lines hp @ [Some l]\<rparr>), v_SetH = (\<lambda>hp _ _. hp), v_ws = mem_ok\<rparr>"

definition trailer_ctx :: proxy_ctx where
  "trailer_ctx = (pctx_zero (serialize_pairs [(''a'', ''b''), (''c'', ''d'')] @ replicate 8 NUL) (\<lambda>_ m. (None, m)))
     \<lparr>memory_valid := True, wasm_ctx := True,
      request_trailers := \<lparr>tm_entries = [\<lparr>te_name = ''a'', te_value = ''xyz''\<rparr>]\<rparr>,
      vrt := Some \<lparr>http_req = Some \<lparr>hd_method = Some ''GET'', hd_url = None, hd_proto = None, hd_status = None,
                    hd_lines = [Some ''Host: h''], http_status = 0\<rparr>,
                  http_bereq = None, http_resp = None, http_beresp = None\<rparr>\<rparr>"


text \<open>Trailers round trip. A guest that passes the serialized form of a list of pairs sets the map to
  those pairs, in order, names and values with NULs in them included, up to the 32 a map holds.\<close>

theorem trailer_pairs_roundtrip:
  assumes "holds_pairs ctx args ps" "pw_is_trailer_map (args 0)"
    and "pw_proxy_set_header_map_pairs mem_ok vn ctx args = (ctx', st)"
  shows "st = PROXY_OK \<and> (ps \<noteq> [] \<longrightarrow> map_pairs ctx' (args 0) = Some (take 32 ps))"
proof -
  obtain tm where tm: "pw_get_trailer_map ctx (args 0) = Some tm"
    using assms(2) by (auto simp: pw_is_trailer_map_def pw_get_trailer_map_def proxy_map_types)
  obtain rest where set: "pw_proxy_set_header_map_pairs mem_ok vn ctx args =
      (trailer_update (args 0) (set_trailers_loop mem_ok (length ps) (serialize_pairs ps @ rest)
        (of_nat (pairs_size ps)) 0 (of_nat (pair_off ps 0)) (pw_trailer_clear tm)) ctx, PROXY_OK)"
    using set_pairs_serialized [OF assms(1), of mem_ok vn] assms(2) tm by auto
  have fits: "list_all pair_fits ps" "length ps \<le> 256" using assms(1) by (simp_all add: holds_pairs_def)
  have loop: "set_trailers_loop mem_ok (length ps) (serialize_pairs ps @ rest) (of_nat (pairs_size ps)) 0
      (of_nat (pair_off ps 0)) (pw_trailer_clear tm) =
    (pw_trailer_clear tm)\<lparr>tm_entries := take 32 (map mk_trailer ps)\<rparr>"
    using set_trailers_serialized [OF fits, of 0 "length ps" "pw_trailer_clear tm" rest]
    by (simp add: pw_trailer_clear_def)
  have "pw_get_trailer_map ctx' (args 0) = Some ((pw_trailer_clear tm)\<lparr>tm_entries := take 32 (map mk_trailer ps)\<rparr>)"
    using assms(2,3) set loop
    by (auto simp: trailer_update_def pw_get_trailer_map_def pw_is_trailer_map_def proxy_map_types)
  then show ?thesis using assms(2,3) set
    by (auto simp: map_pairs_def take_map mk_trailer_def comp_def)
qed

lemma trailer_ctx_holds: "holds_pairs trailer_ctx (\<lambda>i. if i = 0 then mt else if i = 1 then 0 else 28)
    [(''a'', ''b''), (''c'', ''d'')]"
proof -
  have len: "length (serialize_pairs [(''a'', ''b''), (''c'', ''d'')]) = 28"
    by (simp add: serialize_length pairs_size_def)
  then have "chunk 0 28 (memory trailer_ctx) = serialize_pairs [(''a'', ''b''), (''c'', ''d'')]"
    by (simp add: trailer_ctx_def pctx_zero_def chunk_def)
  then show ?thesis using len
    by (simp add: holds_pairs_def validate_region_iff pair_fits_def trailer_ctx_def pctx_zero_def
        pairs_size_def)
qed

theorem trailer_pairs_roundtrip_witness:
  "map_pairs (fst (pw_proxy_set_header_map_pairs mem_ok list_varnish trailer_ctx
     (\<lambda>i. if i = 0 then 1 else if i = 1 then 0 else 28))) 1 = Some [(''a'', ''b''), (''c'', ''d'')]"
  using trailer_pairs_roundtrip [OF trailer_ctx_holds [of 1], of list_varnish] map_size_agrees_case(2)
  by (cases "pw_proxy_set_header_map_pairs mem_ok list_varnish trailer_ctx
     (\<lambda>i. if i = 0 then 1 else if i = 1 then 0 else 28)") simp

text \<open>Pairs a header line carries without loss.\<close>

definition pair_plain :: "bytes \<times> bytes \<Rightarrow> bool" where
  "pair_plain p \<longleftrightarrow> nul_free (fst p) \<and> nul_free (snd p) \<and> CHR '':'' \<notin> set (fst p) \<and>
     skip_blanks (snd p) = snd p \<and> length (fst p) + length (snd p) \<le> 4349"

lemma header_pair_line: "pair_plain p \<Longrightarrow> header_pair (pair_line p) = p"
proof (cases p)
  case (Pair k v)
  assume "pair_plain p"
  then have p: "nul_free k" "nul_free v" "CHR '':'' \<notin> set k" "skip_blanks v = v"
    by (simp_all add: pair_plain_def Pair)
  have "cstr (k @ '': '' @ v) = k @ '': '' @ v" using p by (intro cstr_id) simp
  moreover have "memchr (CHR '':'') (k @ '': '' @ v) = Some (length k)"
    using memchr_append [OF p(3)] by simp
  moreover have "skip_blanks (SP # v) = v" using p(4) by (simp add: skip_blanks_def is_blank_def)
  ultimately show ?thesis by (simp add: Pair pair_line_def header_pair_def)
qed



section \<open>Trailers as a map\<close>

text \<open>A trailer map without two names that differ in case only is a map from lower-case names to values.\<close>

definition lower :: "bytes \<Rightarrow> bytes" where
  "lower s = map c_tolower s"

definition trailer_abs :: "trailer_map \<Rightarrow> bytes \<Rightarrow> bytes option" where
  "trailer_abs tm = map_of (map (\<lambda>e. (lower (te_name e), te_value e)) (tm_entries tm))"

definition trailer_inv :: "trailer_map \<Rightarrow> bool" where
  "trailer_inv tm \<longleftrightarrow> length (tm_entries tm) \<le> VWASM_MAX_TRAILERS \<and>
     list_all (\<lambda>e. nul_free (te_name e)) (tm_entries tm) \<and>
     distinct (map (\<lambda>e. lower (te_name e)) (tm_entries tm))"

lemma strncaseeq_lower:
  "nul_free a \<Longrightarrow> length a = length b \<Longrightarrow> strncaseeq (length b) a b \<longleftrightarrow> lower a = lower b"
proof (induction a arbitrary: b)
  case (Cons x a)
  then show ?case by (cases b) (auto simp: lower_def)
qed (simp add: lower_def)

lemma trailer_match_lower: "nul_free (te_name e) \<Longrightarrow> trailer_match n e \<longleftrightarrow> lower (te_name e) = lower n"
  unfolding trailer_match_def using strncaseeq_lower [of "te_name e" n]
  by (metis length_map lower_def)

lemma trailer_get_abs: "trailer_inv tm \<Longrightarrow> pw_trailer_get tm n = trailer_abs tm (lower n)"
proof -
  assume inv: "trailer_inv tm"
  have "list_all (\<lambda>e. nul_free (te_name e)) es \<Longrightarrow>
      map_option te_value (find (trailer_match n) es) =
      map_of (map (\<lambda>e. (lower (te_name e), te_value e)) es) (lower n)" for es
    by (induction es) (auto simp: trailer_match_lower)
  then show ?thesis using inv by (simp add: pw_trailer_get_def trailer_abs_def trailer_inv_def)
qed

lemma swap_remove_set:
  assumes "i < length es"
  shows "mset (take (length es - 1) (if i < length es - 1 then es[i := es ! (length es - 1)] else es)) =
    mset es - {#es ! i#}"
proof -
  obtain ys z where es: "es = ys @ [z]" using assms by (cases es rule: rev_cases) auto
  show ?thesis
  proof (cases "i < length ys")
    case True
    then show ?thesis by (simp add: es nth_append list_update_append mset_update)
  next
    case False
    then show ?thesis using assms by (simp add: es nth_append)
  qed
qed

lemma option_eqI: "(\<And>v. a = Some v \<longleftrightarrow> b = Some v) \<Longrightarrow> a = b"
  by (cases a; cases b) auto

lemma map_of_without:
  assumes "distinct (map key es)" "mset es' = mset es - {#e#}" "e \<in> set es"
  shows "distinct (map key es')" "map_of (map (\<lambda>e. (key e, val e)) es') =
    (map_of (map (\<lambda>e. (key e, val e)) es))(key e := None)"
proof -
  have es: "mset es = add_mset e (mset es')" using assms(2,3) by simp
  have "mset (map key es) = mset (key e # map key es')" using es by simp
  from mset_eq_imp_distinct_iff [OF this] have d: "distinct (key e # map key es')" using assms(1) by simp
  then show "distinct (map key es')" by simp
  have "set_mset (mset es) = set_mset (add_mset e (mset es'))" by (simp only: es)
  then have set: "set es = insert e (set es')" by simp
  have dk: "distinct (map fst (map (\<lambda>e. (key e, val e)) es))" "distinct (map fst (map (\<lambda>e. (key e, val e)) es'))"
    using assms(1) d by (simp_all add: comp_def)
  show "map_of (map (\<lambda>e. (key e, val e)) es') = (map_of (map (\<lambda>e. (key e, val e)) es))(key e := None)"
  proof
    fix x
    show "map_of (map (\<lambda>e. (key e, val e)) es') x = ((map_of (map (\<lambda>e. (key e, val e)) es))(key e := None)) x"
    proof (cases "x = key e")
      case True
      then show ?thesis using d by (auto simp: map_of_eq_None_iff)
    next
      case False
      have "map_of (map (\<lambda>e. (key e, val e)) es') x = Some v \<longleftrightarrow> map_of (map (\<lambda>e. (key e, val e)) es) x = Some v" for v
        unfolding map_of_eq_Some_iff [OF dk(1)] map_of_eq_Some_iff [OF dk(2)] using False set by auto
      then have "map_of (map (\<lambda>e. (key e, val e)) es') x = map_of (map (\<lambda>e. (key e, val e)) es) x"
        by (rule option_eqI)
      then show ?thesis using False by simp
    qed
  qed
qed

lemma trailer_remove_abs:
  assumes "trailer_inv tm"
  shows "trailer_inv (pw_trailer_remove tm n) \<and>
    trailer_abs (pw_trailer_remove tm n) = (trailer_abs tm)(lower n := None)"
proof (cases "find_index (trailer_match n) (tm_entries tm)")
  case None
  then have "lower n \<notin> (\<lambda>e. lower (te_name e)) ` set (tm_entries tm)"
    using assms by (auto simp: find_index_None trailer_inv_def list_all_iff trailer_match_lower)
  then have "trailer_abs tm (lower n) = None" by (auto simp: trailer_abs_def map_of_eq_None_iff)
  then show ?thesis using assms None by (auto simp: pw_trailer_remove_def)
next
  case (Some i)
  let ?es = "tm_entries tm" and ?key = "\<lambda>e. lower (te_name e)"
  have i: "i < length ?es" "trailer_match n (?es ! i)" using Some by (simp_all add: find_index_Some)
  let ?es' = "take (length ?es - 1) (if i < length ?es - 1 then ?es[i := ?es ! (length ?es - 1)] else ?es)"
  have m: "mset ?es' = mset ?es - {#?es ! i#}" by (rule swap_remove_set [OF i(1)])
  have nf: "nul_free (te_name (?es ! i))" using assms i(1) by (simp add: trailer_inv_def list_all_length)
  have key: "?key (?es ! i) = lower n" using i(2) nf trailer_match_lower by blast
  have sub: "set ?es' \<subseteq> set ?es"
    using m by (metis diff_subset_eq_self set_mset_mono set_mset_mset)
  have "length ?es' \<le> VWASM_MAX_TRAILERS" using assms by (auto simp: trailer_inv_def)
  moreover have "list_all (\<lambda>e. nul_free (te_name e)) ?es'"
    using assms sub by (auto simp: trailer_inv_def list_all_iff)
  moreover have "distinct (map ?key ?es')" "map_of (map (\<lambda>e. (?key e, te_value e)) ?es') =
      (map_of (map (\<lambda>e. (?key e, te_value e)) ?es))(?key (?es ! i) := None)"
    using map_of_without(1) [of ?key ?es ?es' "?es ! i"] map_of_without(2) [of ?key ?es ?es' "?es ! i" te_value]
      m assms i(1) by (simp_all add: trailer_inv_def)
  ultimately show ?thesis using Some key
    by (simp add: pw_trailer_remove_def trailer_inv_def trailer_abs_def Let_def)
qed

lemma trailer_add_abs:
  assumes "trailer_inv tm" "trailer_abs tm (lower k) = None" "nul_free k" "length (tm_entries tm) < VWASM_MAX_TRAILERS"
  shows "trailer_inv (fst (pw_trailer_add mem_ok tm k v)) \<and>
    trailer_abs (fst (pw_trailer_add mem_ok tm k v)) = (trailer_abs tm)(lower k \<mapsto> v)"
proof -
  have "lower k \<notin> (\<lambda>e. lower (te_name e)) ` set (tm_entries tm)"
    using assms(2) by (auto simp: trailer_abs_def map_of_eq_None_iff image_image)
  then show ?thesis using assms
    by (auto simp: pw_trailer_add_def trailer_inv_def trailer_abs_def map_add_def fun_eq_iff
        split: option.split)
qed

lemma trailer_update_get:
  "pw_is_trailer_map mt \<Longrightarrow> pw_get_trailer_map (trailer_update mt tm ctx) mt = Some tm"
  by (auto simp: pw_is_trailer_map_def pw_get_trailer_map_def trailer_update_def proxy_map_types)

lemma trailer_remove_length: "length (tm_entries (pw_trailer_remove tm n)) \<le> length (tm_entries tm)"
  by (simp add: pw_trailer_remove_def Let_def split: option.split)

lemma trailer_remove_shrinks:
  assumes "trailer_inv tm" "trailer_abs tm (lower n) \<noteq> None"
  shows "length (tm_entries (pw_trailer_remove tm n)) < length (tm_entries tm)"
proof -
  have "find (trailer_match n) (tm_entries tm) \<noteq> None"
    using assms trailer_get_abs [OF assms(1), of n] by (auto simp: pw_trailer_get_def)
  then obtain i where i: "find_index (trailer_match n) (tm_entries tm) = Some i"
    by (auto simp: find_conv_index split: option.splits)
  then show ?thesis using find_index_lt [OF i] by (simp add: pw_trailer_remove_def Let_def)
qed



text \<open>Replacing does not replace when a name occurs twice. With two trailers of one name (adding one
  twice gives that), \<open>proxy_replace_header_map_value\<close> removes the first only and appends the new one
  behind the second, reports success, and a lookup still returns the old value.\<close>

theorem trailer_replace_keeps_duplicate:
  "let tm = fst (pw_trailer_add mem_ok (fst (pw_trailer_add mem_ok \<lparr>tm_entries = []\<rparr> ''a'' ''1'')) ''a'' ''2'');
       tm' = fst (pw_trailer_add mem_ok (pw_trailer_remove tm ''a'') ''a'' ''new'')
   in pw_trailer_get tm' ''a'' = Some ''2''"
  by (simp add: pw_trailer_add_def pw_trailer_remove_def pw_trailer_get_def trailer_match_def
      VWASM_MAX_TRAILERS_def c_tolower_def Let_def)

end
