(* ===== verification/Store_Types.thy ===== *)
theory Store_Types
  imports Prelude
begin

text \<open>
  The structures of \<^verbatim>\<open>src/store_pool.h\<close> and of the top of \<^verbatim>\<open>src/store_pool.c\<close>. A Wasmtime store is what
  the host can observe of it: the linear memory of its instance, the mutable globals of the instance, the
  epoch deadline and whether its data pointer is set. The pool's array of pointers is the list \<open>sp_slots\<close>
  of indices into the array of objects, \<open>None\<close> for NULL; its \<open>warm_ref\<close> is the index of the engine's warm
  instance it points to. The counters \<open>head\<close> and \<open>tail\<close> of the struct are never used.
\<close>

definition VWASM_POOL_MIN_SIZE :: nat where "VWASM_POOL_MIN_SIZE = 8"
definition VWASM_POOL_MAX_SIZE :: nat where "VWASM_POOL_MAX_SIZE = 1024"

lemmas pool_limits = VWASM_POOL_MIN_SIZE_def VWASM_POOL_MAX_SIZE_def

record wstore =
  ws_memory :: bytes
  ws_globals :: "u64 list"
  ws_deadline :: u64
  ws_data :: bool

record warm_instance =
  memory_snapshot :: "bytes option"
  snapshot_size :: nat
  memory_pages :: nat
  has_initialize :: bool
  has_on_context_create :: bool
  has_on_vm_start :: bool
  has_on_configure :: bool
  has_request_headers :: bool
  has_request_body :: bool
  has_response_headers :: bool
  has_response_body :: bool
  has_on_log :: bool
  has_on_done :: bool
  has_on_delete :: bool
  has_allocator :: bool
  warm_valid :: bool

definition warm_zero :: warm_instance where
  "warm_zero = \<lparr>memory_snapshot = None, snapshot_size = 0, memory_pages = 0, has_initialize = False,
     has_on_context_create = False, has_on_vm_start = False, has_on_configure = False,
     has_request_headers = False, has_request_body = False, has_response_headers = False,
     has_response_body = False, has_on_log = False, has_on_done = False, has_on_delete = False,
     has_allocator = False, warm_valid = False\<rparr>"

record pooled_store =
  ps_store :: "wstore option"
  ps_memory_valid :: bool
  ps_allocator_valid :: bool
  ps_module_entry :: nat
  ps_seq :: u64
  ps_slot_idx :: u32

definition ps_zero :: pooled_store where
  "ps_zero = \<lparr>ps_store = None, ps_memory_valid = False, ps_allocator_valid = False, ps_module_entry = 0,
     ps_seq = 0, ps_slot_idx = 0\<rparr>"

record store_pool =
  sp_slots :: "nat option list"
  sp_capacity :: nat
  sp_acquires :: u64
  sp_releases :: u64
  sp_fallbacks :: u64
  sp_resets :: u64
  sp_warm_ref :: "nat option"
  sp_objects :: "pooled_store list"
  sp_in_use :: "bool list"
  sp_scan_hint :: u64

end
