(* ===== verification/Wasm_Engine.thy ===== *)
theory Wasm_Engine
  imports Http_State Store_Types
begin

text \<open>
  The engine object of \<^verbatim>\<open>src/wasm_engine.c\<close>: its modules, its settings with the allowlist of upstreams,
  its statistics, its HTTP pool and its tick timers. Wasmtime's objects (the compiled module and the
  pre-linked instance) are handles, numbers; compiling, linking and reading a file are parameters. The
  per-module tick timers are blocks of an explicit heap, because the thread of a timer and the engine
  both hold a pointer to it; addresses are never reused. The pools of stores are in \<open>Store_Pool\<close>, executing
  modules is in \<open>Lifecycle\<close>.
\<close>

definition MAX_MODULES :: nat where "MAX_MODULES = 64"
definition VWASM_DEFAULT_MEMLIMIT :: u64 where "VWASM_DEFAULT_MEMLIMIT = 16 * 1024 * 1024"
definition VWASM_DEFAULT_EPOCH_DEADLINE_MS :: u64 where "VWASM_DEFAULT_EPOCH_DEADLINE_MS = 5000"
definition VWASM_DEFAULT_HTTP_TIMEOUT_MS :: u32 where "VWASM_DEFAULT_HTTP_TIMEOUT_MS = 5000"
definition VWASM_DEFAULT_HTTP_CALL_MAX :: u32 where "VWASM_DEFAULT_HTTP_CALL_MAX = 5"
definition VWASM_DEFAULT_HTTP_POOL_SIZE :: nat where "VWASM_DEFAULT_HTTP_POOL_SIZE = 16"
definition VWASM_FAIL_CLOSED :: int where "VWASM_FAIL_CLOSED = 0"
definition VWASM_FAIL_OPEN :: int where "VWASM_FAIL_OPEN = 1"

record wasm_module_entry =
  me_name :: bytes
  me_module :: nat
  me_pre :: nat

record vwasm_stats =
  calls_total :: u64
  calls_ok_cnt :: u64
  calls_error :: u64
  calls_timeout :: u64
  local_responses :: u64
  http_calls_cnt :: u64
  http_calls_blocked :: u64
  body_bytes_in :: u64

record tick_timer =
  tt_running :: bool
  tt_period_ms :: u32
  tt_module_idx :: nat

text \<open>\<open>eng_modules\<close> are the entries in use, \<open>nmodules\<close> their number. \<open>tick_timers\<close> holds addresses of
  \<open>timer_heap\<close>; \<open>timer_brk\<close> is the next address the allocator gives out.\<close>

record vwasm_engine =
  eng_modules :: "wasm_module_entry list"
  memory_limit :: u64
  epoch_deadline_ms :: u64
  epoch_running :: bool
  eng_http_timeout_ms :: u32
  eng_allowed_upstreams :: "bytes list option"
  eng_http_call_max :: u32
  fail_mode :: int
  eng_stats :: vwasm_stats
  warm_instances :: "warm_instance list"
  eng_pools :: "store_pool option list"
  store_pool_size :: nat
  eng_http_pool :: "http_pool option"
  tick_timers :: "nat option list"
  timer_heap :: "nat \<Rightarrow> tick_timer option"
  timer_brk :: nat

section \<open>Creation and settings\<close>

definition stats_zero :: vwasm_stats where
  "stats_zero = \<lparr>calls_total = 0, calls_ok_cnt = 0, calls_error = 0, calls_timeout = 0, local_responses = 0,
     http_calls_cnt = 0, http_calls_blocked = 0, body_bytes_in = 0\<rparr>"

text \<open>The steps that can fail, in order: the structure, the configuration, Wasmtime's engine, the linker,
  the three registrations of host functions, the epoch thread.\<close>

definition vwasm_engine_new :: "(nat \<Rightarrow> bool) \<Rightarrow> vwasm_engine option" where
  "vwasm_engine_new ok =
     (if \<not> ok 0 then None
      else if \<not> ok 1 then None
      else if \<not> ok 2 then None
      else if \<not> ok 3 then None
      else if \<not> ok 4 then None
      else if \<not> ok 5 then None
      else if \<not> ok 6 then None
      else
        (let e = \<lparr>eng_modules = [], memory_limit = VWASM_DEFAULT_MEMLIMIT,
                  epoch_deadline_ms = VWASM_DEFAULT_EPOCH_DEADLINE_MS, epoch_running = True,
                  eng_http_timeout_ms = VWASM_DEFAULT_HTTP_TIMEOUT_MS, eng_allowed_upstreams = None,
                  eng_http_call_max = VWASM_DEFAULT_HTTP_CALL_MAX, fail_mode = VWASM_FAIL_CLOSED,
                  eng_stats = stats_zero, warm_instances = replicate MAX_MODULES warm_zero,
                  eng_pools = replicate MAX_MODULES None, store_pool_size = 0, eng_http_pool = None,
                  tick_timers = replicate MAX_MODULES None, timer_heap = Map.empty, timer_brk = 0\<rparr>
         in if \<not> ok 7 then None else Some e))"

definition vwasm_engine_set_memory_limit :: "'z vwasm_engine_scheme option \<Rightarrow> u64 \<Rightarrow> 'z vwasm_engine_scheme option" where
  "vwasm_engine_set_memory_limit engine n = map_option (\<lambda>e. e\<lparr>memory_limit := n\<rparr>) engine"

definition vwasm_engine_get_memory_limit :: "'z vwasm_engine_scheme option \<Rightarrow> u64" where
  "vwasm_engine_get_memory_limit engine =
     (case engine of None \<Rightarrow> VWASM_DEFAULT_MEMLIMIT | Some e \<Rightarrow> memory_limit e)"

definition vwasm_engine_set_epoch_deadline :: "'z vwasm_engine_scheme option \<Rightarrow> u64 \<Rightarrow> 'z vwasm_engine_scheme option" where
  "vwasm_engine_set_epoch_deadline engine ms = map_option (\<lambda>e. e\<lparr>epoch_deadline_ms := ms\<rparr>) engine"

definition vwasm_engine_get_epoch_deadline :: "'z vwasm_engine_scheme option \<Rightarrow> u64" where
  "vwasm_engine_get_epoch_deadline engine =
     (case engine of None \<Rightarrow> VWASM_DEFAULT_EPOCH_DEADLINE_MS | Some e \<Rightarrow> epoch_deadline_ms e)"

definition vwasm_engine_set_http_timeout :: "'z vwasm_engine_scheme option \<Rightarrow> u32 \<Rightarrow> 'z vwasm_engine_scheme option" where
  "vwasm_engine_set_http_timeout engine ms =
     map_option (\<lambda>e. e\<lparr>eng_http_timeout_ms := (if ms > 30000 then 30000 else ms)\<rparr>) engine"

definition vwasm_engine_get_http_timeout :: "'z vwasm_engine_scheme option \<Rightarrow> u32" where
  "vwasm_engine_get_http_timeout engine =
     (case engine of None \<Rightarrow> VWASM_DEFAULT_HTTP_TIMEOUT_MS | Some e \<Rightarrow> eng_http_timeout_ms e)"

definition vwasm_engine_set_http_call_max :: "'z vwasm_engine_scheme option \<Rightarrow> u32 \<Rightarrow> 'z vwasm_engine_scheme option" where
  "vwasm_engine_set_http_call_max engine n = map_option (\<lambda>e. e\<lparr>eng_http_call_max := n\<rparr>) engine"

definition vwasm_engine_get_http_call_max :: "'z vwasm_engine_scheme option \<Rightarrow> u32" where
  "vwasm_engine_get_http_call_max engine =
     (case engine of None \<Rightarrow> VWASM_DEFAULT_HTTP_CALL_MAX | Some e \<Rightarrow> eng_http_call_max e)"

definition vwasm_engine_set_fail_mode :: "'z vwasm_engine_scheme option \<Rightarrow> int \<Rightarrow> 'z vwasm_engine_scheme option" where
  "vwasm_engine_set_fail_mode engine mode =
     map_option (\<lambda>e. e\<lparr>fail_mode := (if mode = VWASM_FAIL_OPEN then VWASM_FAIL_OPEN
                                       else VWASM_FAIL_CLOSED)\<rparr>) engine"

definition vwasm_engine_get_fail_mode :: "'z vwasm_engine_scheme option \<Rightarrow> int" where
  "vwasm_engine_get_fail_mode engine =
     (case engine of None \<Rightarrow> VWASM_FAIL_CLOSED | Some e \<Rightarrow> fail_mode e)"

section \<open>The allowlist of upstreams\<close>

text \<open>The tokens \<open>strtok_r\<close> cuts a C string into: the maximal runs without the separator.\<close>

function strtok :: "byte \<Rightarrow> bytes \<Rightarrow> bytes list" where
  "strtok c s =
     (let s = dropWhile (\<lambda>x. x = c) s in
      if s = [] then [] else takeWhile (\<lambda>x. x \<noteq> c) s # strtok c (dropWhile (\<lambda>x. x \<noteq> c) s))"
  by pat_completeness auto

lemma strtok_shrinks:
  assumes "dropWhile (\<lambda>x. x = c) s \<noteq> []"
  shows "length (dropWhile (\<lambda>x. x \<noteq> c) (dropWhile (\<lambda>x. x = c) s)) < length s"
proof (cases "dropWhile (\<lambda>x. x = c) s")
  case Nil
  then show ?thesis using assms by simp
next
  case (Cons y ys)
  then have "y \<noteq> c" using hd_dropWhile [OF assms] by simp
  moreover have "length (y # ys) \<le> length s" using length_dropWhile_le [of "\<lambda>x. x = c" s] Cons by simp
  ultimately show ?thesis
    using length_dropWhile_le [of "\<lambda>x. x \<noteq> c" ys] by (simp add: Cons)
qed

termination strtok
  by (relation "measure (\<lambda>(c, s). length s)") (simp, simp only: in_measure case_prod_conv, rule strtok_shrinks)

declare strtok.simps [simp del]

text \<open>The second pass: a copy of each token with something in it, its trailing blanks cut off. Allocation
  \<open>3 + i\<close> is the copy of entry \<open>i\<close>; \<open>None\<close> when one fails.\<close>

fun upstream_fill :: "malloc \<Rightarrow> nat \<Rightarrow> bytes list \<Rightarrow> bytes list \<Rightarrow> bytes list option" where
  "upstream_fill al cnt acc [] = Some acc"
| "upstream_fill al cnt acc (tok # toks) =
     (if length acc < cnt then
        (let tok = skip_blanks tok in
         if tok = [] then upstream_fill al cnt acc toks
         else if \<not> al (3 + length acc) then None
         else upstream_fill al cnt (acc @ [trim_end tok]) toks)
      else Some acc)"

definition vwasm_engine_set_allowed_upstreams ::
  "malloc \<Rightarrow> 'z vwasm_engine_scheme option \<Rightarrow> bytes option \<Rightarrow> 'z vwasm_engine_scheme option" where
  "vwasm_engine_set_allowed_upstreams al engine upstream_list =
     (case engine of
        None \<Rightarrow> None
      | Some e \<Rightarrow>
          (let e = e\<lparr>eng_allowed_upstreams := None\<rparr> in
           case upstream_list of
             None \<Rightarrow> Some e
           | Some l \<Rightarrow>
               if cstr l = [] then Some e
               else if \<not> al 0 then Some e
               else
                 (let cnt = length (filter (\<lambda>tok. skip_blanks tok \<noteq> []) (strtok (CHR '','') (cstr l))) in
                  if cnt = 0 then Some e
                  else if \<not> al 1 then Some e
                  else if \<not> al 2 then Some e
                  else
                    (case upstream_fill al cnt [] (strtok (CHR '','') (cstr l)) of
                       None \<Rightarrow> Some e
                     | Some new_list \<Rightarrow> Some (e\<lparr>eng_allowed_upstreams := Some new_list\<rparr>)))))"

section \<open>Modules\<close>

text \<open>The file system (\<open>None\<close>: the file cannot be opened or read whole), the compiler and the linker are
  parameters; allocation 0 is the file buffer, 1 the copy of the name.\<close>

definition vwasm_engine_load_module ::
  "malloc \<Rightarrow> (bytes \<Rightarrow> bytes option) \<Rightarrow> (bytes \<Rightarrow> nat option) \<Rightarrow> (nat \<Rightarrow> nat option)
   \<Rightarrow> 'z vwasm_engine_scheme option \<Rightarrow> bytes option \<Rightarrow> bytes option \<Rightarrow> 'z vwasm_engine_scheme option \<times> int" where
  "vwasm_engine_load_module al fs compile pre engine name path =
     (case (engine, name, path) of
        (Some e, Some n, Some p) \<Rightarrow>
          if \<exists>m \<in> set (eng_modules e). me_name m = cstr n then (engine, -1)
          else
            (case fs p of
               None \<Rightarrow> (engine, -1)
             | Some b \<Rightarrow>
                 if length b = 0 then (engine, -1)
                 else if \<not> al 0 then (engine, -1)
                 else
                   (case compile b of
                      None \<Rightarrow> (engine, -1)
                    | Some m \<Rightarrow>
                        if length (eng_modules e) \<ge> MAX_MODULES then (engine, -1)
                        else
                          (case pre m of
                             None \<Rightarrow> (engine, -1)
                           | Some ip \<Rightarrow>
                               if \<not> al 1 then (engine, -1)
                               else
                                 (Some (e\<lparr>eng_modules := eng_modules e @
                                     [\<lparr>me_name = cstr n, me_module = m, me_pre = ip\<rparr>]\<rparr>), 0))))
      | _ \<Rightarrow> (engine, -1))"

text \<open>The entry is given by its index, from which the callers compute \<open>entry - engine->modules\<close>.\<close>

definition find_module :: "'z vwasm_engine_scheme \<Rightarrow> bytes \<Rightarrow> nat option" where
  "find_module e name = find_index (\<lambda>m. me_name m = cstr name) (eng_modules e)"

definition vwasm_engine_find_module :: "'z vwasm_engine_scheme option \<Rightarrow> bytes option \<Rightarrow> nat option" where
  "vwasm_engine_find_module engine name =
     (case (engine, name) of (Some e, Some n) \<Rightarrow> find_module e n | _ \<Rightarrow> None)"

section \<open>The HTTP pool\<close>

text \<open>The descriptors closed with the pool that is replaced.\<close>

definition vwasm_engine_init_http_pool ::
  "malloc \<Rightarrow> 'z vwasm_engine_scheme option \<Rightarrow> nat \<Rightarrow> 'z vwasm_engine_scheme option \<times> int list \<times> int" where
  "vwasm_engine_init_http_pool al engine pool_size =
     (case engine of
        None \<Rightarrow> (None, [], -1)
      | Some e \<Rightarrow>
          (let closed = fst (snd (vwasm_http_pool_destroy (eng_http_pool e)));
               pool_size = (if pool_size = 0 then VWASM_DEFAULT_HTTP_POOL_SIZE else pool_size);
               p = vwasm_http_pool_new al pool_size (eng_http_timeout_ms e)
           in (Some (e\<lparr>eng_http_pool := p\<rparr>), closed, if p = None then -1 else 0)))"

definition vwasm_engine_get_http_pool :: "'z vwasm_engine_scheme option \<Rightarrow> http_pool option" where
  "vwasm_engine_get_http_pool engine = (case engine of None \<Rightarrow> None | Some e \<Rightarrow> eng_http_pool e)"

definition vwasm_engine_get_http_pool_stats_json :: "malloc \<Rightarrow> 'z vwasm_engine_scheme option \<Rightarrow> bytes option" where
  "vwasm_engine_get_http_pool_stats_json al engine =
     (case engine of
        None \<Rightarrow> None
      | Some e \<Rightarrow> if eng_http_pool e = None then None else vwasm_http_pool_stats_json al (eng_http_pool e))"

section \<open>Tick timers\<close>

text \<open>Clear the flag, join the thread, free the block. A join from the timer's own thread returns an error
  at once, which the code does not look at, so the caller makes no difference.\<close>

definition stop_timer :: "nat \<Rightarrow> 'z vwasm_engine_scheme \<Rightarrow> 'z vwasm_engine_scheme" where
  "stop_timer idx e =
     (case tick_timers e ! idx of
        None \<Rightarrow> e
      | Some a \<Rightarrow>
          (let heap = (timer_heap e)(a := map_option (\<lambda>tt. tt\<lparr>tt_running := False\<rparr>) (timer_heap e a));
               heap = heap(a := None)
           in e\<lparr>timer_heap := heap, tick_timers := (tick_timers e)[idx := None]\<rparr>))"

text \<open>Allocation 0 is the timer, 1 the thread.\<close>

definition vwasm_engine_set_tick_period ::
  "malloc \<Rightarrow> 'z vwasm_engine_scheme option \<Rightarrow> bytes option \<Rightarrow> u32 \<Rightarrow> 'z vwasm_engine_scheme option \<times> int" where
  "vwasm_engine_set_tick_period al engine module_name period_ms =
     (case (engine, module_name) of
        (Some e, Some n) \<Rightarrow>
          (case find_module e n of
             None \<Rightarrow> (engine, -1)
           | Some idx \<Rightarrow>
               if idx \<ge> MAX_MODULES then (engine, -1)
               else
                 (let e = stop_timer idx e in
                  if period_ms = 0 then (Some e, 0)
                  else if \<not> al 0 then (Some e, -1)
                  else if \<not> al 1 then (Some e, -1)
                  else
                    (let a = timer_brk e;
                         tt = \<lparr>tt_running = True, tt_period_ms = period_ms, tt_module_idx = idx\<rparr>
                     in (Some (e\<lparr>timer_heap := (timer_heap e)(a := Some tt), timer_brk := a + 1,
                               tick_timers := (tick_timers e)[idx := Some a]\<rparr>), 0))))
      | _ \<Rightarrow> (engine, -1))"

text \<open>One round of the loop of the thread whose timer is at \<open>a\<close>. \<open>inst_ok\<close> is whether the store and the
  instance could be made; \<open>periods\<close> are the periods the callbacks of this round (\<open>_initialize\<close>,
  \<open>proxy_on_context_create\<close>, \<open>proxy_on_vm_start\<close>, \<open>proxy_on_tick\<close>) ask for through
  \<open>proxy_set_tick_period_milliseconds\<close>; \<open>on_tick\<close> is whether the module exports \<open>proxy_on_tick\<close>. Reading or
  writing the timer after it was freed is \<open>Tick_Fault\<close>.\<close>

datatype 'e tick_outcome = Tick_Next 'e | Tick_Stop 'e | Tick_Fault

definition tick_timer_thread ::
  "malloc \<Rightarrow> bool \<Rightarrow> u32 list \<Rightarrow> bool \<Rightarrow> nat \<Rightarrow> 'z vwasm_engine_scheme \<Rightarrow> 'z vwasm_engine_scheme tick_outcome" where
  "tick_timer_thread al inst_ok periods on_tick a e =
     (case timer_heap e a of
        None \<Rightarrow> Tick_Fault
      | Some tt \<Rightarrow>
          if \<not> tt_running tt then Tick_Stop e
          else if \<not> inst_ok then Tick_Next e
          else
            (let name = me_name (eng_modules e ! tt_module_idx tt);
                 e = foldl (\<lambda>e p. the (fst (vwasm_engine_set_tick_period al (Some e) (Some name) p))) e periods
             in if on_tick then Tick_Next e
                else (case timer_heap e a of
                        None \<Rightarrow> Tick_Fault
                      | Some tt \<Rightarrow>
                          Tick_Stop (e\<lparr>timer_heap := (timer_heap e)(a := Some (tt\<lparr>tt_running := False\<rparr>))\<rparr>))))"

section \<open>Lemmas: modules\<close>

definition modules_ok :: "'z vwasm_engine_scheme \<Rightarrow> bool" where
  "modules_ok e \<longleftrightarrow> length (eng_modules e) \<le> MAX_MODULES \<and> distinct (map me_name (eng_modules e)) \<and>
     list_all (\<lambda>m. nul_free (me_name m)) (eng_modules e)"

lemma find_index_append:
  "find_index P (xs @ ys) =
     (case find_index P xs of Some i \<Rightarrow> Some i | None \<Rightarrow> map_option (\<lambda>i. length xs + i) (find_index P ys))"
  by (induction xs; cases "find_index P ys") (auto split: option.split)

text \<open>The two outcomes of a load.\<close>

lemma load_module_cases:
  assumes "vwasm_engine_load_module al fs compile pre (Some e) (Some n) path = (e', r)"
  obtains (fail) "r = -1" "e' = Some e"
  | (ok) b p m ip where "r = 0" "path = Some p" "fs p = Some b" "compile b = Some m" "pre m = Some ip"
      "cstr n \<notin> me_name ` set (eng_modules e)" "length (eng_modules e) < MAX_MODULES"
      "e' = Some (e\<lparr>eng_modules := eng_modules e @ [\<lparr>me_name = cstr n, me_module = m, me_pre = ip\<rparr>]\<rparr>)"
proof (cases "r = -1 \<and> e' = Some e")
  case True
  then show ?thesis using fail by simp
next
  case False
  then obtain p b m ip where w: "path = Some p" "fs p = Some b" "compile b = Some m" "pre m = Some ip"
    and g: "\<not> (\<exists>m \<in> set (eng_modules e). me_name m = cstr n)" "\<not> length (eng_modules e) \<ge> MAX_MODULES"
    using assms by (auto simp: vwasm_engine_load_module_def split: option.splits if_splits)
  then have "r = 0 \<and> e' = Some (e\<lparr>eng_modules := eng_modules e @ [\<lparr>me_name = cstr n, me_module = m, me_pre = ip\<rparr>]\<rparr>)"
    using assms False by (simp add: vwasm_engine_load_module_def split: if_splits)
  moreover have "cstr n \<notin> me_name ` set (eng_modules e)" using g(1) by auto
  ultimately show ?thesis using ok [of p b m ip] w g(2) by simp
qed

section \<open>Lemmas: the allowlist\<close>

text \<open>The reference: cut at every separator, take the blanks off both ends.\<close>

fun split_on :: "byte \<Rightarrow> bytes \<Rightarrow> bytes list" where
  "split_on c [] = [[]]"
| "split_on c (x # xs) =
     (if x = c then [] # split_on c xs
      else (case split_on c xs of [] \<Rightarrow> [[x]] | y # ys \<Rightarrow> (x # y) # ys))"

definition trim :: "bytes \<Rightarrow> bytes" where
  "trim s = trim_end (skip_blanks s)"

definition upstream_entries :: "bytes \<Rightarrow> bytes list" where
  "upstream_entries l = filter (\<lambda>x. x \<noteq> []) (map trim (split_on (CHR '','') l))"

lemma split_on_nonempty [simp]: "split_on c s \<noteq> []"
  by (induction s) (auto split: list.split)

lemma split_on_run:
  "split_on c s = takeWhile (\<lambda>x. x \<noteq> c) s #
     (case dropWhile (\<lambda>x. x \<noteq> c) s of [] \<Rightarrow> [] | _ # r \<Rightarrow> split_on c r)"
  by (induction s) (auto split: list.split)

lemma strtok_Nil: "strtok c [] = []"
  by (simp add: strtok.simps)

lemma strtok_skip: "strtok c (c # s) = strtok c s"
  by (subst (1 2) strtok.simps) simp

lemma strtok_split_on: "strtok c s = filter (\<lambda>x. x \<noteq> []) (split_on c s)"
proof (induction "length s" arbitrary: s rule: less_induct)
  case less
  show ?case
  proof (cases s)
    case Nil
    then show ?thesis by (simp add: strtok.simps)
  next
    case (Cons x r)
    show ?thesis
    proof (cases "x = c")
      case True
      then show ?thesis using less [of r] Cons by (simp add: strtok_skip)
    next
      case False
      let ?d = "dropWhile (\<lambda>x. x \<noteq> c) s"
      have "strtok c ?d = (case ?d of [] \<Rightarrow> [] | _ # t \<Rightarrow> strtok c t)"
      proof (cases ?d)
        case (Cons y t)
        then have "y = c" using hd_dropWhile [of "\<lambda>x. x \<noteq> c" s] by simp
        then show ?thesis using Cons by (simp add: strtok_skip)
      next
        case Nil
        show ?thesis unfolding Nil by (simp add: strtok_Nil)
      qed
      moreover have "strtok c t = filter (\<lambda>x. x \<noteq> []) (split_on c t)" if "?d = y # t" for y t
      proof (rule less)
        have "length ?d \<le> length s" by (rule length_dropWhile_le)
        then show "length t < length s" using that by simp
      qed
      moreover have "strtok c s = takeWhile (\<lambda>x. x \<noteq> c) s # strtok c ?d"
        using Cons False by (subst strtok.simps) simp
      moreover have "takeWhile (\<lambda>x. x \<noteq> c) s \<noteq> []" using Cons False by simp
      ultimately show ?thesis by (subst split_on_run) (auto split: list.split simp del: dropWhile_eq_Nil_conv)
    qed
  qed
qed

lemma skip_blanks_Nil [simp]: "skip_blanks [] = []"
  by (simp add: skip_blanks_def)

lemma trim_Nil_iff: "trim s = [] \<longleftrightarrow> skip_blanks s = []"
proof
  assume "trim s = []"
  then have "\<forall>x \<in> set (skip_blanks s). is_blank x" by (auto simp: trim_def trim_end_def dropWhile_eq_Nil_conv)
  then show "skip_blanks s = []"
    unfolding skip_blanks_def by (metis hd_dropWhile hd_in_set)
qed (simp add: trim_def trim_end_def)

lemma upstream_fill_ok:
  assumes "length acc + length (filter (\<lambda>t. skip_blanks t \<noteq> []) toks) \<le> cnt"
    and "\<forall>k < cnt. al (3 + k)"
  shows "upstream_fill al cnt acc toks = Some (acc @ filter (\<lambda>x. x \<noteq> []) (map trim toks))"
  using assms(1)
proof (induction toks arbitrary: acc)
  case (Cons t toks)
  show ?case
  proof (cases "skip_blanks t = []")
    case True
    have "length acc < cnt \<or> filter (\<lambda>t. skip_blanks t \<noteq> []) toks = []"
      using Cons.prems True by (cases "filter (\<lambda>t. skip_blanks t \<noteq> []) toks") simp_all
    then have "length acc < cnt \<or> filter (\<lambda>x. x \<noteq> []) (map trim toks) = []"
      by (auto simp: filter_empty_conv trim_Nil_iff)
    then show ?thesis using Cons True by (auto simp: trim_Nil_iff)
  next
    case False
    then have "length acc < cnt" "length (acc @ [trim t]) + length (filter (\<lambda>t. skip_blanks t \<noteq> []) toks) \<le> cnt"
      using Cons.prems by simp_all
    then show ?thesis
      using Cons.IH [of "acc @ [trim t]"] assms(2) False by (simp add: trim_Nil_iff) (simp add: trim_def)
  qed
qed simp

lemma upstream_fill_fail:
  assumes "length acc \<le> k" "k < cnt" "\<not> al (3 + k)"
    and "length acc + length (filter (\<lambda>t. skip_blanks t \<noteq> []) toks) = cnt"
  shows "upstream_fill al cnt acc toks = None"
  using assms(1,4)
proof (induction toks arbitrary: acc)
  case Nil
  then show ?case using assms(2) by simp
next
  case (Cons t toks)
  then have lt: "length acc < cnt" using assms(2) by simp
  show ?case
  proof (cases "skip_blanks t = []")
    case True
    then show ?thesis using Cons lt by simp
  next
    case False
    then show ?thesis
      using Cons.IH [of "acc @ [trim_end (skip_blanks t)]"] Cons.prems lt assms(3)
      by (cases "length acc = k") simp_all
  qed
qed

lemma upstream_count:
  "length (filter (\<lambda>t. skip_blanks t \<noteq> []) (strtok (CHR '','') l)) = length (upstream_entries l)"
proof -
  have "(\<lambda>t. t \<noteq> [] \<and> skip_blanks t \<noteq> []) = (\<lambda>t. trim t \<noteq> [])"
    by (rule ext) (metis trim_Nil_iff skip_blanks_Nil)
  then show ?thesis
    by (simp add: upstream_entries_def strtok_split_on filter_map comp_def filter_filter conj_commute)
qed

lemma upstream_tokens:
  "filter (\<lambda>x. x \<noteq> []) (map trim (strtok (CHR '','') l)) = upstream_entries l"
proof -
  have "(\<lambda>t. trim t \<noteq> [] \<and> t \<noteq> []) = (\<lambda>t. trim t \<noteq> [])"
    by (rule ext) (metis trim_Nil_iff skip_blanks_Nil)
  then show ?thesis
    by (simp add: upstream_entries_def strtok_split_on filter_map comp_def filter_filter conj_commute)
qed

lemma upstream_entries_Nil: "upstream_entries [] = []"
  by (simp add: upstream_entries_def trim_def trim_end_def)

lemma allowed_upstreams_eq:
  "vwasm_engine_set_allowed_upstreams al (Some e) (Some l) =
     Some (e\<lparr>eng_allowed_upstreams :=
       (if upstream_entries (cstr l) = [] \<or> \<not> al 0 \<or> \<not> al 1 \<or> \<not> al 2 then None
        else upstream_fill al (length (upstream_entries (cstr l))) [] (strtok (CHR '','') (cstr l)))\<rparr>)"
  by (auto simp: vwasm_engine_set_allowed_upstreams_def upstream_count upstream_entries_Nil Let_def
      split: option.split)

section \<open>Lemmas: tick timers\<close>

text \<open>Every timer is in exactly one slot, that of its module, and every slot's timer is allocated.\<close>

definition timers_ok :: "'z vwasm_engine_scheme \<Rightarrow> bool" where
  "timers_ok e \<longleftrightarrow> length (tick_timers e) = MAX_MODULES \<and>
     (\<forall>a. timer_heap e a \<noteq> None \<longleftrightarrow> Some a \<in> set (tick_timers e)) \<and>
     (\<forall>i a. i < MAX_MODULES \<and> tick_timers e ! i = Some a \<longrightarrow>
        a < timer_brk e \<and> (\<exists>tt. timer_heap e a = Some tt \<and> tt_module_idx tt = i))"

definition timer_of :: "'z vwasm_engine_scheme \<Rightarrow> nat \<Rightarrow> tick_timer option" where
  "timer_of e i = (case tick_timers e ! i of None \<Rightarrow> None | Some a \<Rightarrow> timer_heap e a)"

definition start_timer :: "nat \<Rightarrow> u32 \<Rightarrow> 'z vwasm_engine_scheme \<Rightarrow> 'z vwasm_engine_scheme" where
  "start_timer idx p e =
     e\<lparr>timer_heap := (timer_heap e)(timer_brk e := Some \<lparr>tt_running = True, tt_period_ms = p, tt_module_idx = idx\<rparr>),
       timer_brk := timer_brk e + 1, tick_timers := (tick_timers e)[idx := Some (timer_brk e)]\<rparr>"

lemma timers_okI:
  assumes "length (tick_timers e) = MAX_MODULES"
    and "\<And>a. timer_heap e a \<noteq> None \<longleftrightarrow> Some a \<in> set (tick_timers e)"
    and "\<And>i a. i < MAX_MODULES \<Longrightarrow> tick_timers e ! i = Some a \<Longrightarrow>
      a < timer_brk e \<and> (\<exists>tt. timer_heap e a = Some tt \<and> tt_module_idx tt = i)"
  shows "timers_ok e"
  using assms unfolding timers_ok_def by blast

lemma timer_okD:
  assumes "timers_ok e" "i < MAX_MODULES" "tick_timers e ! i = Some a"
  obtains tt where "a < timer_brk e" "timer_heap e a = Some tt" "tt_module_idx tt = i"
  using assms unfolding timers_ok_def by blast

lemma timer_slot_inj:
  assumes "timers_ok e" "i < MAX_MODULES" "j < MAX_MODULES" "tick_timers e ! i = Some a" "tick_timers e ! j = Some a"
  shows "i = j"
  by (rule timer_okD [OF assms(1,2,4)], rule timer_okD [OF assms(1,3,5)]) simp

lemma stop_timer_none: "tick_timers e ! idx = None \<Longrightarrow> stop_timer idx e = e"
  by (simp add: stop_timer_def)

lemma stop_timer_some:
  "tick_timers e ! idx = Some a \<Longrightarrow>
   stop_timer idx e = e\<lparr>timer_heap := (timer_heap e)(a := None), tick_timers := (tick_timers e)[idx := None]\<rparr>"
  by (simp add: stop_timer_def Let_def)

lemma set_update_slot:
  "i < length xs \<Longrightarrow> Some a \<in> set (xs[i := y]) \<longleftrightarrow> y = Some a \<or> (\<exists>j < length xs. j \<noteq> i \<and> xs ! j = Some a)"
  by (auto simp: in_set_conv_nth nth_list_update)

lemma stop_timer_slot: "idx < length (tick_timers e) \<Longrightarrow> tick_timers (stop_timer idx e) ! idx = None"
  by (auto simp: stop_timer_def Let_def split: option.split)

lemma stop_timer_ok:
  assumes "timers_ok e" "idx < MAX_MODULES"
  shows "timers_ok (stop_timer idx e)"
proof (cases "tick_timers e ! idx")
  case None
  then show ?thesis using assms by (simp add: stop_timer_none)
next
  case (Some a)
  let ?e = "e\<lparr>timer_heap := (timer_heap e)(a := None), tick_timers := (tick_timers e)[idx := None]\<rparr>"
  have len: "length (tick_timers e) = MAX_MODULES" using assms by (simp add: timers_ok_def)
  have heap: "timer_heap ?e b \<noteq> None \<longleftrightarrow> Some b \<in> set (tick_timers ?e)" for b
  proof -
    have "timer_heap e b \<noteq> None \<longleftrightarrow> (\<exists>j < MAX_MODULES. tick_timers e ! j = Some b)"
      using assms(1) len by (auto simp: timers_ok_def in_set_conv_nth)
    then show ?thesis
      using timer_slot_inj [OF assms(1)] assms(2) Some len by (auto simp: set_update_slot)
  qed
  have slot: "b < timer_brk ?e \<and> (\<exists>tt. timer_heap ?e b = Some tt \<and> tt_module_idx tt = i)"
    if "i < MAX_MODULES" "tick_timers ?e ! i = Some b" for i b
  proof -
    have i: "i \<noteq> idx" "tick_timers e ! i = Some b" using that len by (auto simp: nth_list_update_if split: if_splits)
    then have "b \<noteq> a" using timer_slot_inj [OF assms(1) that(1) assms(2)] Some by auto
    then show ?thesis using assms(1) that(1) i by (auto simp: timers_ok_def)
  qed
  have "timers_ok ?e" by (rule timers_okI [OF _ heap slot]) (use len in simp_all)
  then show ?thesis using Some by (simp add: stop_timer_some)
qed

lemma stop_timer_of:
  assumes "timers_ok e" "idx < MAX_MODULES" "j < MAX_MODULES"
  shows "timer_of (stop_timer idx e) j = (if j = idx then None else timer_of e j)"
proof (cases "tick_timers e ! idx")
  case None
  then show ?thesis by (simp add: stop_timer_none timer_of_def)
next
  case (Some a)
  have "length (tick_timers e) = MAX_MODULES" using assms by (simp add: timers_ok_def)
  then show ?thesis
    using assms(2,3) timer_slot_inj [OF assms(1) assms(2,3) Some]
    by (auto simp: timer_of_def stop_timer_some [OF Some] nth_list_update split: option.split)
qed

lemma start_timer_ok:
  assumes "timers_ok e" "idx < MAX_MODULES" "tick_timers e ! idx = None"
  shows "timers_ok (start_timer idx p e)"
proof -
  let ?e = "start_timer idx p e"
  have len: "length (tick_timers e) = MAX_MODULES" using assms by (simp add: timers_ok_def)
  have fresh: "tick_timers e ! j \<noteq> Some (timer_brk e)" if "j < MAX_MODULES" for j
    using assms(1) that by (auto simp: timers_ok_def)
  have dom: "timer_heap e b \<noteq> None \<longleftrightarrow> (\<exists>j < MAX_MODULES. tick_timers e ! j = Some b)" for b
    using assms(1) len by (auto simp: timers_ok_def in_set_conv_nth)
  have heap: "timer_heap ?e b \<noteq> None \<longleftrightarrow> Some b \<in> set (tick_timers ?e)" for b
    using dom [of b] fresh assms(2,3) len by (auto simp: start_timer_def set_update_slot)
  have slot: "b < timer_brk ?e \<and> (\<exists>tt. timer_heap ?e b = Some tt \<and> tt_module_idx tt = i)"
    if "i < MAX_MODULES" "tick_timers ?e ! i = Some b" for i b
  proof (cases "i = idx")
    case True
    then show ?thesis using that len by (simp add: start_timer_def)
  next
    case False
    then have i: "tick_timers e ! i = Some b" using that len by (simp add: start_timer_def nth_list_update_if)
    then have "b \<noteq> timer_brk e" using fresh [OF that(1)] by auto
    then show ?thesis
      by (rule_tac timer_okD [OF assms(1) that(1) i]) (simp add: start_timer_def)
  qed
  show ?thesis by (rule timers_okI [OF _ heap slot]) (use len in \<open>simp_all add: start_timer_def\<close>)
qed

lemma start_timer_of:
  assumes "timers_ok e" "idx < MAX_MODULES" "j < MAX_MODULES"
  shows "timer_of (start_timer idx p e) j =
    (if j = idx then Some \<lparr>tt_running = True, tt_period_ms = p, tt_module_idx = idx\<rparr> else timer_of e j)"
proof -
  have len: "length (tick_timers e) = MAX_MODULES" using assms by (simp add: timers_ok_def)
  have "tick_timers e ! j \<noteq> Some (timer_brk e)" using assms(1,3) by (auto simp: timers_ok_def)
  then show ?thesis
    using len assms(2,3) by (auto simp: timer_of_def start_timer_def nth_list_update split: option.split)
qed

lemma set_tick_period_cases:
  assumes "vwasm_engine_set_tick_period al (Some e) (Some n) p = (e', r)"
  shows "(r = -1 \<and> e' = Some e) \<or>
    (\<exists>idx. find_module e n = Some idx \<and> idx < MAX_MODULES \<and>
       ((r = 0 \<and> p = 0 \<or> r = -1 \<and> p \<noteq> 0) \<and> e' = Some (stop_timer idx e) \<or>
        r = 0 \<and> p \<noteq> 0 \<and> e' = Some (start_timer idx p (stop_timer idx e))))"
  using assms
  by (auto simp: vwasm_engine_set_tick_period_def start_timer_def Let_def not_le split: option.splits if_splits)

lemma set_tick_period_ok:
  assumes "vwasm_engine_set_tick_period al (Some e) (Some n) p = (Some e', r)" "timers_ok e"
  shows "timers_ok e'"
proof -
  have len: "length (tick_timers e) = MAX_MODULES" using assms(2) by (simp add: timers_ok_def)
  show ?thesis
    using set_tick_period_cases [OF assms(1)]
  proof (elim disjE exE conjE)
    fix idx
    assume i: "idx < MAX_MODULES" and e': "Some e' = Some (start_timer idx p (stop_timer idx e))"
    have "timers_ok (start_timer idx p (stop_timer idx e))"
      using start_timer_ok [OF stop_timer_ok [OF assms(2) i] i] stop_timer_slot [of idx e] i len by simp
    then show ?thesis using e' by simp
  qed (use assms(2) stop_timer_ok in auto)
qed

text \<open>A stopped timer's block stays free, whatever periods are set afterwards.\<close>

definition timer_gone :: "nat \<Rightarrow> 'z vwasm_engine_scheme \<Rightarrow> bool" where
  "timer_gone a e \<longleftrightarrow> timer_heap e a = None \<and> a < timer_brk e"

lemma stop_timer_gone: "timer_gone a e \<Longrightarrow> timer_gone a (stop_timer idx e)"
  by (auto simp: timer_gone_def stop_timer_def Let_def split: option.split)

lemma start_timer_gone: "timer_gone a e \<Longrightarrow> timer_gone a (start_timer idx p e)"
  by (auto simp: timer_gone_def start_timer_def)

lemma set_tick_period_some: "\<exists>e'. fst (vwasm_engine_set_tick_period al (Some e) (Some n) p) = Some e'"
  by (simp add: vwasm_engine_set_tick_period_def Let_def split: option.split)

lemma set_tick_period_gone:
  assumes "timer_gone a e"
  shows "timer_gone a (the (fst (vwasm_engine_set_tick_period al (Some e) (Some n) p)))"
proof (cases "vwasm_engine_set_tick_period al (Some e) (Some n) p")
  case (Pair e' r)
  show ?thesis
    using set_tick_period_cases [OF Pair] Pair assms by (auto intro!: stop_timer_gone start_timer_gone)
qed

lemma periods_gone:
  "timer_gone a e \<Longrightarrow>
   timer_gone a (foldl (\<lambda>e p. the (fst (vwasm_engine_set_tick_period al (Some e) (Some n) p))) e ps)"
  by (induction ps arbitrary: e) (simp_all add: set_tick_period_gone)

text \<open>An engine with one module and no timer, for the examples.\<close>

definition one_module :: vwasm_engine where
  "one_module = the (vwasm_engine_new mem_ok)\<lparr>eng_modules := [\<lparr>me_name = ''auth'', me_module = 7, me_pre = 7\<rparr>]\<rparr>"

lemma one_module_find: "find_module one_module ''auth'' = Some 0"
  by (simp add: one_module_def find_module_def cstr_def)

lemma one_module_ok: "timers_ok one_module" "modules_ok one_module"
proof -
  show "timers_ok one_module" by (rule timers_okI) (simp_all add: one_module_def vwasm_engine_new_def)
qed (simp add: modules_ok_def one_module_def vwasm_engine_new_def MAX_MODULES_def)

section \<open>Properties\<close>

text \<open>The module table is a map. Names stay distinct and there are at most 64 of them; a load that
  reports success makes the name, which was not there, resolve to the module compiled from the file, and
  changes the lookup of no other name; a load that fails for whatever reason changes nothing.\<close>

theorem load_then_find:
  assumes "modules_ok e" "vwasm_engine_load_module al fs compile pre (Some e) (Some n) path = (e', r)"
  shows "\<exists>e''. e' = Some e'' \<and> modules_ok e'' \<and>
    (if r = 0
     then find_module e n = None \<and>
       (\<exists>i b. find_module e'' n = Some i \<and> compile b = Some (me_module (eng_modules e'' ! i)) \<and>
          Option.bind path fs = Some b) \<and>
       (\<forall>n'. cstr n' \<noteq> cstr n \<longrightarrow> find_module e'' n' = find_module e n')
     else e'' = e)"
  using assms(2)
proof (cases rule: load_module_cases)
  case fail
  then show ?thesis using assms(1) by simp
next
  case (ok b p m ip)
  have none: "find_module e n = None" using ok(6) by (force simp: find_module_def find_index_None)
  show ?thesis
    using assms(1) ok none
    by (auto simp: modules_ok_def find_module_def find_index_append nth_append split: option.split)
qed

theorem load_then_find_witness:
  "\<exists>e'. vwasm_engine_load_module mem_ok (\<lambda>_. Some ''bytes'') (\<lambda>_. Some 7) (\<lambda>m. Some m)
          (vwasm_engine_new mem_ok) (Some ''auth'') (Some ''/auth.wasm'') = (Some e', 0) \<and>
     find_module e' ''auth'' = Some 0 \<and> find_module e' ''geo'' = None"
proof -
  obtain e where e: "vwasm_engine_new mem_ok = Some e" "eng_modules e = []"
    by (simp add: vwasm_engine_new_def)
  have l: "vwasm_engine_load_module mem_ok (\<lambda>_. Some ''bytes'') (\<lambda>_. Some 7) (\<lambda>m. Some m)
        (Some e) (Some ''auth'') (Some ''/auth.wasm'') =
      (Some (e\<lparr>eng_modules := [\<lparr>me_name = ''auth'', me_module = 7, me_pre = 7\<rparr>]\<rparr>), 0)"
    using e(2) by (simp add: vwasm_engine_load_module_def MAX_MODULES_def cstr_def)
  have "modules_ok e" using e(2) by (simp add: modules_ok_def)
  then show ?thesis
    using load_then_find [OF _ l] e by (auto simp: l find_module_def cstr_def)
qed

text \<open>The allowlist means what the administrator wrote. When no allocation fails, the entries that
  callouts are checked against are the comma-separated entries of the text with the blanks around them
  removed, the empty ones dropped; a text with no entry gives no allowlist. When an allocation fails, there
  is no allowlist either, and every upstream is allowed.\<close>

theorem allowlist_parsed:
  "map_option eng_allowed_upstreams (vwasm_engine_set_allowed_upstreams al (Some e) (Some l)) =
     Some (if upstream_entries (cstr l) = [] \<or> (\<exists>k < 3 + length (upstream_entries (cstr l)). \<not> al k) then None
           else Some (upstream_entries (cstr l)))"
proof (cases "upstream_entries (cstr l) = [] \<or> \<not> al 0 \<or> \<not> al 1 \<or> \<not> al 2")
  case True
  then have "upstream_entries (cstr l) = [] \<or> (\<exists>k < 3 + length (upstream_entries (cstr l)). \<not> al k)"
    by (auto intro: exI [of _ 0] exI [of _ 1] exI [of _ 2])
  then show ?thesis using True by (auto simp: allowed_upstreams_eq)
next
  case False
  let ?n = "length (upstream_entries (cstr l))"
  have step: "map_option eng_allowed_upstreams (vwasm_engine_set_allowed_upstreams al (Some e) (Some l)) =
      Some (upstream_fill al ?n [] (strtok (CHR '','') (cstr l)))"
    using False by (simp add: allowed_upstreams_eq)
  show ?thesis
  proof (cases "\<exists>k < ?n. \<not> al (3 + k)")
    case True
    then obtain k where k: "k < ?n" "\<not> al (3 + k)" by blast
    have "upstream_fill al ?n [] (strtok (CHR '','') (cstr l)) = None"
      using k by (intro upstream_fill_fail [of _ k]) (simp_all add: upstream_count)
    moreover have "\<exists>k < 3 + ?n. \<not> al k" using k by (intro exI [of _ "3 + k"]) simp
    ultimately show ?thesis using step by simp
  next
    case False
    then have "upstream_fill al ?n [] (strtok (CHR '','') (cstr l)) = Some (upstream_entries (cstr l))"
      using upstream_fill_ok [of "[]" "strtok (CHR '','') (cstr l)" ?n al] by (simp add: upstream_count upstream_tokens)
    moreover have "al k" if "k < 3 + ?n" for k
    proof (cases "k < 3")
      case True
      then show ?thesis using \<open>\<not> (upstream_entries (cstr l) = [] \<or> \<not> al 0 \<or> \<not> al 1 \<or> \<not> al 2)\<close>
        by (auto simp: numeral_3_eq_3 less_Suc_eq numeral_2_eq_2)
    next
      case False
      then show ?thesis using \<open>\<not> (\<exists>k < ?n. \<not> al (3 + k))\<close> that
        by (metis add_diff_inverse_nat nat_add_left_cancel_less)
    qed
    ultimately show ?thesis using step \<open>\<not> (upstream_entries (cstr l) = [] \<or> _)\<close> by auto
  qed
qed

text \<open>Setting a tick period gives the module one timer. Called from a thread that is not a timer's own,
  it leaves every timer in the slot of its module and no block unowned; on success the module has a running
  timer with that period, or none when the period is 0, and the other modules' timers are untouched.\<close>

theorem tick_period_sets_timer:
  assumes "vwasm_engine_set_tick_period al (Some e) (Some n) p = (Some e', r)" "timers_ok e"
  shows "timers_ok e' \<and>
    (r = 0 \<longrightarrow> (\<exists>i. find_module e n = Some i \<and>
       timer_of e' i = (if p = 0 then None else Some \<lparr>tt_running = True, tt_period_ms = p, tt_module_idx = i\<rparr>))) \<and>
    (\<forall>j < MAX_MODULES. find_module e n \<noteq> Some j \<longrightarrow> timer_of e' j = timer_of e j)"
  using set_tick_period_cases [OF assms(1)]
proof (elim disjE exE conjE)
  fix idx
  assume i: "find_module e n = Some idx" "idx < MAX_MODULES"
    and e': "p \<noteq> 0" "Some e' = Some (start_timer idx p (stop_timer idx e))"
  then show ?thesis
    using set_tick_period_ok [OF assms] start_timer_of [OF stop_timer_ok [OF assms(2) i(2)] i(2)]
      stop_timer_of [OF assms(2) i(2)] by simp
qed (use set_tick_period_ok [OF assms] stop_timer_of [OF assms(2)] in simp_all)

theorem tick_period_sets_timer_witness:
  "\<exists>e'. vwasm_engine_set_tick_period mem_ok (Some one_module) (Some ''auth'') 250 = (Some e', 0) \<and>
     timers_ok e' \<and> timer_of e' 0 = Some \<lparr>tt_running = True, tt_period_ms = 250, tt_module_idx = 0\<rparr>"
proof -
  obtain e' where s: "vwasm_engine_set_tick_period mem_ok (Some one_module) (Some ''auth'') 250 = (Some e', 0)"
    by (simp add: vwasm_engine_set_tick_period_def one_module_find MAX_MODULES_def Let_def)
  then show ?thesis using tick_period_sets_timer [OF s one_module_ok(1)] one_module_find by auto
qed

text \<open>C39: a timer that is set from its own callback is used after it was freed. The thread of a timer runs
  the module's start-up callbacks on every tick; when one of them sets the tick period, as modules do in
  \<open>proxy_on_vm_start\<close>, the join of the thread with itself fails, the block is freed all the same, and
  the thread's next look at it is at freed memory.\<close>

theorem tick_from_timer_faults:
  assumes "timers_ok e" "modules_ok e" "idx < length (eng_modules e)" "tick_timers e ! idx = Some a"
    and "timer_heap e a = Some tt" "tt_running tt" "periods \<noteq> []"
  shows "\<exists>e'. tick_timer_thread al True periods True a e = Tick_Next e' \<and>
    tick_timer_thread al' inst periods' on_tick a e' = Tick_Fault"
proof -
  let ?n = "me_name (eng_modules e ! idx)"
  obtain p ps where ps: "periods = p # ps" using assms(7) by (cases periods) auto
  have idx: "idx < MAX_MODULES" using assms(2,3) by (simp add: modules_ok_def)
  have tt: "tt_module_idx tt = idx" "a < timer_brk e"
    using timer_okD [OF assms(1) idx assms(4)] assms(5) by auto
  have nf: "cstr ?n = ?n" using assms(2,3) by (simp add: modules_ok_def list_all_length cstr_id)
  have "me_name (eng_modules e ! j) \<noteq> ?n" if "j < idx" for j
    using assms(2,3) that nth_eq_iff_index_eq [of "map me_name (eng_modules e)" j idx] by (simp add: modules_ok_def)
  then have f: "find_module e ?n = Some idx"
    using assms(3) nf by (simp add: find_module_def find_index_Some)
  have "timer_gone a (stop_timer idx e)" using stop_timer_some [OF assms(4)] tt by (simp add: timer_gone_def)
  moreover have "the (fst (vwasm_engine_set_tick_period al (Some e) (Some ?n) p)) \<in>
      {stop_timer idx e, start_timer idx p (stop_timer idx e)}"
    using f idx by (simp add: vwasm_engine_set_tick_period_def start_timer_def Let_def)
  ultimately have g: "timer_gone a (the (fst (vwasm_engine_set_tick_period al (Some e) (Some ?n) p)))"
    using start_timer_gone by auto
  have "timer_gone a (foldl (\<lambda>e p. the (fst (vwasm_engine_set_tick_period al (Some e) (Some ?n) p))) e periods)"
    using periods_gone [OF g] by (simp add: ps)
  then show ?thesis using assms(5,6) tt by (simp add: tick_timer_thread_def timer_gone_def Let_def)
qed

theorem tick_from_timer_faults_witness:
  "\<exists>e'. tick_timer_thread mem_ok True [250] True 0 (start_timer 0 250 one_module) = Tick_Next e' \<and>
     tick_timer_thread mem_ok True [] True 0 e' = Tick_Fault"
proof -
  let ?e = "start_timer 0 250 one_module"
  have n: "tick_timers one_module ! 0 = None" "timer_brk one_module = 0" "length (tick_timers one_module) = 64"
      "eng_modules one_module = [\<lparr>me_name = ''auth'', me_module = 7, me_pre = 7\<rparr>]"
    by (simp_all add: one_module_def vwasm_engine_new_def MAX_MODULES_def)
  have "timers_ok ?e" using start_timer_ok [OF one_module_ok(1)] n by (simp add: MAX_MODULES_def)
  moreover have "modules_ok ?e" using one_module_ok(2) by (simp add: modules_ok_def start_timer_def)
  ultimately show ?thesis
    using n by (intro tick_from_timer_faults [of _ 0 _ "\<lparr>tt_running = True, tt_period_ms = 250, tt_module_idx = 0\<rparr>"])
      (simp_all add: start_timer_def)
qed

end
