(* ===== verification/Proxy_Host.thy ===== *)
theory Proxy_Host
  imports Proxy_Context Wasm_Engine Header_Map
begin

text \<open>
  The host functions of \<^verbatim>\<open>src/proxy_wasm.c\<close> besides the metrics: logging, local responses, time, the
  effective context, the tick period, the stream flags, the body buffers, shared data, shared queues and
  the status, with the global stores and the cleanup of a context. Arguments are read as 32-bit values by
  position; the result is the context afterwards and the status the guest gets.
\<close>

abbreviation ret0 :: "proxy_status \<Rightarrow> proxy_ctx \<times> bool \<Rightarrow> proxy_ctx \<times> proxy_status" where
  "ret0 err r \<equiv> (case r of (ctx, ok) \<Rightarrow> (ctx, if ok then PROXY_OK else err))"

section \<open>The global stores\<close>

text \<open>The three static pointers of the file. Each accessor creates its store under the mutex when the
  pointer is NULL, so two racing first calls create one; \<open>ok\<close> is whether the allocation and the lock
  initialization succeed.\<close>

record global_stores =
  global_shared_data :: "shared_data option"
  global_queue_store :: "queue_store option"
  global_metric_store :: "metric_store option"

definition vwasm_proxy_wasm_get_shared_data :: "malloc \<Rightarrow> bool \<Rightarrow> global_stores \<Rightarrow> global_stores \<times> shared_data option" where
  "vwasm_proxy_wasm_get_shared_data al lock_ok g =
     (let g = (if global_shared_data g = None
               then g\<lparr>global_shared_data := vwasm_shared_data_new al lock_ok\<rparr> else g)
      in (g, global_shared_data g))"

definition vwasm_proxy_wasm_get_queue_store :: "malloc \<Rightarrow> bool \<Rightarrow> global_stores \<Rightarrow> global_stores \<times> queue_store option" where
  "vwasm_proxy_wasm_get_queue_store al lock_ok g =
     (let g = (if global_queue_store g = None
               then g\<lparr>global_queue_store := vwasm_queue_store_new al lock_ok\<rparr> else g)
      in (g, global_queue_store g))"

definition vwasm_proxy_wasm_get_metric_store :: "malloc \<Rightarrow> global_stores \<Rightarrow> global_stores \<times> metric_store option" where
  "vwasm_proxy_wasm_get_metric_store al g =
     (let g = (if global_metric_store g = None
               then g\<lparr>global_metric_store := (if al 0 then Some \<lparr>ms_metrics = []\<rparr> else None)\<rparr> else g)
      in (g, global_metric_store g))"

definition vwasm_proxy_wasm_destroy_shared :: "global_stores \<Rightarrow> global_stores" where
  "vwasm_proxy_wasm_destroy_shared g =
     (let g = (if global_shared_data g \<noteq> None
               then g\<lparr>global_shared_data := fst (vwasm_shared_data_destroy (global_shared_data g))\<rparr> else g);
          g = (if global_queue_store g \<noteq> None
               then g\<lparr>global_queue_store := fst (vwasm_queue_store_destroy (global_queue_store g))\<rparr> else g)
      in g\<lparr>global_metric_store := None\<rparr>)"

section \<open>Logging\<close>

datatype vsl_tag = SLT_Debug | SLT_Error | SLT_VCL_Log

text \<open>The record written to the shared log, if any. \<open>vsl\<close> is whether the request has a log buffer.\<close>

definition pw_proxy_log ::
  "bool \<Rightarrow> proxy_ctx \<Rightarrow> (nat \<Rightarrow> u32) \<Rightarrow> (vsl_tag \<times> bytes) option \<times> proxy_status" where
  "pw_proxy_log vsl ctx args =
     (if vrt ctx = None then (None, PROXY_INTERNAL)
      else
        (case pw_read_string ctx (args 1) (args 2) 4096 of
           None \<Rightarrow> (None, PROXY_BAD_ARGUMENT)
         | Some buf \<Rightarrow>
             (let mod_nm = (case mod_name ctx of None \<Rightarrow> ''?'' | Some n \<Rightarrow> cstr n);
                  level = sint (args 0)
              in (if \<not> vsl then None
                  else if level \<le> 2 then Some (SLT_Debug, ''[wasm:'' @ mod_nm @ ''] '' @ cstr buf)
                  else if level \<le> 3 then Some (SLT_Debug, ''[wasm:'' @ mod_nm @ ''] WARN: '' @ cstr buf)
                  else Some (SLT_Error, ''[wasm:'' @ mod_nm @ ''] '' @ cstr buf), PROXY_OK))))"

definition pw_proxy_get_log_level :: "proxy_ctx \<Rightarrow> (nat \<Rightarrow> u32) \<Rightarrow> proxy_ctx \<times> proxy_status" where
  "pw_proxy_get_log_level ctx args = ret0 PROXY_BAD_ARGUMENT (pw_write_u32 ctx (args 0) 1)"

section \<open>The local response\<close>

text \<open>A copy of a guest region into a heap block of \<open>sz\<close> bytes, as the C code makes it: \<open>None\<close> when the
  allocation fails. A block that is too small is overrun, which raises the fault flag.\<close>

definition copy_region :: "bool \<Rightarrow> u32 \<Rightarrow> u32 \<Rightarrow> nat \<Rightarrow> proxy_ctx \<Rightarrow> proxy_ctx \<times> bytes option" where
  "copy_region al_ok ptr len sz ctx =
     (if \<not> al_ok then (ctx, None)
      else (if sz < unat len then ctx\<lparr>mem_fault := True\<rparr> else ctx,
            Some (chunk (unat ptr) (unat len) (memory ctx))))"

text \<open>The block for the body has \<open>body_size + 1\<close> bytes, a 32-bit sum.\<close>

definition pw_proxy_send_local_response ::
  "malloc \<Rightarrow> proxy_ctx \<Rightarrow> (nat \<Rightarrow> u32) \<Rightarrow> proxy_ctx \<times> proxy_status" where
  "pw_proxy_send_local_response al ctx args =
     (let ctx = ctx\<lparr>local_response_set := True, local_response_code := sint (args 0)\<rparr>;
          body_ptr = args 3; body_size = args 4;
          ctx = (if body_size > 0 \<and> pw_validate_region ctx body_ptr body_size
                 then (case copy_region (al 0) body_ptr body_size (unat (body_size + 1)) ctx of
                         (ctx, b) \<Rightarrow> ctx\<lparr>local_response_body := b\<rparr>)
                 else ctx);
          headers_ptr = args 5; headers_size = args 6;
          ctx = (if headers_size > 0 \<and> pw_validate_region ctx headers_ptr headers_size
                 then (case copy_region (al 1) headers_ptr headers_size (unat headers_size) ctx of
                         (ctx, b) \<Rightarrow> ctx\<lparr>local_response_headers := b\<rparr>)
                 else ctx)
      in (ctx, PROXY_OK))"

section \<open>Time, context and stream\<close>

text \<open>\<open>ts\<close> is what \<open>clock_gettime\<close> gives: seconds and nanoseconds.\<close>

definition pw_proxy_get_current_time :: "u64 \<times> u64 \<Rightarrow> proxy_ctx \<Rightarrow> (nat \<Rightarrow> u32) \<Rightarrow> proxy_ctx \<times> proxy_status" where
  "pw_proxy_get_current_time ts ctx args =
     (let nanos = fst ts * 1000000000 + snd ts in
      if \<not> pw_validate_region ctx (args 0) 8 then (ctx, PROXY_BAD_ARGUMENT)
      else (case pw_mem_ptr ctx (args 0) of
              None \<Rightarrow> (ctx, PROXY_BAD_ARGUMENT)
            | Some p \<Rightarrow> (mem_store p (put64 nanos) ctx, PROXY_OK)))"

definition pw_stub_not_found :: "proxy_ctx \<Rightarrow> (nat \<Rightarrow> u32) \<Rightarrow> proxy_ctx \<times> proxy_status" where
  "pw_stub_not_found ctx args = (ctx, PROXY_NOT_FOUND)"

definition pw_proxy_set_effective_context :: "proxy_ctx \<Rightarrow> (nat \<Rightarrow> u32) \<Rightarrow> proxy_ctx \<times> proxy_status" where
  "pw_proxy_set_effective_context ctx args =
     (let context_id = args 0 in
      if context_id = root_context_id ctx \<or> context_id = stream_context_id ctx
      then (ctx, PROXY_OK) else (ctx, PROXY_BAD_ARGUMENT))"

definition pw_proxy_set_tick_period ::
  "malloc \<Rightarrow> vwasm_engine option \<Rightarrow> proxy_ctx \<Rightarrow> (nat \<Rightarrow> u32) \<Rightarrow> vwasm_engine option \<times> proxy_ctx \<times> proxy_status" where
  "pw_proxy_set_tick_period al engine ctx args =
     (let period_ms = args 0; ctx = ctx\<lparr>tick_period_ms := period_ms\<rparr> in
      if engine \<noteq> None \<and> mod_name ctx \<noteq> None then
        (case vwasm_engine_set_tick_period al engine (mod_name ctx) period_ms of
           (engine, r) \<Rightarrow> (engine, ctx, if r \<noteq> 0 then PROXY_INTERNAL else PROXY_OK))
      else (engine, ctx, PROXY_OK))"

definition pw_proxy_continue_stream :: "proxy_ctx \<Rightarrow> (nat \<Rightarrow> u32) \<Rightarrow> proxy_ctx \<times> proxy_status" where
  "pw_proxy_continue_stream ctx args = (ctx\<lparr>paused := False\<rparr>, PROXY_OK)"

definition pw_proxy_close_stream :: "proxy_ctx \<Rightarrow> (nat \<Rightarrow> u32) \<Rightarrow> proxy_ctx \<times> proxy_status" where
  "pw_proxy_close_stream ctx args = (ctx\<lparr>ctx_done := True\<rparr>, PROXY_OK)"

definition pw_proxy_done :: "proxy_ctx \<Rightarrow> (nat \<Rightarrow> u32) \<Rightarrow> proxy_ctx \<times> proxy_status" where
  "pw_proxy_done ctx args = (ctx\<lparr>ctx_done := True\<rparr>, PROXY_OK)"

section \<open>Body buffers\<close>

text \<open>A NULL buffer has length 0. The outer option is -1, the inner one the new buffer, NULL when it is
  empty.\<close>

definition buf_len :: "bytes option \<Rightarrow> nat" where
  "buf_len b = (case b of None \<Rightarrow> 0 | Some bs \<Rightarrow> length bs)"

definition buf_bytes :: "bytes option \<Rightarrow> bytes" where
  "buf_bytes b = (case b of None \<Rightarrow> [] | Some bs \<Rightarrow> bs)"

definition SIZE_T_MAX :: nat where "SIZE_T_MAX = 2 ^ 64 - 1"

definition pw_replace_bytes ::
  "bool \<Rightarrow> bytes option \<Rightarrow> u32 \<Rightarrow> u32 \<Rightarrow> bytes option \<Rightarrow> u32 \<Rightarrow> bytes option option" where
  "pw_replace_bytes al_ok base start replace_len value value_len =
     (let base_len = buf_len base;
          start = (if unat start > base_len then of_nat base_len else start);
          prefix_len = unat start;
          replace_len = (if unat replace_len > base_len - prefix_len
                         then of_nat (base_len - prefix_len) else replace_len);
          suffix_offset = prefix_len + unat replace_len;
          suffix_len = base_len - suffix_offset
      in if unat value_len > SIZE_T_MAX - prefix_len \<or>
            prefix_len + unat value_len > SIZE_T_MAX - suffix_len then None
         else
           (let new_len = prefix_len + unat value_len + suffix_len in
            if new_len = 0 then Some None
            else if \<not> al_ok then None
            else Some (Some (take prefix_len (buf_bytes base) @ take (unat value_len) (buf_bytes value) @
                             drop suffix_offset (buf_bytes base)))))"

text \<open>The \<open>switch\<close> both readers of a buffer have: the data, or the status to return at once.\<close>

definition buffer_data :: "proxy_ctx \<Rightarrow> u32 \<Rightarrow> proxy_status + bytes option" where
  "buffer_data ctx buffer_type =
     (if buffer_type = PROXY_BUFFER_VM_CONFIGURATION then Inr (vm_config ctx)
      else if buffer_type = PROXY_BUFFER_PLUGIN_CONFIG then Inr (plugin_config ctx)
      else if buffer_type = PROXY_BUFFER_HTTP_CALL_BODY then
        (case active_http_call ctx of
           Some ent \<Rightarrow> if hcr_valid (hce_response ent) then Inr (hcr_body (hce_response ent)) else Inl PROXY_NOT_FOUND
         | None \<Rightarrow> Inl PROXY_NOT_FOUND)
      else if buffer_type = PROXY_BUFFER_HTTP_REQUEST_BODY then
        Inr (if body_modified ctx then modified_body ctx else request_body ctx)
      else if buffer_type = PROXY_BUFFER_HTTP_RESPONSE_BODY then
        Inr (if body_modified ctx then modified_body ctx else response_body ctx)
      else if buffer_type \<in> {2, 3, 5, 8} then Inl PROXY_NOT_FOUND
      else Inl PROXY_BAD_ARGUMENT)"

definition pw_proxy_get_buffer_bytes :: "proxy_ctx \<Rightarrow> (nat \<Rightarrow> u32) \<Rightarrow> proxy_ctx \<times> proxy_status" where
  "pw_proxy_get_buffer_bytes ctx args =
     (let start = unat (args 1); max_size = unat (args 2) in
      case buffer_data ctx (args 0) of
        Inl st \<Rightarrow> (ctx, st)
      | Inr data \<Rightarrow>
          (let data = (case data of
                         None \<Rightarrow> None
                       | Some d \<Rightarrow>
                           if start < length d
                           then (let d = drop start d in
                                 Some (if max_size > 0 \<and> length d > max_size then take max_size d else d))
                           else None)
           in ret0 PROXY_INTERNAL (pw_return_bytes ctx data (buf_len data) (args 3) (args 4))))"

definition pw_proxy_set_buffer_bytes :: "malloc \<Rightarrow> proxy_ctx \<Rightarrow> (nat \<Rightarrow> u32) \<Rightarrow> proxy_ctx \<times> proxy_status" where
  "pw_proxy_set_buffer_bytes al ctx args =
     (let buffer_type = args 0; start = args 1; sz = args 2; data_ptr = args 3; data_size = args 4 in
      if data_size > 0 \<and> \<not> pw_validate_region ctx data_ptr data_size then (ctx, PROXY_BAD_ARGUMENT)
      else
        (let value_data = (if data_size > 0
                           then Some (chunk (unat data_ptr) (unat data_size) (memory ctx)) else None);
             store = (\<lambda>base. case pw_replace_bytes (al 0) base start sz value_data data_size of
                               None \<Rightarrow> (ctx, PROXY_INTERNAL)
                             | Some new_body \<Rightarrow>
                                 (ctx\<lparr>modified_body := new_body, body_modified := True\<rparr>, PROXY_OK))
         in if buffer_type = PROXY_BUFFER_HTTP_REQUEST_BODY then
              store (if body_modified ctx then modified_body ctx else request_body ctx)
            else if buffer_type = PROXY_BUFFER_HTTP_RESPONSE_BODY then
              store (if body_modified ctx then modified_body ctx else response_body ctx)
            else if buffer_type \<in> {PROXY_BUFFER_VM_CONFIGURATION, PROXY_BUFFER_PLUGIN_CONFIG,
                                    PROXY_BUFFER_HTTP_CALL_BODY, 2, 3, 5, 8} then (ctx, PROXY_NOT_FOUND)
            else (ctx, PROXY_BAD_ARGUMENT)))"

definition pw_proxy_get_buffer_status :: "proxy_ctx \<Rightarrow> (nat \<Rightarrow> u32) \<Rightarrow> proxy_ctx \<times> proxy_status" where
  "pw_proxy_get_buffer_status ctx args =
     (case buffer_data ctx (args 0) of
        Inl st \<Rightarrow> (ctx, st)
      | Inr data \<Rightarrow>
          (case pw_write_u32 ctx (args 1) (of_nat (buf_len data)) of
             (ctx, False) \<Rightarrow> (ctx, PROXY_BAD_ARGUMENT)
           | (ctx, True) \<Rightarrow> ret0 PROXY_BAD_ARGUMENT (pw_write_u32 ctx (args 2) 0)))"

section \<open>Shared data\<close>

definition pw_proxy_get_shared_data :: "malloc \<Rightarrow> proxy_ctx \<Rightarrow> (nat \<Rightarrow> u32) \<Rightarrow> proxy_ctx \<times> proxy_status" where
  "pw_proxy_get_shared_data al ctx args =
     (if shared_data_p ctx = None then (ctx, PROXY_NOT_FOUND)
      else
        (case pw_read_string ctx (args 0) (args 1) VWASM_SHARED_DATA_MAX_KEY of
           None \<Rightarrow> (ctx, PROXY_BAD_ARGUMENT)
         | Some key \<Rightarrow>
             (case vwasm_shared_data_get al (shared_data_p ctx) (Some key) of
                None \<Rightarrow> (ctx, PROXY_NOT_FOUND)
              | Some (val, value_len, cas) \<Rightarrow>
                  (case pw_return_bytes ctx val value_len (args 2) (args 3) of
                     (ctx, False) \<Rightarrow> (ctx, PROXY_INTERNAL)
                   | (ctx, True) \<Rightarrow> ret0 PROXY_INTERNAL (pw_write_u32 ctx (args 4) cas)))))"

definition pw_proxy_set_shared_data :: "malloc \<Rightarrow> proxy_ctx \<Rightarrow> (nat \<Rightarrow> u32) \<Rightarrow> proxy_ctx \<times> proxy_status" where
  "pw_proxy_set_shared_data al ctx args =
     (if shared_data_p ctx = None then (ctx, PROXY_INTERNAL)
      else
        (let val_ptr = args 2; val_size = args 3; cas = args 4 in
         case pw_read_string ctx (args 0) (args 1) VWASM_SHARED_DATA_MAX_KEY of
           None \<Rightarrow> (ctx, PROXY_BAD_ARGUMENT)
         | Some key \<Rightarrow>
             if val_size > 0 \<and> \<not> pw_validate_region ctx val_ptr val_size then (ctx, PROXY_BAD_ARGUMENT)
             else
               (let value_data = (if val_size > 0 then Some (chunk (unat val_ptr) (unat val_size) (memory ctx))
                                  else None)
                in case vwasm_shared_data_set al (shared_data_p ctx) (Some key) value_data (unat val_size) cas of
                     (sd, r) \<Rightarrow>
                       (ctx\<lparr>shared_data_p := sd\<rparr>,
                        if r = -1 then PROXY_CAS_MISMATCH else if r = -2 then PROXY_INTERNAL else PROXY_OK))))"

section \<open>Shared queues\<close>

definition pw_proxy_register_shared_queue :: "malloc \<Rightarrow> proxy_ctx \<Rightarrow> (nat \<Rightarrow> u32) \<Rightarrow> proxy_ctx \<times> proxy_status" where
  "pw_proxy_register_shared_queue al ctx args =
     (if queue_store_p ctx = None then (ctx, PROXY_INTERNAL)
      else
        (case pw_read_string ctx (args 0) (args 1) VWASM_QUEUE_MAX_NAME of
           None \<Rightarrow> (ctx, PROXY_BAD_ARGUMENT)
         | Some name \<Rightarrow>
             (case vwasm_queue_register al (queue_store_p ctx) (Some name) of
                (qs, queue_id) \<Rightarrow>
                  (let ctx = ctx\<lparr>queue_store_p := qs\<rparr> in
                   if queue_id = 0 then (ctx, PROXY_INTERNAL)
                   else ret0 PROXY_INTERNAL (pw_write_u32 ctx (args 2) queue_id)))))"

definition pw_proxy_resolve_shared_queue :: "proxy_ctx \<Rightarrow> (nat \<Rightarrow> u32) \<Rightarrow> proxy_ctx \<times> proxy_status" where
  "pw_proxy_resolve_shared_queue ctx args =
     (if queue_store_p ctx = None then (ctx, PROXY_NOT_FOUND)
      else
        (case (pw_read_string ctx (args 0) (args 1) 256,
               pw_read_string ctx (args 2) (args 3) VWASM_QUEUE_MAX_NAME) of
           (Some vm, Some name) \<Rightarrow>
             (let queue_id = vwasm_queue_resolve (queue_store_p ctx) (Some vm) (Some name) in
              if queue_id = 0 then (ctx, PROXY_NOT_FOUND)
              else ret0 PROXY_INTERNAL (pw_write_u32 ctx (args 4) queue_id))
         | _ \<Rightarrow> (ctx, PROXY_BAD_ARGUMENT)))"

definition pw_proxy_enqueue_shared_queue :: "malloc \<Rightarrow> proxy_ctx \<Rightarrow> (nat \<Rightarrow> u32) \<Rightarrow> proxy_ctx \<times> proxy_status" where
  "pw_proxy_enqueue_shared_queue al ctx args =
     (if queue_store_p ctx = None then (ctx, PROXY_NOT_FOUND)
      else
        (let queue_id = args 0; data_ptr = args 1; data_size = args 2 in
         if data_size > 0 \<and> \<not> pw_validate_region ctx data_ptr data_size then (ctx, PROXY_BAD_ARGUMENT)
         else
           (let data = (if data_size > 0 then Some (chunk (unat data_ptr) (unat data_size) (memory ctx)) else None)
            in case vwasm_queue_enqueue al (queue_store_p ctx) queue_id data (unat data_size) of
                 (qs, ok) \<Rightarrow> (ctx\<lparr>queue_store_p := qs\<rparr>, if ok then PROXY_OK else PROXY_INTERNAL))))"

definition pw_proxy_dequeue_shared_queue :: "proxy_ctx \<Rightarrow> (nat \<Rightarrow> u32) \<Rightarrow> proxy_ctx \<times> proxy_status" where
  "pw_proxy_dequeue_shared_queue ctx args =
     (if queue_store_p ctx = None then (ctx, PROXY_EMPTY)
      else
        (case vwasm_queue_dequeue (queue_store_p ctx) (args 0) of
           (qs, None) \<Rightarrow> (ctx\<lparr>queue_store_p := qs\<rparr>, PROXY_EMPTY)
         | (qs, Some (data, data_len)) \<Rightarrow>
             ret0 PROXY_INTERNAL
               (pw_return_bytes (ctx\<lparr>queue_store_p := qs\<rparr>) data data_len (args 1) (args 2))))"

section \<open>Status\<close>

definition pw_proxy_get_status :: "proxy_ctx \<Rightarrow> (nat \<Rightarrow> u32) \<Rightarrow> proxy_ctx \<times> proxy_status" where
  "pw_proxy_get_status ctx args =
     (case pw_write_u32 ctx (args 0) (last_status_code ctx) of
        (ctx, False) \<Rightarrow> (ctx, PROXY_INTERNAL)
      | (ctx, True) \<Rightarrow>
          (case last_status_msg ctx of
             Some m \<Rightarrow> ret0 PROXY_INTERNAL (pw_return_string ctx (Some (cstr m)) (length (cstr m)) (args 1) (args 2))
           | None \<Rightarrow>
               (case pw_write_u32 ctx (args 1) 0 of
                  (ctx, False) \<Rightarrow> (ctx, PROXY_INTERNAL)
                | (ctx, True) \<Rightarrow> ret0 PROXY_INTERNAL (pw_write_u32 ctx (args 2) 0))))"

section \<open>Cleanup\<close>

definition vwasm_trailer_map_cleanup :: "trailer_map \<Rightarrow> trailer_map" where
  "vwasm_trailer_map_cleanup tm = tm\<lparr>tm_entries := []\<rparr>"

text \<open>The request and response bodies are freed only when they are on the heap, which two flags of the
  struct say.\<close>

definition vwasm_proxy_ctx_cleanup :: "bool \<Rightarrow> bool \<Rightarrow> proxy_ctx \<Rightarrow> proxy_ctx" where
  "vwasm_proxy_ctx_cleanup request_body_heap response_body_heap ctx =
     (let ctx = ctx\<lparr>http_calls := []\<rparr>;
          ctx = (if request_body ctx \<noteq> None \<and> request_body_heap then ctx\<lparr>request_body := None\<rparr> else ctx);
          ctx = (if response_body ctx \<noteq> None \<and> response_body_heap then ctx\<lparr>response_body := None\<rparr> else ctx);
          ctx = ctx\<lparr>local_response_body := None\<rparr>;
          ctx = ctx\<lparr>local_response_headers := None\<rparr>;
          ctx = (if modified_body ctx \<noteq> None
                 then ctx\<lparr>modified_body := None, body_modified := False\<rparr> else ctx)
      in ctx\<lparr>request_trailers := vwasm_trailer_map_cleanup (request_trailers ctx),
             response_trailers := vwasm_trailer_map_cleanup (response_trailers ctx)\<rparr>)"

section \<open>Lemmas\<close>

lemma unat_clip: "unat (if unat (x :: u32) > n then of_nat n else x) = min (unat x) n"
proof (cases "unat x > n")
  case True
  then have "n < 2 ^ 32" using unsigned_less [of x, where 'a = nat] by simp
  then show ?thesis using True by (simp add: unat_of_nat_u32)
qed simp

text \<open>Replacing bytes is a splice: what is before the start, the value, what is after the replaced part.\<close>

lemma replace_bytes_splice:
  assumes "al_ok" "buf_len base + unat value_len \<le> SIZE_T_MAX" "length value = unat value_len"
  shows "\<exists>b. pw_replace_bytes al_ok base start replace_len (if value = [] then None else Some value) value_len = Some b \<and>
    buf_bytes b = take (unat start) (buf_bytes base) @ value @ drop (unat start + unat replace_len) (buf_bytes base)"
proof -
  let ?b = "buf_bytes base"
  have len: "buf_len base = length ?b" by (simp add: buf_len_def buf_bytes_def split: option.split)
  have cut: "take (min (unat start) (length ?b)) ?b = take (unat start) ?b"
      "drop (min (unat start) (length ?b) + min (unat replace_len) (length ?b - min (unat start) (length ?b))) ?b =
       drop (unat start + unat replace_len) ?b"
    by (auto simp: min_def)
  have v: "take (unat value_len) (buf_bytes (if value = [] then None else Some value)) = value"
    using assms(3) by (simp add: buf_bytes_def)
  define p q where "p = min (unat start) (length ?b)" and "q = p + min (unat replace_len) (length ?b - p)"
  have q: "p \<le> q" "q \<le> length ?b" by (simp_all add: p_def q_def)
  have room: "\<not> (unat value_len > SIZE_T_MAX - p \<or> p + unat value_len > SIZE_T_MAX - (length ?b - q))"
    using q assms(2) len by linarith
  have empty: "take p ?b @ value @ drop q ?b = []" if "p + unat value_len + (length ?b - q) = 0"
  proof -
    have "p = 0" "unat value_len = 0" "length ?b \<le> q" using that by linarith+
    then show ?thesis using assms(3) by simp
  qed
  have "pw_replace_bytes al_ok base start replace_len (if value = [] then None else Some value) value_len =
      Some (if p + unat value_len + (length ?b - q) = 0 then None else Some (take p ?b @ value @ drop q ?b))"
    using assms(1) room unfolding pw_replace_bytes_def Let_def unat_clip len v p_def [symmetric] q_def [symmetric] by simp
  moreover have "take p ?b = take (unat start) ?b" "drop q ?b = drop (unat start + unat replace_len) ?b"
    using cut by (simp_all only: p_def q_def)
  ultimately show ?thesis using empty by (auto simp: buf_bytes_def [of None] buf_bytes_def [of "Some x" for x])
qed

lemma validated_chunk:
  "pw_validate_region ctx p n \<Longrightarrow> length (chunk (unat p) (unat n) (memory ctx)) = unat n"
  by (simp add: validate_region_iff length_chunk)

definition is_body :: "u32 \<Rightarrow> bool" where
  "is_body t \<longleftrightarrow> t = PROXY_BUFFER_HTTP_REQUEST_BODY \<or> t = PROXY_BUFFER_HTTP_RESPONSE_BODY"

lemma buffer_data_body:
  "is_body t \<Longrightarrow> buffer_data ctx t = Inr (if body_modified ctx then modified_body ctx
     else if t = PROXY_BUFFER_HTTP_REQUEST_BODY then request_body ctx else response_body ctx)"
  by (auto simp: buffer_data_def is_body_def proxy_buffer_types)

lemma set_buffer_body:
  assumes "is_body (args 0)" "buffer_data ctx (args 0) = Inr base"
    and "args 4 = 0 \<or> pw_validate_region ctx (args 3) (args 4)"
  shows "pw_proxy_set_buffer_bytes al ctx args =
    (case pw_replace_bytes (al 0) base (args 1) (args 2)
       (let v = chunk (unat (args 3)) (unat (args 4)) (memory ctx) in if v = [] then None else Some v) (args 4) of
       None \<Rightarrow> (ctx, PROXY_INTERNAL)
     | Some nb \<Rightarrow> (ctx\<lparr>modified_body := nb, body_modified := True\<rparr>, PROXY_OK))"
proof (cases "args 4 = 0")
  case True
  then show ?thesis
    using assms(1,2) buffer_data_body [OF assms(1), of ctx]
    by (auto simp: pw_proxy_set_buffer_bytes_def is_body_def proxy_buffer_types chunk_def Let_def)
next
  case False
  then have v: "pw_validate_region ctx (args 3) (args 4)" "0 < unat (args 4)" "args 4 > 0"
    using assms(3) by (auto simp: word_neq_0_conv unat_gt_0)
  then have "chunk (unat (args 3)) (unat (args 4)) (memory ctx) \<noteq> []"
    using validated_chunk [OF v(1)] by (metis length_0_conv less_numeral_extra(3))
  then show ?thesis
    using assms(1,2) v buffer_data_body [OF assms(1), of ctx]
    by (auto simp: pw_proxy_set_buffer_bytes_def is_body_def proxy_buffer_types Let_def)
qed

section \<open>Properties\<close>

text \<open>Writing a body buffer is a splice, and reads see it. For any start and length, inside or beyond
  the body, the new body is what was before the start, the guest's bytes, and what was after the replaced
  part; every later read of the buffer, of its size and every further write works on that.\<close>

theorem body_write_splices:
  assumes "is_body (args 0)" "buffer_data ctx (args 0) = Inr base" "al 0"
    and "args 4 = 0 \<or> pw_validate_region ctx (args 3) (args 4)"
    and "buf_len base + unat (args 4) \<le> SIZE_T_MAX"
  shows "\<exists>ctx' nb. pw_proxy_set_buffer_bytes al ctx args = (ctx', PROXY_OK) \<and>
    buffer_data ctx' (args 0) = Inr nb \<and>
    buf_bytes nb = take (unat (args 1)) (buf_bytes base) @ chunk (unat (args 3)) (unat (args 4)) (memory ctx) @
                   drop (unat (args 1) + unat (args 2)) (buf_bytes base)"
proof -
  let ?v = "chunk (unat (args 3)) (unat (args 4)) (memory ctx)"
  have "length ?v = unat (args 4)" using assms(4) validated_chunk by (auto simp: chunk_def)
  from replace_bytes_splice [OF assms(3,5) this, of "args 1" "args 2"] obtain nb
    where nb: "pw_replace_bytes (al 0) base (args 1) (args 2) (if ?v = [] then None else Some ?v) (args 4) = Some nb"
      "buf_bytes nb = take (unat (args 1)) (buf_bytes base) @ ?v @ drop (unat (args 1) + unat (args 2)) (buf_bytes base)"
    by blast
  then show ?thesis
    using set_buffer_body [OF assms(1,2,4)] buffer_data_body [OF assms(1)] by (auto simp: Let_def)
qed

theorem body_write_splices_witness:
  "\<exists>ctx' nb. pw_proxy_set_buffer_bytes mem_ok
       ((pctx_zero ''XYZ'' (\<lambda>n m. (None, m)))\<lparr>memory_valid := True, wasm_ctx := True, request_body := Some ''hello''\<rparr>)
       ((\<lambda>_. 0)(1 := 1, 2 := 3, 4 := 2)) = (ctx', PROXY_OK) \<and>
     buffer_data ctx' 0 = Inr nb \<and> buf_bytes nb = ''hXYo''"
proof -
  let ?c = "(pctx_zero ''XYZ'' (\<lambda>n m. (None, m)))\<lparr>memory_valid := True, wasm_ctx := True, request_body := Some ''hello''\<rparr>"
  let ?a = "(\<lambda>_. 0)(1 := 1, 2 := 3, 4 := 2) :: nat \<Rightarrow> u32"
  have "is_body 0" by (simp add: is_body_def proxy_buffer_types)
  moreover have "buffer_data ?c 0 = Inr (Some ''hello'')"
    by (simp add: buffer_data_def proxy_buffer_types pctx_zero_def)
  moreover have "pw_validate_region ?c 0 2" by (simp add: validate_region_iff pctx_zero_def)
  ultimately have "\<exists>ctx' nb. pw_proxy_set_buffer_bytes mem_ok ?c ?a = (ctx', PROXY_OK) \<and>
      buffer_data ctx' 0 = Inr nb \<and>
      buf_bytes nb = take 1 ''hello'' @ chunk 0 2 (memory ?c) @ drop 4 ''hello''"
    using body_write_splices [of ?a ?c "Some ''hello''" mem_ok] by (simp add: buf_len_def buf_bytes_def SIZE_T_MAX_def)
  then show ?thesis by (simp add: chunk_def pctx_zero_def)
qed

text \<open>A message crosses from one guest to another intact. What the first guest enqueues from its memory
  on an empty queue is what the second, with a memory and an allocator of its own, finds at the pointer and
  length its dequeue returns, as long as its allocator gives it room; and the queue is empty again.\<close>

theorem queue_crosses_guests:
  assumes "queue_store_p a = Some qs" "qs_inv qs" "qs_abs qs (args 0) = Some []"
    and "args 2 \<noteq> 0" "pw_validate_region a (args 1) (args 2)" "unat (args 2) \<le> VWASM_QUEUE_MAX_MSG"
    and "data = chunk (unat (args 1)) (unat (args 2)) (memory a)"
    and "memory_valid b" "wasm_ctx b" "allocator_valid b"
    and "allocator b (of_nat (length data)) (memory b) = (Some p, m)"
    and "unat p + length data \<le> length m" "unat (brgs 1) + 4 \<le> length m" "unat (brgs 2) + 4 \<le> length m"
    and "apart (unat p) (length data) (unat (brgs 1)) 4" "apart (unat p) (length data) (unat (brgs 2)) 4"
    and "apart (unat (brgs 1)) 4 (unat (brgs 2)) 4" "brgs 0 = args 0"
  shows "\<exists>a' b' qs'. pw_proxy_enqueue_shared_queue mem_ok a args = (a', PROXY_OK) \<and>
    pw_proxy_dequeue_shared_queue (b\<lparr>queue_store_p := queue_store_p a'\<rparr>) brgs = (b', PROXY_OK) \<and>
    get32 (chunk (unat (brgs 1)) 4 (memory b')) = p \<and>
    get32 (chunk (unat (brgs 2)) 4 (memory b')) = of_nat (length data) \<and>
    pw_read_string b' p (of_nat (length data)) (length data + 1) = Some data \<and>
    queue_store_p b' = Some qs' \<and> qs_abs qs' = qs_abs qs"
proof -
  have len: "length data = unat (args 2)" using assms(5,7) by (simp add: validated_chunk)
  have ne: "data \<noteq> []" using len assms(4) by (auto simp: unat_eq_0)
  have ok: "qs_payload_ok data" using assms(6) len by (simp add: qs_payload_ok_def)
  obtain q1 where q1: "vwasm_queue_enqueue mem_ok (Some qs) (args 0) (Some data) (length data) = (Some q1, True)"
      "qs_inv q1" "qs_abs q1 = (qs_abs qs)(args 0 \<mapsto> [data])"
    using enqueue_abs [OF assms(2) ok assms(3)] by (auto simp: queue_limits)
  obtain q2 where q2: "vwasm_queue_dequeue (Some q1) (args 0) = (Some q2, Some (Some data, length data))"
      "qs_abs q2 = (qs_abs q1)(args 0 \<mapsto> [])"
    using dequeue_abs [OF q1(2), of "args 0" data "[]"] q1(3) ne by auto
  let ?b = "b\<lparr>queue_store_p := Some q2\<rparr>"
  have small: "length data < 2 ^ 32" using assms(6) len by (simp add: queue_limits)
  have "allocator ?b (of_nat (length data)) (memory ?b) = (Some p, m)" using assms(11) by simp
  from return_bytes_delivers [OF ne small _ _ _ this assms(12,13,14,15,16,17)] assms(8,9,10)
  obtain b' where b': "pw_return_bytes ?b (Some data) (length data) (brgs 1) (brgs 2) = (b', True)"
      "get32 (chunk (unat (brgs 1)) 4 (memory b')) = p"
      "get32 (chunk (unat (brgs 2)) 4 (memory b')) = of_nat (length data)"
      "pw_read_string b' p (of_nat (length data)) (length data + 1) = Some data"
    by auto
  have "queue_store_p b' = Some q2" using return_mem_only [OF b'(1)] by (auto elim: mem_onlyE)
  moreover have "pw_proxy_enqueue_shared_queue mem_ok a args = (a\<lparr>queue_store_p := Some q1\<rparr>, PROXY_OK)"
    using q1(1) assms(1,4,5,7) len by (simp add: pw_proxy_enqueue_shared_queue_def Let_def word_neq_0_conv)
  moreover have "pw_proxy_dequeue_shared_queue (b\<lparr>queue_store_p := Some q1\<rparr>) brgs = (b', PROXY_OK)"
    using q2(1) b'(1) assms(18) by (simp add: pw_proxy_dequeue_shared_queue_def)
  ultimately show ?thesis using b'(2,3,4) q1(3) q2(2) assms(3) by (auto simp: fun_upd_idem)
qed

definition queue_guest :: "bytes \<Rightarrow> proxy_ctx" where
  "queue_guest mem = (pctx_zero mem (\<lambda>n m. (Some 8, m)))\<lparr>memory_valid := True, wasm_ctx := True,
     allocator_valid := True, queue_store_p := Some qs_one\<rparr>"

theorem queue_crosses_guests_witness:
  "\<exists>a' b'. pw_proxy_enqueue_shared_queue mem_ok (queue_guest ''GET'') ((\<lambda>_. 0)(0 := 1, 2 := 3)) = (a', PROXY_OK) \<and>
     pw_proxy_dequeue_shared_queue ((queue_guest (replicate 16 NUL))\<lparr>queue_store_p := queue_store_p a'\<rparr>)
       ((\<lambda>_. 0)(0 := 1, 2 := 4)) = (b', PROXY_OK) \<and>
     pw_read_string b' 8 3 (length ''GET'' + 1) = Some ''GET''"
proof -
  have "pw_validate_region (queue_guest ''GET'') 0 3"
    by (simp add: validate_region_iff queue_guest_def pctx_zero_def)
  then show ?thesis
    using queue_crosses_guests [of "queue_guest ''GET''" qs_one "(\<lambda>_. 0)(0 := 1, 2 := 3)" "''GET''"
        "queue_guest (replicate 16 NUL)" 8 "replicate 16 NUL" "(\<lambda>_. 0)(0 := 1, 2 := 4)"] qs_one_facts
    by (auto simp: queue_guest_def pctx_zero_def apart_def chunk_def queue_limits)
qed

text \<open>A message is lost when it cannot be delivered. The queue is popped before the guest's memory is
  asked for: if the guest has no allocator, or its allocator fails, the call reports an internal error and
  the message, which the next dequeue should have returned, is gone.\<close>

theorem failed_dequeue_loses_message:
  assumes "queue_store_p ctx = Some qs" "qs_inv qs" "qs_abs qs (args 0) = Some (x # xs)" "x \<noteq> []"
    and "\<not> allocator_valid ctx \<or> fst (allocator ctx (of_nat (length x)) (memory ctx)) = None"
  shows "\<exists>ctx' qs'. pw_proxy_dequeue_shared_queue ctx args = (ctx', PROXY_INTERNAL) \<and>
    queue_store_p ctx' = Some qs' \<and> qs_abs qs' = (qs_abs qs)(args 0 \<mapsto> xs)"
proof -
  obtain q where q: "vwasm_queue_dequeue (Some qs) (args 0) = (Some q, Some (Some x, length x))"
      "qs_abs q = (qs_abs qs)(args 0 \<mapsto> xs)"
    using dequeue_abs [OF assms(2,3)] assms(4) by auto
  have "snd (pw_alloc_wasm (ctx\<lparr>queue_store_p := Some q\<rparr>) (of_nat (length x))) = None"
    using assms(5) by (auto simp: pw_alloc_wasm_def split: prod.split)
  then obtain c where c: "pw_alloc_wasm (ctx\<lparr>queue_store_p := Some q\<rparr>) (of_nat (length x)) = (c, None)"
    by (metis prod.collapse)
  have "queue_store_p c = Some q" using alloc_mem_only [OF c] by (auto elim: mem_onlyE)
  then show ?thesis
    using q c assms(1,4) by (simp add: pw_proxy_dequeue_shared_queue_def pw_return_bytes_def)
qed

theorem failed_dequeue_loses_message_witness:
  "\<exists>q ctx'. qs_abs q 1 = Some [''job''] \<and>
     pw_proxy_dequeue_shared_queue ((queue_guest [])\<lparr>allocator_valid := False, queue_store_p := Some q\<rparr>) (\<lambda>_. 1)
       = (ctx', PROXY_INTERNAL) \<and>
     qs_abs (the (queue_store_p ctx')) 1 = Some []"
proof -
  obtain q where q: "qs_inv q" "qs_abs q = (qs_abs qs_one)(1 \<mapsto> [''job''])"
    using enqueue_abs [OF qs_one_facts(1), of "''job''" 1 "[]"] qs_one_facts(2)
    by (auto simp: qs_payload_ok_def queue_limits)
  show ?thesis
    using failed_dequeue_loses_message [of "(queue_guest [])\<lparr>allocator_valid := False, queue_store_p := Some q\<rparr>" q "\<lambda>_. 1" "''job''" "[]"] q
    by (intro exI [of _ q]) auto
qed

end
