(* ===== verification/Proxy_Properties.thy ===== *)
theory Proxy_Properties
  imports Header_Map
begin

text \<open>
  The properties of a request that a guest reads and writes by path: \<^verbatim>\<open>src/proxy_wasm_properties.c\<close>. A
  path is a byte string with a NUL between its parts. What the functions ask Varnish for besides the
  messages (addresses, ports, the server's identity) is the parameter \<open>vrt_info\<close>; the operations on headers
  are the parameter \<open>varnish\<close>, as in \<open>Header_Map\<close>.
\<close>

record vrt_info =
  vi_client_ip :: "bytes option"
  vi_client_port :: "nat option"
  vi_server_ip :: "bytes option"
  vi_local_port :: "nat option"
  vi_identity :: "bytes option"

definition HOST_HDR :: bytes where
  "HOST_HDR = CHR 0x05 # ''Host:''"

definition PATH_PATH :: bytes where "PATH_PATH = ''request'' @ NUL # ''path''"
definition PATH_URL_PATH :: bytes where "PATH_URL_PATH = ''request'' @ NUL # ''url_path''"
definition PATH_METHOD :: bytes where "PATH_METHOD = ''request'' @ NUL # ''method''"
definition PATH_HOST :: bytes where "PATH_HOST = ''request'' @ NUL # ''host''"

lemmas path_defs = PATH_PATH_def PATH_URL_PATH_def PATH_METHOD_def PATH_HOST_def

section \<open>Reading\<close>

definition request_property :: "varnish \<Rightarrow> http \<Rightarrow> bytes \<Rightarrow> bytes option" where
  "request_property vn hp path =
     (if path = PATH_PATH then hd_url hp
      else if path = PATH_URL_PATH then hd_url hp
      else if path = PATH_METHOD then hd_method hp
      else if path = ''request'' @ NUL # ''protocol'' then hd_proto hp
      else if path = PATH_HOST then v_GetHdr vn hp HOST_HDR
      else if path = ''request'' @ NUL # ''scheme'' then Some ''http''
      else None)"

definition response_property :: "vrt_ctx \<Rightarrow> bytes \<Rightarrow> bytes option" where
  "response_property vctx path =
     (let resp = (if http_resp vctx \<noteq> None then http_resp vctx else http_beresp vctx) in
      case resp of
        None \<Rightarrow> None
      | Some r \<Rightarrow> if path = ''response'' @ NUL # ''code'' then Some (dec (http_status r)) else None)"

definition connection_property :: "vrt_info \<Rightarrow> proxy_ctx \<Rightarrow> bytes \<Rightarrow> bytes option" where
  "connection_property vi ctx path =
     (if path = ''plugin_root_id'' then Some (dec (unat (root_context_id ctx)))
      else if path = ''source'' @ NUL # ''address'' then vi_client_ip vi
      else if path = ''source'' @ NUL # ''port'' then map_option dec (vi_client_port vi)
      else if path = ''destination'' @ NUL # ''address'' then vi_server_ip vi
      else if path = ''destination'' @ NUL # ''port'' then map_option dec (vi_local_port vi)
      else if path = ''node'' @ NUL # ''id'' then vi_identity vi
      else if path = ''connection'' @ NUL # ''id'' then Some (dec (unat (root_context_id ctx)))
      else None)"

text \<open>The groups are tried in this order, each only while nothing was found.\<close>

definition property_value :: "varnish \<Rightarrow> vrt_info \<Rightarrow> proxy_ctx \<Rightarrow> vrt_ctx \<Rightarrow> bytes \<Rightarrow> bytes option" where
  "property_value vn vi ctx vctx path =
     (let val = (case http_req vctx of None \<Rightarrow> None | Some hp \<Rightarrow> request_property vn hp path);
          val = (if val = None then response_property vctx path else val)
      in if val = None then connection_property vi ctx path else val)"

definition pw_proxy_get_property ::
  "varnish \<Rightarrow> vrt_info \<Rightarrow> proxy_ctx \<Rightarrow> (nat \<Rightarrow> u32) \<Rightarrow> proxy_ctx \<times> proxy_status" where
  "pw_proxy_get_property vn vi ctx args =
     (case vrt ctx of
        None \<Rightarrow> (ctx, PROXY_INTERNAL)
      | Some vctx \<Rightarrow>
          (case pw_read_string ctx (args 0) (args 1) 512 of
             None \<Rightarrow> (ctx, PROXY_BAD_ARGUMENT)
           | Some path \<Rightarrow>
               (case property_value vn vi ctx vctx path of
                  None \<Rightarrow> (ctx, PROXY_NOT_FOUND)
                | Some val \<Rightarrow>
                    ret PROXY_INTERNAL
                      (pw_return_string ctx (Some (cstr val)) (length (cstr val)) (args 2) (args 3)))))"

section \<open>Writing\<close>

definition pw_proxy_set_property ::
  "varnish \<Rightarrow> proxy_ctx \<Rightarrow> (nat \<Rightarrow> u32) \<Rightarrow> proxy_ctx \<times> proxy_status" where
  "pw_proxy_set_property vn ctx args =
     (case vrt ctx of
        None \<Rightarrow> (ctx, PROXY_INTERNAL)
      | Some vctx \<Rightarrow>
          (case (pw_read_string ctx (args 0) (args 1) 512, pw_read_string ctx (args 2) (args 3) 4096) of
             (Some path, Some val) \<Rightarrow>
               (case http_req vctx of
                  None \<Rightarrow> (ctx, PROXY_NOT_FOUND)
                | Some hp \<Rightarrow>
                    if path = PATH_PATH \<or> path = PATH_URL_PATH then
                      (if val = [] \<or> hd val \<noteq> CHR ''/'' then (ctx, PROXY_BAD_ARGUMENT)
                       else if \<not> v_ws vn 0 then (ctx, PROXY_INTERNAL)
                       else (http_update Req_Http (\<lambda>hp. v_SetH vn hp HTTP_HDR_URL (cstr val)) ctx, PROXY_OK))
                    else if path = PATH_METHOD then
                      (if val = [] \<or> length val > 16 then (ctx, PROXY_BAD_ARGUMENT)
                       else if \<not> v_ws vn 0 then (ctx, PROXY_INTERNAL)
                       else (http_update Req_Http (\<lambda>hp. v_SetH vn hp HTTP_HDR_METHOD (cstr val)) ctx, PROXY_OK))
                    else if path = PATH_HOST then
                      (if val = [] \<or> length val > 4096 then (ctx, PROXY_BAD_ARGUMENT)
                       else
                         (let hdr_line = ''Host: '' @ cstr val;
                              ctx = http_update Req_Http (\<lambda>hp. v_Unset vn hp HOST_HDR) ctx
                          in if \<not> v_ws vn 0 then (ctx, PROXY_INTERNAL)
                             else (http_update Req_Http (\<lambda>hp. v_SetHeader vn hp hdr_line) ctx, PROXY_OK)))
                    else (ctx, PROXY_NOT_FOUND))
           | _ \<Rightarrow> (ctx, PROXY_BAD_ARGUMENT)))"

section \<open>What the functions rely on\<close>

text \<open>The documented behaviour of Varnish's operations: \<open>http_SetH\<close> sets its slot and nothing else;
  \<open>http_Unset\<close> and \<open>http_SetHeader\<close> leave the first slots alone; a header that was removed and then appended
  is found, with the blanks before its value skipped.\<close>

definition property_laws :: "varnish \<Rightarrow> bool" where
  "property_laws vn \<longleftrightarrow>
     (\<forall>hp v. v_SetH vn hp HTTP_HDR_URL v = hp\<lparr>hd_url := Some v\<rparr> \<and>
             v_SetH vn hp HTTP_HDR_METHOD v = hp\<lparr>hd_method := Some v\<rparr>) \<and>
     (\<forall>hp h. \<exists>ls. v_Unset vn hp h = hp\<lparr>hd_lines := ls\<rparr>) \<and>
     (\<forall>hp l. \<exists>ls. v_SetHeader vn hp l = hp\<lparr>hd_lines := ls\<rparr>) \<and>
     (\<forall>hp f. v_GetHdr vn (hp\<lparr>hd_url := f\<rparr>) HOST_HDR = v_GetHdr vn hp HOST_HDR \<and>
             v_GetHdr vn (hp\<lparr>hd_method := f\<rparr>) HOST_HDR = v_GetHdr vn hp HOST_HDR) \<and>
     (\<forall>hp v. v_GetHdr vn (v_SetHeader vn (v_Unset vn hp HOST_HDR) (''Host: '' @ v)) HOST_HDR = Some (skip_blanks v))"

section \<open>Lemmas\<close>

definition writable :: "bytes set" where
  "writable = {PATH_PATH, PATH_URL_PATH, PATH_METHOD, PATH_HOST}"

text \<open>The two names of the URL are one property.\<close>

definition same_property :: "bytes \<Rightarrow> bytes \<Rightarrow> bool" where
  "same_property p q \<longleftrightarrow> p = q \<or> {p, q} = {PATH_PATH, PATH_URL_PATH}"

lemma writable_only_request:
  assumes "q \<in> writable"
  shows "response_property vctx q = None" "connection_property vi ctx q = None"
proof -
  have "q \<noteq> ''response'' @ NUL # ''code''" "q \<noteq> ''plugin_root_id''" "q \<noteq> ''source'' @ NUL # ''address''"
    "q \<noteq> ''source'' @ NUL # ''port''" "q \<noteq> ''destination'' @ NUL # ''address''"
    "q \<noteq> ''destination'' @ NUL # ''port''" "q \<noteq> ''node'' @ NUL # ''id''" "q \<noteq> ''connection'' @ NUL # ''id''"
    using assms unfolding writable_def by (elim insertE emptyE; simp add: path_defs)+
  then show "response_property vctx q = None" "connection_property vi ctx q = None"
    by (simp_all only: response_property_def connection_property_def Let_def if_False)
      (simp split: option.split)
qed

lemma writable_value:
  "q \<in> writable \<Longrightarrow> http_req vctx = Some hp \<Longrightarrow> property_value vn vi ctx vctx q = request_property vn hp q"
  by (simp add: property_value_def writable_only_request Let_def)

lemma paths_distinct [simp]:
  "PATH_METHOD \<noteq> PATH_PATH" "PATH_METHOD \<noteq> PATH_URL_PATH" "PATH_HOST \<noteq> PATH_PATH" "PATH_HOST \<noteq> PATH_URL_PATH"
  "PATH_HOST \<noteq> PATH_METHOD" "PATH_URL_PATH \<noteq> PATH_PATH"
  "PATH_PATH \<noteq> PATH_METHOD" "PATH_URL_PATH \<noteq> PATH_METHOD" "PATH_PATH \<noteq> PATH_HOST" "PATH_URL_PATH \<noteq> PATH_HOST"
  "PATH_METHOD \<noteq> PATH_HOST" "PATH_PATH \<noteq> PATH_URL_PATH"
  by (simp_all add: path_defs)

text \<open>The request after a successful write.\<close>

definition written :: "varnish \<Rightarrow> bytes \<Rightarrow> bytes \<Rightarrow> http \<Rightarrow> http" where
  "written vn path val hp =
     (if path = PATH_METHOD then v_SetH vn hp HTTP_HDR_METHOD (cstr val)
      else if path = PATH_HOST then v_SetHeader vn (v_Unset vn hp HOST_HDR) (''Host: '' @ cstr val)
      else v_SetH vn hp HTTP_HDR_URL (cstr val))"

lemma set_property_request:
  assumes "vrt ctx = Some vctx" "http_req vctx = Some hp"
    and "pw_read_string ctx (args 0) (args 1) 512 = Some path" "pw_read_string ctx (args 2) (args 3) 4096 = Some val"
    and "pw_proxy_set_property vn ctx args = (ctx', PROXY_OK)"
  shows "path \<in> writable \<and> vrt ctx' = Some (vctx\<lparr>http_req := Some (written vn path val hp)\<rparr>)"
proof -
  have set: "vrt (http_update Req_Http f ctx) = Some (vctx\<lparr>http_req := Some (f hp)\<rparr>)" for f
    using assms(1,2) by (simp add: http_update_def)
  have set2: "vrt (http_update Req_Http g (http_update Req_Http f ctx)) = Some (vctx\<lparr>http_req := Some (g (f hp))\<rparr>)" for f g
    using assms(1,2) by (simp add: http_update_def)
  consider "path = PATH_PATH \<or> path = PATH_URL_PATH" | "path = PATH_METHOD" | "path = PATH_HOST" | "path \<notin> writable"
    unfolding writable_def by blast
  then show ?thesis
  proof cases
    case 1
    then show ?thesis using assms set
      by (elim disjE) (clarsimp simp: pw_proxy_set_property_def writable_def written_def split: if_splits)+
  next
    case 2
    then show ?thesis using assms set
      by (clarsimp simp: pw_proxy_set_property_def writable_def written_def split: if_splits)
  next
    case 3
    then show ?thesis using assms set2
      by (clarsimp simp: pw_proxy_set_property_def writable_def written_def Let_def split: if_splits)
  next
    case 4
    then show ?thesis using assms by (simp add: pw_proxy_set_property_def writable_def)
  qed
qed

lemma set_property_ok_cases:
  assumes "pw_proxy_set_property vn ctx args = (ctx', PROXY_OK)"
  obtains path val vctx hp where "vrt ctx = Some vctx" "http_req vctx = Some hp"
    "pw_read_string ctx (args 0) (args 1) 512 = Some path" "pw_read_string ctx (args 2) (args 3) 4096 = Some val"
    "path \<in> writable" "vrt ctx' = Some (vctx\<lparr>http_req := Some (written vn path val hp)\<rparr>)"
proof -
  obtain vctx where v: "vrt ctx = Some vctx"
    using assms by (cases "vrt ctx") (simp_all add: pw_proxy_set_property_def)
  obtain path where p: "pw_read_string ctx (args 0) (args 1) 512 = Some path"
    using assms v by (cases "pw_read_string ctx (args 0) (args 1) 512") (simp_all add: pw_proxy_set_property_def)
  obtain val where w: "pw_read_string ctx (args 2) (args 3) 4096 = Some val"
    using assms v p by (cases "pw_read_string ctx (args 2) (args 3) 4096") (simp_all add: pw_proxy_set_property_def)
  obtain hp where h: "http_req vctx = Some hp"
    using assms v p w by (cases "http_req vctx") (simp_all add: pw_proxy_set_property_def)
  show ?thesis using that [OF v h p w] set_property_request [OF v h p w assms] by blast
qed

lemma written_value:
  assumes "property_laws vn" "path \<in> writable" "q \<in> writable"
  shows "request_property vn (written vn path val hp) q =
    (if same_property path q then Some (if path = PATH_HOST then skip_blanks (cstr val) else cstr val)
     else request_property vn hp q)"
proof -
  have set: "v_SetH vn hp HTTP_HDR_URL (cstr val) = hp\<lparr>hd_url := Some (cstr val)\<rparr>"
      "v_SetH vn hp HTTP_HDR_METHOD (cstr val) = hp\<lparr>hd_method := Some (cstr val)\<rparr>"
    and host: "v_GetHdr vn (hp\<lparr>hd_url := Some (cstr val)\<rparr>) HOST_HDR = v_GetHdr vn hp HOST_HDR"
      "v_GetHdr vn (hp\<lparr>hd_method := Some (cstr val)\<rparr>) HOST_HDR = v_GetHdr vn hp HOST_HDR"
      "v_GetHdr vn (v_SetHeader vn (v_Unset vn hp HOST_HDR) (''Host: '' @ cstr val)) HOST_HDR = Some (skip_blanks (cstr val))"
    using assms(1) unfolding property_laws_def by blast+
  obtain ls ls' where "v_Unset vn hp HOST_HDR = hp\<lparr>hd_lines := ls\<rparr>"
      "v_SetHeader vn (hp\<lparr>hd_lines := ls\<rparr>) (''Host: '' @ cstr val) = hp\<lparr>hd_lines := ls\<rparr>\<lparr>hd_lines := ls'\<rparr>"
    using assms(1) unfolding property_laws_def by metis
  then have slots: "hd_url (v_SetHeader vn (v_Unset vn hp HOST_HDR) (''Host: '' @ cstr val)) = hd_url hp"
      "hd_method (v_SetHeader vn (v_Unset vn hp HOST_HDR) (''Host: '' @ cstr val)) = hd_method hp"
    by simp_all
  have "request_property vn h PATH_PATH = hd_url h" "request_property vn h PATH_URL_PATH = hd_url h"
      "request_property vn h PATH_METHOD = hd_method h" "request_property vn h PATH_HOST = v_GetHdr vn h HOST_HDR" for h
    by (simp_all add: request_property_def) (simp_all add: path_defs)
  note val = this
  show ?thesis
    using assms(2,3) unfolding writable_def
    by (elim insertE emptyE) (simp_all add: written_def same_property_def val set host [simplified] slots [simplified]
        doubleton_eq_iff)
qed

section \<open>Properties\<close>

text \<open>A property a guest sets is the property it reads. After a successful write of the path, the URL,
  the method or the host, reading it back gives the value up to a NUL (the host without the blanks before
  it), the two names of the URL agree, and the other writable properties are as they were.\<close>

theorem property_set_get:
  assumes "property_laws vn" "pw_proxy_set_property vn ctx args = (ctx', PROXY_OK)"
  shows "\<exists>path val vctx vctx'. pw_read_string ctx (args 0) (args 1) 512 = Some path \<and>
    pw_read_string ctx (args 2) (args 3) 4096 = Some val \<and> vrt ctx = Some vctx \<and> vrt ctx' = Some vctx' \<and>
    (\<forall>q \<in> writable. property_value vn vi ctx' vctx' q =
       (if same_property path q then Some (if path = PATH_HOST then skip_blanks (cstr val) else cstr val)
        else property_value vn vi ctx vctx q))"
  using assms(2)
proof (cases rule: set_property_ok_cases)
  case (1 path val vctx hp)
  let ?v = "vctx\<lparr>http_req := Some (written vn path val hp)\<rparr>"
  have "property_value vn vi ctx' ?v q =
      (if same_property path q then Some (if path = PATH_HOST then skip_blanks (cstr val) else cstr val)
       else property_value vn vi ctx vctx q)" if "q \<in> writable" for q
    using written_value [OF assms(1) 1(5) that] writable_value [OF that] 1(2) by simp
  then show ?thesis using 1 by blast
qed

text \<open>A message as a list of lines, searched and changed by name.\<close>

definition line_is :: "bytes \<Rightarrow> bytes option \<Rightarrow> bool" where
  "line_is h l = (case l of None \<Rightarrow> False | Some x \<Rightarrow> take (length h - 1) x = tl h)"

definition line_varnish :: varnish where
  "line_varnish = \<lparr>v_GetHdr = (\<lambda>hp h. case filter (line_is h) (hd_lines hp) of
                                     Some l # _ \<Rightarrow> Some (skip_blanks (drop (length h - 1) l))
                                   | _ \<Rightarrow> None),
     v_Unset = (\<lambda>hp h. hp\<lparr>hd_lines := filter (\<lambda>l. \<not> line_is h l) (hd_lines hp)\<rparr>),
     v_SetHeader = (\<lambda>hp l. hp\<lparr>hd_lines := hd_lines hp @ [Some l]\<rparr>),
     v_SetH = (\<lambda>hp f v. if f = HTTP_HDR_URL then hp\<lparr>hd_url := Some v\<rparr>
                       else if f = HTTP_HDR_METHOD then hp\<lparr>hd_method := Some v\<rparr> else hp), v_ws = mem_ok\<rparr>"

lemma line_varnish_laws: "property_laws line_varnish"
proof -
  have find: "v_GetHdr line_varnish (v_SetHeader line_varnish (v_Unset line_varnish hp HOST_HDR) (''Host: '' @ v)) HOST_HDR =
      Some (skip_blanks v)" for hp v
    by (simp add: line_varnish_def line_is_def HOST_HDR_def skip_blanks_def is_blank_def)
  show ?thesis unfolding property_laws_def
    by (intro conjI allI; (rule find)?) (auto simp: line_varnish_def)
qed

definition property_ctx :: proxy_ctx where
  "property_ctx = (pctx_zero (PATH_HOST @ ''  a.example'') (\<lambda>_ m. (None, m)))
     \<lparr>memory_valid := True, wasm_ctx := True,
      vrt := Some \<lparr>http_req = Some \<lparr>hd_method = Some ''GET'', hd_url = Some ''/'', hd_proto = None, hd_status = None,
                    hd_lines = [Some ''Host: h''], http_status = 0\<rparr>,
                  http_bereq = None, http_resp = None, http_beresp = None\<rparr>\<rparr>"

definition host_args :: "nat \<Rightarrow> u32" where
  "host_args i = [0, 12, 12, 11] ! i"

theorem property_set_get_witness:
  "\<exists>vctx'. vrt (fst (pw_proxy_set_property line_varnish property_ctx host_args)) = Some vctx' \<and>
     property_value line_varnish \<lparr>vi_client_ip = None, vi_client_port = None, vi_server_ip = None, vi_local_port = None,
         vi_identity = None\<rparr> (fst (pw_proxy_set_property line_varnish property_ctx host_args)) vctx' PATH_HOST =
       Some ''a.example''"
proof -
  have read: "pw_read_string property_ctx (host_args 0) (host_args (Suc 0)) 512 = Some PATH_HOST"
    "pw_read_string property_ctx (host_args 2) (host_args 3) 4096 = Some ''  a.example''"
    by code_simp+
  have "snd (pw_proxy_set_property line_varnish property_ctx host_args) = PROXY_OK"
    by code_simp
  then obtain ctx' where ok: "pw_proxy_set_property line_varnish property_ctx host_args = (ctx', PROXY_OK)"
    by (metis prod.collapse)
  have "cstr ''  a.example'' = ''  a.example''" by code_simp
  then show ?thesis using property_set_get [OF line_varnish_laws ok] read
    unfolding ok by (simp add: writable_def same_property_def skip_blanks_def is_blank_def) blast
qed

end
