(* ===== verification/Host_Table.thy ===== *)
theory Host_Table
  imports Proxy_Host Proxy_Properties Metrics Http_Framing
begin

text \<open>
  The import table: \<open>vwasm_proxy_wasm_define_imports\<close> and its two helpers in \<^verbatim>\<open>src/proxy_wasm.c\<close>, which give
  every host function its name and its type, and what a guest can do with the table. A guest is any
  sequence of host calls with any arguments, mixed with any changes of its own memory; the theory shows
  what no such sequence can break. What a host call gets from outside (allocations, Varnish, the network,
  the clock) is the record \<open>host_env\<close>, chosen anew for every call.
\<close>

section \<open>Values, environment and state\<close>

datatype valkind = WASM_I32 | WASM_I64

datatype wval = I32 u32 | I64 u64

text \<open>Reading the \<open>of.i32\<close> or the \<open>of.i64\<close> member of a value.\<close>

definition of_i32 :: "wval \<Rightarrow> u32" where
  "of_i32 v = (case v of I32 x \<Rightarrow> x | I64 x \<Rightarrow> ucast x)"

definition of_i64 :: "wval \<Rightarrow> u64" where
  "of_i64 v = (case v of I32 x \<Rightarrow> ucast x | I64 x \<Rightarrow> x)"

record host_env =
  he_al :: malloc
  he_vn :: varnish
  he_vi :: vrt_info
  he_ne :: net_env
  he_vsl :: bool
  he_time :: "u64 \<times> u64"

text \<open>The context a callback gets through the store's data pointer, the engine the context points to, and
  the records written to the shared log.\<close>

record host_state =
  hs_ctx :: proxy_ctx
  hs_engine :: "vwasm_engine option"
  hs_log :: "(vsl_tag \<times> bytes) list"

type_synonym host_fun = "host_env \<Rightarrow> host_state \<Rightarrow> (nat \<Rightarrow> wval) \<Rightarrow> host_state \<times> proxy_status"

definition on_ctx :: "(host_env \<Rightarrow> proxy_ctx \<Rightarrow> (nat \<Rightarrow> u32) \<Rightarrow> proxy_ctx \<times> proxy_status) \<Rightarrow> host_fun" where
  "on_ctx f env st a = (case f env (hs_ctx st) (\<lambda>i. of_i32 (a i)) of (ctx, r) \<Rightarrow> (st\<lparr>hs_ctx := ctx\<rparr>, r))"

section \<open>Callbacks that reach beyond the context\<close>

definition log_fun :: host_fun where
  "log_fun env st a =
     (case pw_proxy_log (he_vsl env) (hs_ctx st) (\<lambda>i. of_i32 (a i)) of
        (None, r) \<Rightarrow> (st, r)
      | (Some rec, r) \<Rightarrow> (st\<lparr>hs_log := hs_log st @ [rec]\<rparr>, r))"

definition tick_fun :: host_fun where
  "tick_fun env st a =
     (case pw_proxy_set_tick_period (he_al env) (hs_engine st) (hs_ctx st) (\<lambda>i. of_i32 (a i)) of
        (e, ctx, r) \<Rightarrow> (st\<lparr>hs_engine := e, hs_ctx := ctx\<rparr>, r))"

text \<open>The callout uses the pool of the engine; what it leaves there stays there.\<close>

definition http_fun :: host_fun where
  "http_fun env st a =
     (let r = pw_proxy_http_call (he_ne env) (hs_ctx st) (vwasm_engine_get_http_pool (hs_engine st))
                (\<lambda>i. of_i32 (a i))
      in (st\<lparr>hs_ctx := cr_ctx r,
             hs_engine := map_option (\<lambda>e. e\<lparr>eng_http_pool := cr_pool r\<rparr>) (hs_engine st)\<rparr>, cr_status r))"

section \<open>The table\<close>

abbreviation i32s :: "nat \<Rightarrow> valkind list" where
  "i32s n \<equiv> replicate n WASM_I32"

definition proxy_imports :: "(bytes \<times> valkind list \<times> host_fun) list" where
  "proxy_imports =
    [(''proxy_log'', i32s 3, log_fun),
     (''proxy_get_log_level'', i32s 1, on_ctx (\<lambda>_. pw_proxy_get_log_level)),
     (''proxy_get_header_map_value'', i32s 5, on_ctx (\<lambda>env. pw_proxy_get_header_map_value (he_vn env))),
     (''proxy_add_header_map_value'', i32s 5, on_ctx (\<lambda>env. pw_proxy_add_header_map_value (he_al env) (he_vn env))),
     (''proxy_replace_header_map_value'', i32s 5, on_ctx (\<lambda>env. pw_proxy_replace_header_map_value (he_al env) (he_vn env))),
     (''proxy_remove_header_map_value'', i32s 3, on_ctx (\<lambda>env. pw_proxy_remove_header_map_value (he_vn env))),
     (''proxy_get_header_map_pairs'', i32s 3, on_ctx (\<lambda>env. pw_proxy_get_header_map_pairs (he_al env))),
     (''proxy_set_header_map_pairs'', i32s 3, on_ctx (\<lambda>env. pw_proxy_set_header_map_pairs (he_al env) (he_vn env))),
     (''proxy_get_header_map_size'', i32s 2, on_ctx (\<lambda>_. pw_proxy_get_header_map_size)),
     (''proxy_get_property'', i32s 4, on_ctx (\<lambda>env. pw_proxy_get_property (he_vn env) (he_vi env))),
     (''proxy_set_property'', i32s 4, on_ctx (\<lambda>env. pw_proxy_set_property (he_vn env))),
     (''proxy_get_buffer_bytes'', i32s 5, on_ctx (\<lambda>_. pw_proxy_get_buffer_bytes)),
     (''proxy_set_buffer_bytes'', i32s 5, on_ctx (\<lambda>env. pw_proxy_set_buffer_bytes (he_al env))),
     (''proxy_get_buffer_status'', i32s 3, on_ctx (\<lambda>_. pw_proxy_get_buffer_status)),
     (''proxy_send_local_response'', i32s 8, on_ctx (\<lambda>env. pw_proxy_send_local_response (he_al env))),
     (''proxy_get_current_time_nanoseconds'', i32s 1, on_ctx (\<lambda>env. pw_proxy_get_current_time (he_time env))),
     (''proxy_set_tick_period_milliseconds'', i32s 1, tick_fun),
     (''proxy_set_effective_context'', i32s 1, on_ctx (\<lambda>_. pw_proxy_set_effective_context)),
     (''proxy_done'', i32s 0, on_ctx (\<lambda>_. pw_proxy_done)),
     (''proxy_continue_stream'', i32s 1, on_ctx (\<lambda>_. pw_proxy_continue_stream)),
     (''proxy_close_stream'', i32s 1, on_ctx (\<lambda>_. pw_proxy_close_stream)),
     (''proxy_get_shared_data'', i32s 5, on_ctx (\<lambda>env. pw_proxy_get_shared_data (he_al env))),
     (''proxy_set_shared_data'', i32s 5, on_ctx (\<lambda>env. pw_proxy_set_shared_data (he_al env))),
     (''proxy_register_shared_queue'', i32s 3, on_ctx (\<lambda>env. pw_proxy_register_shared_queue (he_al env))),
     (''proxy_resolve_shared_queue'', i32s 5, on_ctx (\<lambda>_. pw_proxy_resolve_shared_queue)),
     (''proxy_enqueue_shared_queue'', i32s 3, on_ctx (\<lambda>env. pw_proxy_enqueue_shared_queue (he_al env))),
     (''proxy_dequeue_shared_queue'', i32s 3, on_ctx (\<lambda>_. pw_proxy_dequeue_shared_queue)),
     (''proxy_get_status'', i32s 3, on_ctx (\<lambda>_. pw_proxy_get_status)),
     (''proxy_define_metric'', i32s 4,
        on_ctx (\<lambda>_ ctx a. pw_proxy_define_metric ctx (sint (a 0)) (a 1) (a 2) (a 3))),
     (''proxy_increment_metric'', [WASM_I32, WASM_I64],
        \<lambda>env st a. on_ctx (\<lambda>_ ctx _. pw_proxy_increment_metric ctx (of_i32 (a 0)) (of_i64 (a 1))) env st a),
     (''proxy_record_metric'', [WASM_I32, WASM_I64],
        \<lambda>env st a. on_ctx (\<lambda>_ ctx _. pw_proxy_record_metric ctx (of_i32 (a 0)) (of_i64 (a 1))) env st a),
     (''proxy_get_metric'', i32s 2, on_ctx (\<lambda>_ ctx a. pw_proxy_get_metric ctx (a 0) (a 1))),
     (''proxy_http_call'', i32s 10, http_fun),
     (''proxy_grpc_call'', i32s 12, on_ctx (\<lambda>_. pw_stub_not_found)),
     (''proxy_grpc_stream'', i32s 9, on_ctx (\<lambda>_. pw_stub_not_found)),
     (''proxy_grpc_send'', i32s 4, on_ctx (\<lambda>_. pw_stub_not_found)),
     (''proxy_grpc_cancel'', i32s 1, on_ctx (\<lambda>_. pw_stub_not_found)),
     (''proxy_grpc_close'', i32s 1, on_ctx (\<lambda>_. pw_stub_not_found)),
     (''proxy_call_foreign_function'', i32s 6, on_ctx (\<lambda>_. pw_stub_not_found))]"

section \<open>Registration\<close>

text \<open>Wasmtime's linker as the list of its definitions: the module, the name, the type (parameters and
  number of 32-bit results) and the callback. Defining a name twice is an error. \<open>ok\<close> is whether the type
  could be allocated.\<close>

type_synonym 'f linker = "(bytes \<times> bytes \<times> valkind list \<times> nat \<times> 'f) list"

definition linker_define ::
  "'f linker \<Rightarrow> bytes \<Rightarrow> bytes \<Rightarrow> valkind list \<Rightarrow> nat \<Rightarrow> 'f \<Rightarrow> 'f linker option" where
  "linker_define l m name ps rs f =
     (if \<exists>d \<in> set l. fst d = m \<and> fst (snd d) = name then None else Some (l @ [(m, name, ps, rs, f)]))"

definition pw_define_func_typed ::
  "bool \<Rightarrow> 'f linker \<Rightarrow> bytes \<Rightarrow> valkind list \<Rightarrow> nat \<Rightarrow> 'f \<Rightarrow> 'f linker \<times> int" where
  "pw_define_func_typed ok l name param_types nresults callback =
     (if \<not> ok then (l, -1)
      else case linker_define l ''env'' name param_types nresults callback of
             None \<Rightarrow> (l, -1)
           | Some l \<Rightarrow> (l, 0))"

definition pw_define_func :: "bool \<Rightarrow> 'f linker \<Rightarrow> bytes \<Rightarrow> nat \<Rightarrow> nat \<Rightarrow> 'f \<Rightarrow> 'f linker \<times> int" where
  "pw_define_func ok l name nparams nresults callback =
     (if \<not> ok then (l, -1)
      else case linker_define l ''env'' name (i32s nparams) nresults callback of
             None \<Rightarrow> (l, -1)
           | Some l \<Rightarrow> (l, 0))"

text \<open>The calls in the order of the file, up to the first that fails. The two entries with a 64-bit
  parameter go through the typed helper.\<close>

primrec define_all :: "(nat \<Rightarrow> bool) \<Rightarrow> nat \<Rightarrow> (bytes \<times> valkind list \<times> 'f) list \<Rightarrow> 'f linker \<Rightarrow> 'f linker \<times> int" where
  "define_all ok k [] l = (l, 0)"
| "define_all ok k (d # ds) l =
     (case d of (name, ps, f) \<Rightarrow>
        (case (if list_all (\<lambda>p. p = WASM_I32) ps then pw_define_func (ok k) l name (length ps) 1 f
               else pw_define_func_typed (ok k) l name ps 1 f) of
           (l, r) \<Rightarrow> if r \<noteq> 0 then (l, -1) else define_all ok (k + 1) ds l))"

definition vwasm_proxy_wasm_define_imports :: "(nat \<Rightarrow> bool) \<Rightarrow> host_fun linker \<Rightarrow> host_fun linker \<times> int" where
  "vwasm_proxy_wasm_define_imports ok l = define_all ok 0 proxy_imports l"

section \<open>What a guest can do\<close>

definition host_call :: "host_env \<Rightarrow> bytes \<Rightarrow> (nat \<Rightarrow> wval) \<Rightarrow> host_state \<Rightarrow> host_state option" where
  "host_call env name a st =
     (case map_of proxy_imports name of None \<Rightarrow> None | Some (_, f) \<Rightarrow> Some (fst (f env st a)))"

text \<open>A guest's memory never shrinks, and Wasmtime's limiter keeps it within \<open>L\<close> bytes, also when the
  guest's allocator grows it. The strings Varnish hands out are shorter than 4 GiB: they live in workspaces.\<close>

definition alloc_limited :: "nat \<Rightarrow> (u32 \<Rightarrow> bytes \<Rightarrow> u32 option \<times> bytes) \<Rightarrow> bool" where
  "alloc_limited L f \<longleftrightarrow> (\<forall>n m. length m \<le> L \<longrightarrow> length (snd (f n m)) \<le> L)"

definition small :: "bytes option \<Rightarrow> bool" where
  "small b \<longleftrightarrow> buf_len b < 2 ^ 32"

definition http_small :: "http \<Rightarrow> bool" where
  "http_small hp \<longleftrightarrow> small (hd_method hp) \<and> small (hd_url hp) \<and> small (hd_proto hp) \<and> http_status hp < 2 ^ 16"

definition varnish_small :: "varnish \<Rightarrow> bool" where
  "varnish_small vn \<longleftrightarrow>
     (\<forall>hp h. small (v_GetHdr vn hp h)) \<and>
     (\<forall>hp. http_small hp \<longrightarrow> (\<forall>h. http_small (v_Unset vn hp h)) \<and> (\<forall>l. http_small (v_SetHeader vn hp l)) \<and>
        (\<forall>f v. small (Some v) \<longrightarrow> http_small (v_SetH vn hp f v)))"

definition vi_small :: "vrt_info \<Rightarrow> bool" where
  "vi_small vi \<longleftrightarrow> small (vi_client_ip vi) \<and> small (vi_server_ip vi) \<and> small (vi_identity vi) \<and>
     (\<forall>p. vi_client_port vi = Some p \<longrightarrow> p < 2 ^ 16) \<and> (\<forall>p. vi_local_port vi = Some p \<longrightarrow> p < 2 ^ 16)"

definition env_ok :: "host_env \<Rightarrow> bool" where
  "env_ok env \<longleftrightarrow> varnish_small (he_vn env) \<and> vi_small (he_vi env)"

text \<open>A step of a guest: a host call, or a change of its memory. The state it leads to satisfies \<open>ok\<close>.\<close>

inductive guest_step :: "nat \<Rightarrow> (host_state \<Rightarrow> bool) \<Rightarrow> host_state \<Rightarrow> host_state \<Rightarrow> bool" for L ok where
  host_step: "env_ok env \<Longrightarrow> host_call env name a st = Some st' \<Longrightarrow> ok st' \<Longrightarrow> guest_step L ok st st'"
| own_step: "length (memory (hs_ctx st)) \<le> length m \<Longrightarrow> length m \<le> L \<Longrightarrow>
    st' = st\<lparr>hs_ctx := hs_ctx st\<lparr>memory := m\<rparr>\<rparr> \<Longrightarrow> ok st' \<Longrightarrow> guest_step L ok st st'"

section \<open>The invariant\<close>

definition mem_inv :: "nat \<Rightarrow> proxy_ctx \<Rightarrow> bool" where
  "mem_inv L ctx \<longleftrightarrow> \<not> mem_fault ctx \<and> length (memory ctx) \<le> L \<and> alloc_limited L (allocator ctx)"

definition stores_inv :: "proxy_ctx \<Rightarrow> bool" where
  "stores_inv ctx \<longleftrightarrow> pred_option sd_wf (shared_data_p ctx) \<and> pred_option qs_reach (queue_store_p ctx) \<and>
     pred_option metrics_ok (metric_store_p ctx)"

definition trailers_ok :: "trailer_map \<Rightarrow> bool" where
  "trailers_ok tm \<longleftrightarrow> length (tm_entries tm) \<le> VWASM_MAX_TRAILERS \<and>
     list_all (\<lambda>e. length (te_value e) < 4096) (tm_entries tm)"

definition response_small :: "http_call_entry \<Rightarrow> bool" where
  "response_small e \<longleftrightarrow> small (hcr_raw (hce_response e)) \<and> small (hcr_body (hce_response e))"

definition calls_inv :: "proxy_ctx \<Rightarrow> bool" where
  "calls_inv ctx \<longleftrightarrow> list_all response_small (http_calls ctx) \<and> pred_option response_small (active_http_call ctx) \<and>
     (http_call_max ctx > 0 \<longrightarrow> http_call_count ctx \<le> http_call_max ctx \<and>
        http_call_next_token ctx \<le> http_call_count ctx \<and> calls_ok ctx)"

definition sizes_inv :: "proxy_ctx \<Rightarrow> bool" where
  "sizes_inv ctx \<longleftrightarrow> small (vm_config ctx) \<and> small (plugin_config ctx) \<and> small (request_body ctx) \<and>
     small (response_body ctx) \<and> small (last_status_msg ctx) \<and>
     pred_option (\<lambda>v. pred_option http_small (http_req v) \<and> pred_option http_small (http_resp v) \<and>
       pred_option http_small (http_beresp v)) (vrt ctx)"

definition ctx_inv :: "nat \<Rightarrow> proxy_ctx \<Rightarrow> bool" where
  "ctx_inv L ctx \<longleftrightarrow> mem_inv L ctx \<and> stores_inv ctx \<and> trailers_ok (request_trailers ctx) \<and>
     trailers_ok (response_trailers ctx) \<and> calls_inv ctx \<and> sizes_inv ctx"

definition host_inv :: "nat \<Rightarrow> host_state \<Rightarrow> bool" where
  "host_inv L st \<longleftrightarrow> ctx_inv L (hs_ctx st) \<and> pred_option timers_ok (hs_engine st)"

lemmas ctx_inv_defs = ctx_inv_def mem_inv_def stores_inv_def calls_inv_def sizes_inv_def calls_ok_def

text \<open>The body under modification is the one buffer whose size nothing bounds.\<close>

definition body_small :: "host_state \<Rightarrow> bool" where
  "body_small st \<longleftrightarrow> small (modified_body (hs_ctx st))"

section \<open>Lemmas: the guest-memory routines\<close>

lemma inv_mem_only:
  assumes "ctx_inv L ctx" "mem_only ctx c" "\<not> mem_fault c" "length (memory c) \<le> L"
  shows "ctx_inv L c"
proof -
  obtain m f where c: "c = ctx\<lparr>memory := m, mem_fault := f\<rparr>" using assms(2) by (rule mem_onlyE)
  show ?thesis using assms(1,3,4) unfolding c by (simp add: ctx_inv_defs)
qed

lemma inv_fields [simp]:
  "ctx_inv L (ctx\<lparr>paused := b\<rparr>) = ctx_inv L ctx" "ctx_inv L (ctx\<lparr>ctx_done := b\<rparr>) = ctx_inv L ctx"
  "ctx_inv L (ctx\<lparr>tick_period_ms := n\<rparr>) = ctx_inv L ctx"
  "ctx_inv L (ctx\<lparr>local_response_set := b\<rparr>) = ctx_inv L ctx"
  "ctx_inv L (ctx\<lparr>local_response_code := i\<rparr>) = ctx_inv L ctx"
  "ctx_inv L (ctx\<lparr>local_response_body := x\<rparr>) = ctx_inv L ctx"
  "ctx_inv L (ctx\<lparr>local_response_headers := x\<rparr>) = ctx_inv L ctx"
  "ctx_inv L (ctx\<lparr>modified_body := x\<rparr>) = ctx_inv L ctx" "ctx_inv L (ctx\<lparr>body_modified := b\<rparr>) = ctx_inv L ctx"
  by (simp_all add: ctx_inv_defs)

lemma inv_no_fault: "ctx_inv L ctx \<Longrightarrow> \<not> mem_fault ctx" "ctx_inv L ctx \<Longrightarrow> length (memory ctx) \<le> L"
  by (simp_all add: ctx_inv_defs)

lemma inv_put:
  assumes "ctx_inv L ctx" "pw_validate_region ctx off n" "length bs = unat n"
  shows "ctx_inv L (mem_store (unat off) bs ctx)"
  by (rule inv_mem_only [OF assms(1)])
    (use assms inv_no_fault [OF assms(1)] in \<open>simp_all add: mem_store_def validate_region_iff length_put\<close>)

lemma inv_write: "pw_write_u32 ctx off v = (c, ok) \<Longrightarrow> ctx_inv L ctx \<Longrightarrow> ctx_inv L c"
  using inv_put [of L ctx off 4 "put32 v"]
  by (auto simp: pw_write_u32_def mem_ptr_valid split: if_splits)

lemma store_length [simp]: "length (memory (mem_store p bs ctx)) = length (memory ctx)"
  by (simp add: mem_store_def length_put)

lemma write_length: "pw_write_u32 ctx off v = (c, ok) \<Longrightarrow> length (memory c) = length (memory ctx)"
  by (auto simp: pw_write_u32_def split: if_splits option.splits)

lemma return_length:
  assumes "pw_return_bytes ctx data len d s = (c, ok)" "pw_alloc_wasm ctx (of_nat len) = (c', r)"
  shows "length (memory c) = length (memory ctx) \<or> length (memory c) = length (memory c')"
  using assms(1)
  by (auto simp: pw_return_bytes_def Let_def assms(2) dest!: write_length
      split: if_splits prod.splits option.splits bool.splits)

lemma inv_return:
  assumes "pw_return_bytes ctx data len d s = (c, ok)" "ctx_inv L ctx" "len < 2 ^ 32"
  shows "ctx_inv L c"
proof (rule inv_mem_only [OF assms(2) return_mem_only [OF assms(1)]])
  show "\<not> mem_fault c" using return_bytes_no_fault [OF assms(3), of ctx data d s] assms(1,2)
    by (simp add: inv_no_fault)
  obtain c' r where al: "pw_alloc_wasm ctx (of_nat len) = (c', r)" by (metis prod.exhaust)
  have "length (snd (allocator ctx n (memory ctx))) \<le> L" for n
    using assms(2) by (simp add: ctx_inv_defs alloc_limited_def)
  from this [of "of_nat len"] have "length (memory c') \<le> L"
    using al inv_no_fault [OF assms(2)] by (auto simp: pw_alloc_wasm_def split: if_splits prod.splits)
  then show "length (memory c) \<le> L"
    using return_length [OF assms(1) al] inv_no_fault [OF assms(2)] by auto
qed

lemma inv_return_string:
  "pw_return_string ctx str len d s = (c, ok) \<Longrightarrow> ctx_inv L ctx \<Longrightarrow> len < 2 ^ 32 \<Longrightarrow> ctx_inv L c"
  unfolding pw_return_string_def by (rule inv_return)

lemma inv_return_fst: "ctx_inv L ctx \<Longrightarrow> len < 2 ^ 32 \<Longrightarrow> ctx_inv L (fst (pw_return_bytes ctx data len d s))"
  by (rule inv_return [of ctx data len d s _ "snd (pw_return_bytes ctx data len d s)"]) simp_all

lemma inv_return_string_fst: "ctx_inv L ctx \<Longrightarrow> len < 2 ^ 32 \<Longrightarrow> ctx_inv L (fst (pw_return_string ctx data len d s))"
  unfolding pw_return_string_def by (rule inv_return_fst)

lemma small_cstr: "small (Some b) \<Longrightarrow> length (cstr b) < 2 ^ 32"
  using length_takeWhile_le by (auto simp: small_def buf_len_def cstr_def intro: le_less_trans)

section \<open>Lemmas: the header maps\<close>

lemma inv_trailer_update: "ctx_inv L ctx \<Longrightarrow> trailers_ok tm \<Longrightarrow> ctx_inv L (trailer_update t tm ctx)"
  by (simp add: trailer_update_def ctx_inv_defs)

lemma inv_get_trailer: "ctx_inv L ctx \<Longrightarrow> pw_get_trailer_map ctx t = Some tm \<Longrightarrow> trailers_ok tm"
  by (auto simp: pw_get_trailer_map_def ctx_inv_defs split: if_splits)

lemma inv_http_update:
  assumes "ctx_inv L ctx" "\<And>hp. http_small hp \<Longrightarrow> http_small (f hp)"
  shows "ctx_inv L (http_update ref f ctx)"
proof (cases "vrt ctx")
  case None
  then show ?thesis using assms(1) by (simp add: http_update_def ctx_inv_defs)
next
  case (Some v)
  have "pred_option http_small (map_option f x)" if "pred_option http_small x" for x
    using that assms(2) by (cases x) simp_all
  then show ?thesis using assms(1) Some by (cases ref) (simp_all add: http_update_def ctx_inv_defs)
qed

lemma trailers_ok_add:
  "trailers_ok tm \<Longrightarrow> length v < 4096 \<Longrightarrow> trailers_ok (fst (pw_trailer_add al tm n v))"
  by (simp add: pw_trailer_add_def trailers_ok_def)

lemma trailers_ok_remove: "trailers_ok tm \<Longrightarrow> trailers_ok (pw_trailer_remove tm n)"
  by (auto simp: pw_trailer_remove_def trailers_ok_def Let_def list_all_length nth_list_update_if split: option.split)

lemma trailers_ok_clear: "trailers_ok (pw_trailer_clear tm)"
  by (simp add: pw_trailer_clear_def trailers_ok_def)

lemma cstr_length: "length (cstr s) \<le> length s"
  by (simp add: cstr_def length_takeWhile_le)

lemma skip_blanks_length: "length (skip_blanks s) \<le> length s"
  by (simp add: skip_blanks_def length_dropWhile_le)

lemma find_callout_length: "find_callout_loop p key = Some v \<Longrightarrow> length v \<le> length p"
proof (induction p key rule: find_callout_loop.induct)
  case (1 p key)
  have drop: "length (skip_blanks (drop a (take b p))) \<le> length p" for a b
    using skip_blanks_length [of "drop a (take b p)"] by simp
  show ?case
  proof (cases "strstr p HDR_EOL")
    case None
    then show ?thesis using 1(2) by (simp add: find_callout_loop.simps [of p] split: if_splits)
  next
    case (Some k)
    show ?thesis
    proof (cases "k \<noteq> 0 \<and> p \<noteq> [] \<and>
        \<not> (k > length key + 1 \<and> strncaseeq (length key) p key \<and> p ! length key = CHR '':'')")
      case True
      then have "find_callout_loop (drop (k + 2) p) key = Some v"
        using 1(2) Some by (simp only: find_callout_loop.simps [of p] option.case if_False)
      from 1(1) [OF _ Some _ _ this] True have "length v \<le> length (drop (k + 2) p)" by blast
      then show ?thesis by simp
    next
      case False
      then show ?thesis using 1(2) Some drop [of "length key + 1" k]
        by (simp only: find_callout_loop.simps [of p] option.case) (auto split: if_splits)
    qed
  qed
qed

lemma callout_status_length: "callout_status raw k = Some v \<Longrightarrow> length v \<le> length raw"
  by (auto simp: callout_status_def Let_def split: option.splits)

lemma find_header_small:
  assumes "ctx_inv L ctx" "pw_http_call_response_find_header ctx key = Some v"
  shows "length v < 2 ^ 32"
proof -
  obtain raw where raw: "callout_raw ctx = Some raw"
    using assms(2) by (auto simp: pw_http_call_response_find_header_def split: option.splits)
  then have "length raw < 2 ^ 32"
    using assms(1) by (auto simp: callout_raw_def ctx_inv_defs response_small_def small_def buf_len_def
        split: option.splits if_splits)
  moreover obtain k where k: "strstr raw HDR_EOL = Some k"
    using assms(2) raw by (auto simp: pw_http_call_response_find_header_def split: option.splits)
  have "length v \<le> length raw"
  proof (cases "cstr key = '':status''")
    case True
    then have "callout_status raw k = Some v"
      using assms(2) raw k by (simp add: pw_http_call_response_find_header_def)
    then show ?thesis by (rule callout_status_length)
  next
    case False
    then have "find_callout_loop (drop (k + 2) raw) (cstr key) = Some v"
      using assms(2) raw k by (simp only: pw_http_call_response_find_header_def option.case if_False)
    then show ?thesis by (auto dest!: find_callout_length)
  qed
  ultimately show ?thesis by simp
qed

lemma trailer_get_small: "trailers_ok tm \<Longrightarrow> pw_trailer_get tm n = Some v \<Longrightarrow> length v < 2 ^ 32"
proof -
  assume *: "trailers_ok tm" "pw_trailer_get tm n = Some v"
  then obtain e where "find (trailer_match n) (tm_entries tm) = Some e" "te_value e = v"
    by (auto simp: pw_trailer_get_def)
  then have "e \<in> set (tm_entries tm)" by (metis find_Some_iff nth_mem)
  then show ?thesis using *(1) \<open>te_value e = v\<close> by (auto simp: trailers_ok_def list_all_iff)
qed

text \<open>Case analysis of a host function's result, one rule per construct of the definitions.\<close>

named_theorems inv_split

lemma inv_option_case [inv_split]:
  "(x = None \<Longrightarrow> ctx_inv L (fst a)) \<Longrightarrow> (\<And>y. x = Some y \<Longrightarrow> ctx_inv L (fst (f y))) \<Longrightarrow>
   ctx_inv L (fst (case x of None \<Rightarrow> a | Some y \<Rightarrow> f y))"
  by (cases x) simp_all

lemma inv_if [inv_split]:
  "(b \<Longrightarrow> ctx_inv L (fst x)) \<Longrightarrow> (\<not> b \<Longrightarrow> ctx_inv L (fst y)) \<Longrightarrow> ctx_inv L (fst (if b then x else y))"
  by simp

lemma inv_pair_case [inv_split]:
  "(\<And>c b. r = (c, b) \<Longrightarrow> ctx_inv L (fst (f c b))) \<Longrightarrow> ctx_inv L (fst (case r of (c, b) \<Rightarrow> f c b))"
  by (cases r) simp

lemma inv_bool_case [inv_split]:
  "(b \<Longrightarrow> ctx_inv L (fst x)) \<Longrightarrow> (\<not> b \<Longrightarrow> ctx_inv L (fst y)) \<Longrightarrow>
   ctx_inv L (fst (case b of True \<Rightarrow> x | False \<Rightarrow> y))"
  by (cases b) simp_all

lemma inv_fst [inv_split]: "ctx_inv L ctx \<Longrightarrow> ctx_inv L (fst (ctx, r))"
  by simp

lemma inv_get_header:
  assumes "ctx_inv L ctx" "varnish_small vn"
  shows "ctx_inv L (fst (pw_proxy_get_header_map_value vn ctx args))"
proof -
  have hdr: "v_GetHdr vn hp h = Some v \<Longrightarrow> length (skip_blanks (cstr v)) < 2 ^ 32" for hp h v
    using assms(2) small_cstr [of v] skip_blanks_length [of "cstr v"] unfolding varnish_small_def
    by (metis le_less_trans)
  show ?thesis unfolding pw_proxy_get_header_map_value_def Let_def
    by (intro inv_split inv_return_string_fst assms(1))
      (blast intro: trailer_get_small inv_get_trailer [OF assms(1)] find_header_small [OF assms(1)] hdr)+
qed

lemma read_length: "pw_read_string ctx p n sz = Some s \<Longrightarrow> 0 < sz \<Longrightarrow> length (cstr s) < sz"
  using read_string_bound cstr_length le_less_trans by blast

lemma inv_add_header:
  assumes "ctx_inv L ctx" "varnish_small vn"
  shows "ctx_inv L (fst (pw_proxy_add_header_map_value al vn ctx args))"
proof -
  have tr: "ctx_inv L (trailer_update t tm' ctx)"
    if "pw_get_trailer_map ctx t = Some tm" "pw_read_string ctx p n 4096 = Some v"
      "pw_trailer_add al tm k (cstr v) = (tm', b)" for t tm p n v k tm' b
    using trailers_ok_add [OF inv_get_trailer [OF assms(1) that(1)], of "cstr v" al k] read_length [OF that(2)] that(3)
    by (intro inv_trailer_update assms(1)) simp
  show ?thesis unfolding pw_proxy_add_header_map_value_def Let_def
    by (intro inv_split inv_http_update assms(1))
      (use tr assms(2) in \<open>auto simp: varnish_small_def\<close>)
qed

lemma inv_replace_header:
  assumes "ctx_inv L ctx" "varnish_small vn"
  shows "ctx_inv L (fst (pw_proxy_replace_header_map_value al vn ctx args))"
proof -
  have tr: "ctx_inv L (trailer_update t (fst (pw_trailer_add al (pw_trailer_remove tm k) k (cstr v))) ctx)"
    if "pw_get_trailer_map ctx t = Some tm" "pw_read_string ctx p n 4096 = Some v" for t tm p n v k
    using read_length [OF that(2)] inv_get_trailer [OF assms(1) that(1)]
    by (intro inv_trailer_update assms(1) trailers_ok_add trailers_ok_remove) simp_all
  have un: "ctx_inv L (if b then http_update ref (\<lambda>hp. v_Unset vn hp h) ctx else ctx)" for b ref h
    using assms by (auto intro!: inv_http_update simp: varnish_small_def)
  show ?thesis unfolding pw_proxy_replace_header_map_value_def Let_def
    by (intro inv_split inv_http_update un) (use tr assms in \<open>auto simp: varnish_small_def\<close>)
qed

lemma inv_remove_header:
  assumes "ctx_inv L ctx" "varnish_small vn"
  shows "ctx_inv L (fst (pw_proxy_remove_header_map_value vn ctx args))"
  unfolding pw_proxy_remove_header_map_value_def Let_def
  by (intro inv_split inv_http_update inv_trailer_update trailers_ok_remove assms(1))
    (use assms in \<open>auto simp: varnish_small_def intro: inv_get_trailer\<close>)

lemma unat_u32_less: "unat (x :: u32) < 2 ^ 32"
  using unsigned_less [of x, where 'a = nat] by simp

lemma inv_get_pairs: "ctx_inv L ctx \<Longrightarrow> ctx_inv L (fst (pw_proxy_get_header_map_pairs al ctx args))"
  unfolding pw_proxy_get_header_map_pairs_def Let_def
  by (intro inv_split inv_return_fst unat_u32_less) simp_all

lemma pair_step_value: "set_pair_step d n i off = Some (off', Some (k, v)) \<Longrightarrow> length v < 4096"
proof -
  assume *: "set_pair_step d n i off = Some (off', Some (k, v))"
  define vs where "vs = get32 (drop (4 + i * 8 + 4) d)"
  have "vs < 4096" "length v \<le> unat vs"
    using * unfolding vs_def set_pair_step_def Let_def by (auto simp: chunk_def split: if_splits)
  then show ?thesis by (simp add: word_less_nat_alt)
qed

lemma trailers_loop_ok: "trailers_ok tm \<Longrightarrow> trailers_ok (set_trailers_loop al n d sz i off tm)"
  by (induction n arbitrary: i off tm)
    (auto simp: trailers_ok_add dest: pair_step_value split: option.split prod.split)

lemma headers_loop_inv:
  assumes "varnish_small vn"
  shows "ctx_inv L ctx \<Longrightarrow> ctx_inv L (fst (set_headers_loop vn ref n d sz i off ctx))"
proof (induction n arbitrary: i off ctx)
  case (Suc n)
  have "ctx_inv L (http_update ref (\<lambda>hp. v_SetHeader vn hp l) ctx)" for l
    using assms Suc.prems by (intro inv_http_update) (simp_all add: varnish_small_def)
  then show ?case using Suc by (auto simp: Let_def split: option.split prod.split)
qed simp

lemma inv_set_pairs:
  assumes "ctx_inv L ctx" "varnish_small vn"
  shows "ctx_inv L (fst (pw_proxy_set_header_map_pairs al vn ctx args))"
  unfolding pw_proxy_set_header_map_pairs_def Let_def
  by (intro inv_split inv_trailer_update trailers_loop_ok trailers_ok_clear headers_loop_inv inv_http_update assms)
    (auto simp: http_small_def)

lemma inv_write_fst: "ctx_inv L ctx \<Longrightarrow> ctx_inv L (fst (pw_write_u32 ctx off v))"
  by (rule inv_write [of ctx off v _ "snd (pw_write_u32 ctx off v)"]) simp_all

lemma inv_get_size: "ctx_inv L ctx \<Longrightarrow> ctx_inv L (fst (pw_proxy_get_header_map_size ctx args))"
  unfolding pw_proxy_get_header_map_size_def Let_def
  by (intro inv_split inv_write_fst) simp_all

section \<open>Lemmas: properties\<close>

lemma dec_small: "n < 10 ^ 9 * 9 \<Longrightarrow> length (dec n) < 2 ^ 32"
  using dec_length [of n 10] by simp

lemma request_property_range:
  "request_property vn hp path \<in>
     {hd_url hp, hd_method hp, hd_proto hp, v_GetHdr vn hp HOST_HDR, Some ''http'', None}"
  by (simp add: request_property_def del: append_Cons append_Nil)

lemma connection_property_range:
  "connection_property vi ctx path \<in>
     {Some (dec (unat (root_context_id ctx))), vi_client_ip vi, map_option dec (vi_client_port vi),
      vi_server_ip vi, map_option dec (vi_local_port vi), vi_identity vi, None}"
  by (simp add: connection_property_def del: append_Cons append_Nil)

lemma response_property_range:
  "response_property vctx path \<in> insert None ((\<lambda>r. Some (dec (http_status r))) `
     (set_option (http_resp vctx) \<union> set_option (http_beresp vctx)))"
  by (cases "http_resp vctx"; cases "http_beresp vctx") (simp_all add: response_property_def)

lemma small_None: "small None"
  by (simp add: small_def buf_len_def)

lemma small_dec: "n < 2 ^ 32 \<Longrightarrow> small (Some (dec n))"
  using dec_small [of n] by (simp add: small_def buf_len_def)

lemma property_small:
  assumes "ctx_inv L ctx" "varnish_small vn" "vi_small vi" "vrt ctx = Some vctx"
  shows "small (property_value vn vi ctx vctx path)"
proof -
  have http: "pred_option http_small (http_req vctx)" "pred_option http_small (http_resp vctx)"
    "pred_option http_small (http_beresp vctx)"
    using assms(1,4) by (simp_all add: ctx_inv_defs)
  have "small (Some ''http'')" by (simp add: small_def buf_len_def)
  then have req: "small (request_property vn hp path)" if "http_small hp" for hp
    using request_property_range [of vn hp path] that assms(2) small_None
    unfolding http_small_def varnish_small_def by fastforce
  have port: "small (map_option dec p)" if "\<forall>n. p = Some n \<longrightarrow> n < 2 ^ 16" for p
    using that small_dec small_None by (cases p) simp_all
  have conn: "small (connection_property vi ctx path)"
    using connection_property_range [of vi ctx path] assms(3) small_None small_dec [OF unat_u32_less] port
    unfolding vi_small_def by fastforce
  have "http_small r" if "r \<in> set_option (http_resp vctx) \<union> set_option (http_beresp vctx)" for r
    using that http(2,3) by (auto simp: option.pred_set)
  then have resp: "small (response_property vctx path)"
    using response_property_range [of vctx path] small_None small_dec unfolding http_small_def by fastforce
  show ?thesis
    using req conn resp http(1) unfolding property_value_def Let_def by (cases "http_req vctx") simp_all
qed

lemma inv_get_property:
  assumes "ctx_inv L ctx" "varnish_small vn" "vi_small vi"
  shows "ctx_inv L (fst (pw_proxy_get_property vn vi ctx args))"
  unfolding pw_proxy_get_property_def
  by (intro inv_split inv_return_string_fst assms(1)) (metis small_cstr property_small assms)

lemma inv_set_property:
  assumes "ctx_inv L ctx" "varnish_small vn"
  shows "ctx_inv L (fst (pw_proxy_set_property vn ctx args))"
proof -
  have sh: "http_small hp \<Longrightarrow> http_small (v_SetH vn hp f (cstr val))"
    if "pw_read_string ctx p n 4096 = Some val" for hp f p n val
    using assms(2) read_length [OF that] by (simp add: varnish_small_def small_def buf_len_def)
  have un: "ctx_inv L (http_update Req_Http (\<lambda>hp. v_Unset vn hp h) ctx)" for h
    using assms by (intro inv_http_update) (auto simp: varnish_small_def)
  show ?thesis unfolding pw_proxy_set_property_def Let_def
    by (intro inv_split inv_http_update un assms(1) sh) (use assms(2) in \<open>auto simp: varnish_small_def\<close>)
qed

section \<open>Lemmas: the other host functions\<close>

lemma buffer_data_small:
  assumes "ctx_inv L ctx" "small (modified_body ctx)" "buffer_data ctx t = Inr d"
  shows "small d"
proof -
  have "active_http_call ctx = Some e \<Longrightarrow> small (hcr_body (hce_response e))" for e
    using assms(1) by (simp add: ctx_inv_defs response_small_def)
  moreover have "small (vm_config ctx)" "small (plugin_config ctx)" "small (request_body ctx)" "small (response_body ctx)"
    using assms(1) by (simp_all add: ctx_inv_defs)
  ultimately show ?thesis using assms(2,3) unfolding buffer_data_def by (auto split: if_splits option.splits)
qed

lemma inv_sum_case [inv_split]:
  "(\<And>e. x = Inl e \<Longrightarrow> ctx_inv L (fst (f e))) \<Longrightarrow> (\<And>y. x = Inr y \<Longrightarrow> ctx_inv L (fst (g y))) \<Longrightarrow>
   ctx_inv L (fst (case x of Inl e \<Rightarrow> f e | Inr y \<Rightarrow> g y))"
  by (cases x) simp_all

lemma window_small:
  "small d \<Longrightarrow> buf_len (case d of None \<Rightarrow> None | Some d \<Rightarrow> if st < length d
     then Some (if P d then take mx (drop st d) else drop st d) else None) < 2 ^ 32"
  by (cases d) (auto simp: small_def buf_len_def)

lemma inv_get_buffer:
  assumes "ctx_inv L ctx" "small (modified_body ctx)"
  shows "ctx_inv L (fst (pw_proxy_get_buffer_bytes ctx args))"
  unfolding pw_proxy_get_buffer_bytes_def Let_def
  by (intro inv_split assms(1)) (erule inv_return [OF _ assms(1) window_small [OF buffer_data_small [OF assms]]])

lemma inv_set_buffer: "ctx_inv L ctx \<Longrightarrow> ctx_inv L (fst (pw_proxy_set_buffer_bytes al ctx args))"
  unfolding pw_proxy_set_buffer_bytes_def Let_def by (intro inv_split) simp_all

lemma inv_buffer_status: "ctx_inv L ctx \<Longrightarrow> ctx_inv L (fst (pw_proxy_get_buffer_status ctx args))"
  unfolding pw_proxy_get_buffer_status_def by (intro inv_split) (auto dest: inv_write)

lemma inv_copy_region:
  assumes "ctx_inv L ctx" "pw_validate_region ctx p n" "unat n \<le> sz" "copy_region al p n sz ctx = (c, b)"
  shows "c = ctx"
  using assms by (auto simp: copy_region_def split: if_splits)

lemma inv_local_response:
  assumes "ctx_inv L ctx" "L < 2 ^ 32 - 1"
  shows "ctx_inv L (fst (pw_proxy_send_local_response al ctx args))"
proof -
  have sz: "unat n \<le> unat (n + 1)" if "pw_validate_region c p n" "ctx_inv L c" for c p n
  proof -
    have "unat n < 2 ^ 32 - 1"
      using that(1) inv_no_fault(2) [OF that(2)] assms(2) by (simp add: validate_region_iff)
    then show ?thesis by (simp add: unat_word_ariths)
  qed
  have copy: "ctx_inv L (case copy_region a p n k c of (c, b) \<Rightarrow> g c b)"
    if "ctx_inv L c" "pw_validate_region c p n" "unat n \<le> k" "\<And>b. ctx_inv L (g c b)" for a p n k c g
    using that inv_copy_region [OF that(1-3)] by (cases "copy_region a p n k c") auto
  define c1 where "c1 = ctx\<lparr>local_response_set := True, local_response_code := sint (args 0)\<rparr>"
  define c2 where "c2 = (if args 4 > 0 \<and> pw_validate_region c1 (args 3) (args 4)
      then (case copy_region (al 0) (args 3) (args 4) (unat (args 4 + 1)) c1 of (c, b) \<Rightarrow> c\<lparr>local_response_body := b\<rparr>)
      else c1)"
  have c1: "ctx_inv L c1" using assms(1) by (simp add: c1_def)
  then have c2: "ctx_inv L c2" using sz [OF _ c1] unfolding c2_def by (auto intro!: copy)
  show ?thesis
    unfolding pw_proxy_send_local_response_def Let_def c1_def [symmetric] c2_def [symmetric]
    using c2 by (auto intro!: copy)
qed

lemma inv_time: "ctx_inv L ctx \<Longrightarrow> ctx_inv L (fst (pw_proxy_get_current_time ts ctx args))"
  unfolding pw_proxy_get_current_time_def Let_def
  by (intro inv_split) (auto simp: mem_ptr_valid intro: inv_put)

lemma inv_simple:
  "ctx_inv L ctx \<Longrightarrow> ctx_inv L (fst (pw_proxy_get_log_level ctx args))"
  "ctx_inv L ctx \<Longrightarrow> ctx_inv L (fst (pw_stub_not_found ctx args))"
  "ctx_inv L ctx \<Longrightarrow> ctx_inv L (fst (pw_proxy_set_effective_context ctx args))"
  "ctx_inv L ctx \<Longrightarrow> ctx_inv L (fst (pw_proxy_continue_stream ctx args))"
  "ctx_inv L ctx \<Longrightarrow> ctx_inv L (fst (pw_proxy_close_stream ctx args))"
  "ctx_inv L ctx \<Longrightarrow> ctx_inv L (fst (pw_proxy_done ctx args))"
  by (auto simp: pw_proxy_get_log_level_def pw_stub_not_found_def pw_proxy_set_effective_context_def
      pw_proxy_continue_stream_def pw_proxy_close_stream_def pw_proxy_done_def Let_def
      dest: inv_write split: prod.split)

lemma inv_get_status: "ctx_inv L ctx \<Longrightarrow> ctx_inv L (fst (pw_proxy_get_status ctx args))"
proof -
  assume inv: "ctx_inv L ctx"
  have "last_status_msg c = Some m \<Longrightarrow> length (cstr m) < 2 ^ 32" if "ctx_inv L c" for c m
    using that small_cstr [of m] by (simp add: ctx_inv_defs)
  then show ?thesis unfolding pw_proxy_get_status_def
    using inv by (intro inv_split) (auto dest!: inv_write inv_return_string)
qed

section \<open>Lemmas: the stores\<close>

lemma inv_stores:
  assumes "ctx_inv L ctx"
  shows "shared_data_p ctx = Some sd \<Longrightarrow> sd_wf sd" "queue_store_p ctx = Some qs \<Longrightarrow> qs_reach qs"
    "metric_store_p ctx = Some ms \<Longrightarrow> metrics_ok ms"
    "pred_option sd_wf x \<Longrightarrow> ctx_inv L (ctx\<lparr>shared_data_p := x\<rparr>)"
    "pred_option qs_reach y \<Longrightarrow> ctx_inv L (ctx\<lparr>queue_store_p := y\<rparr>)"
    "pred_option metrics_ok z \<Longrightarrow> ctx_inv L (ctx\<lparr>metric_store_p := z\<rparr>)"
  using assms by (simp_all add: ctx_inv_defs)

lemma shared_get_small:
  assumes "sd_wf sd" "vwasm_shared_data_get al (Some sd) (Some key) = Some (v, n, cas)"
  shows "n < 2 ^ 32"
proof -
  have "se_value_len e < 2 ^ 32" if "find (sd_match key) (sd_buckets sd ! sd_bucket key) = Some e" for e
  proof -
    have "e \<in> set (sd_buckets sd ! sd_bucket key)" using that by (metis find_Some_iff nth_mem)
    then have "sd_entry_ok (sd_bucket key) e" using assms(1) by (simp add: sd_wf_bucket)
    then show ?thesis by (simp add: sd_entry_ok_def VWASM_SHARED_DATA_MAX_VALUE_def)
  qed
  then show ?thesis using assms(2) by (auto simp: vwasm_shared_data_get_def split: if_splits option.splits)
qed

lemma inv_get_shared: "ctx_inv L ctx \<Longrightarrow> ctx_inv L (fst (pw_proxy_get_shared_data al ctx args))"
proof -
  assume inv: "ctx_inv L ctx"
  have "n < 2 ^ 32" if "vwasm_shared_data_get al (shared_data_p ctx) (Some key) = Some (v, n, cas)" for key v n cas
    using that shared_get_small [OF inv_stores(1) [OF inv]]
    by (cases "shared_data_p ctx") (auto simp: vwasm_shared_data_get_def)
  then show ?thesis unfolding pw_proxy_get_shared_data_def
    using inv by (intro inv_split) (auto dest!: inv_write inv_return)
qed

lemma inv_set_shared: "ctx_inv L ctx \<Longrightarrow> ctx_inv L (fst (pw_proxy_set_shared_data al ctx args))"
proof -
  assume inv: "ctx_inv L ctx"
  have "pred_option sd_wf x"
    if set: "vwasm_shared_data_set al (shared_data_p ctx) (Some key) v n cas = (x, r)"
      and len: "\<forall>b. v = Some b \<longrightarrow> n \<le> length b" and ne: "shared_data_p ctx \<noteq> None" for key v n cas x r
  proof -
    obtain sd where sd: "shared_data_p ctx = Some sd" using ne by blast
    show ?thesis using shared_data_set_wf [OF inv_stores(1) [OF inv sd] len set [unfolded sd]] by auto
  qed
  moreover have "unat n \<le> length (chunk (unat p) (unat n) (memory ctx))" if "pw_validate_region ctx p n" for p n
    using validated_chunk [OF that] by simp
  ultimately show ?thesis unfolding pw_proxy_set_shared_data_def Let_def
    using inv by (intro inv_split inv_stores(4)) (auto split: if_splits)
qed

lemma inv_register: "ctx_inv L ctx \<Longrightarrow> ctx_inv L (fst (pw_proxy_register_shared_queue al ctx args))"
proof -
  assume inv: "ctx_inv L ctx"
  have "ctx_inv L (ctx\<lparr>queue_store_p := x\<rparr>)"
    if reg: "vwasm_queue_register al (queue_store_p ctx) (Some n) = (x, r)" and ne: "queue_store_p ctx \<noteq> None" for n x r
  proof -
    obtain qs where qs: "queue_store_p ctx = Some qs" using ne by blast
    obtain qs' where x: "x = Some qs'"
      using reg by (auto simp: vwasm_queue_register_def qs Let_def split: if_splits option.splits)
    have "qs_reach qs'" using inv_stores(2) [OF inv qs] reg unfolding qs x by (rule qs_register)
    then show ?thesis using inv_stores(5) [OF inv] x by simp
  qed
  then show ?thesis unfolding pw_proxy_register_shared_queue_def Let_def
    using inv by (intro inv_split) (auto dest!: inv_write)
qed

lemma inv_resolve: "ctx_inv L ctx \<Longrightarrow> ctx_inv L (fst (pw_proxy_resolve_shared_queue ctx args))"
  unfolding pw_proxy_resolve_shared_queue_def Let_def by (intro inv_split) (auto dest: inv_write)

lemma inv_enqueue: "ctx_inv L ctx \<Longrightarrow> ctx_inv L (fst (pw_proxy_enqueue_shared_queue al ctx args))"
proof -
  assume inv: "ctx_inv L ctx"
  have "ctx_inv L (ctx\<lparr>queue_store_p := x\<rparr>)"
    if enq: "vwasm_queue_enqueue al (queue_store_p ctx) k d n = (x, r)" and ne: "queue_store_p ctx \<noteq> None"
      and len: "\<forall>b. d = Some b \<longrightarrow> n \<le> length b" for k d n x r
  proof -
    obtain qs where qs: "queue_store_p ctx = Some qs" using ne by blast
    obtain qs' where x: "x = Some qs'"
      using enq by (auto simp: vwasm_queue_enqueue_def qs Let_def split: if_splits option.splits prod.splits)
    have "qs_reach qs'" using inv_stores(2) [OF inv qs] len enq unfolding qs x by (rule qs_enqueue)
    then show ?thesis using inv_stores(5) [OF inv] x by simp
  qed
  moreover have "unat n \<le> length (chunk (unat p) (unat n) (memory ctx))" if "pw_validate_region ctx p n" for p n
    using validated_chunk [OF that] by simp
  ultimately show ?thesis unfolding pw_proxy_enqueue_shared_queue_def Let_def
    using inv by (intro inv_split) (auto split: if_splits)
qed

lemma dequeue_small:
  assumes "qs_inv qs" "vwasm_queue_dequeue (Some qs) k = (x, Some (d, n))"
  shows "n < 2 ^ 32"
proof (cases "qs_abs qs k")
  case None
  then show ?thesis using qstore.step_sim [OF assms(1), of "Deq k"] assms(2) by (simp add: qs_step_def)
next
  case (Some l)
  show ?thesis
  proof (cases l)
    case Nil
    then show ?thesis using Some qstore.step_sim [OF assms(1), of "Deq k"] assms(2) by (simp add: qs_step_def)
  next
    case (Cons y ys)
    show ?thesis using dequeue_abs [OF assms(1) Some [unfolded Cons]] assms(2)
      by (auto simp: VWASM_QUEUE_MAX_MSG_def)
  qed
qed

lemma inv_dequeue: "ctx_inv L ctx \<Longrightarrow> ctx_inv L (fst (pw_proxy_dequeue_shared_queue ctx args))"
proof -
  assume inv: "ctx_inv L ctx"
  have deq: "ctx_inv L (ctx\<lparr>queue_store_p := x\<rparr>)" "r = Some (d, n) \<Longrightarrow> n < 2 ^ 32"
    if deq: "vwasm_queue_dequeue (queue_store_p ctx) k = (x, r)" and ne: "queue_store_p ctx \<noteq> None" for k x r d n
  proof -
    obtain qs where qs: "queue_store_p ctx = Some qs" using ne by blast
    obtain qs' where x: "x = Some qs'"
      using deq by (auto simp: vwasm_queue_dequeue_def qs Let_def split: if_splits option.splits)
    have reach: "qs_reach qs" by (rule inv_stores(2) [OF inv qs])
    then have "qs_reach qs'" using deq unfolding qs x by (rule qs_dequeue)
    then show "ctx_inv L (ctx\<lparr>queue_store_p := x\<rparr>)" using inv_stores(5) [OF inv] x by simp
    show "n < 2 ^ 32" if "r = Some (d, n)"
      using dequeue_small [OF reach_inv [OF reach]] that deq qs by simp
  qed
  show ?thesis unfolding pw_proxy_dequeue_shared_queue_def
    using inv deq by (intro inv_split) (auto dest!: inv_return)
qed

section \<open>Lemmas: metrics and callouts\<close>

lemma inv_define_metric: "ctx_inv L ctx \<Longrightarrow> ctx_inv L (fst (pw_proxy_define_metric ctx t p n r))"
proof -
  assume inv: "ctx_inv L ctx"
  show ?thesis
  proof (cases "metric_store_p ctx")
    case None
    then show ?thesis using inv by (simp add: pw_proxy_define_metric_def)
  next
    case (Some store)
    show ?thesis
    proof (cases "pw_read_string ctx p n VWASM_METRIC_MAX_NAME")
      case None
      then show ?thesis using inv Some by (simp add: pw_proxy_define_metric_def)
    next
      case name: (Some name)
      have len: "length name < VWASM_METRIC_MAX_NAME" using read_string_bound [OF name] by (simp add: metric_limits)
      show ?thesis unfolding define_metric_cases [OF Some name]
        using inv metrics_define_ok [OF inv_stores(3) [OF inv Some] len]
        by (intro inv_split inv_write_fst inv_stores(6) [OF inv]) simp_all
    qed
  qed
qed

lemma metrics_ok_value:
  "metrics_ok ms \<Longrightarrow> metrics_ok (ms\<lparr>ms_metrics := (ms_metrics ms)[i := (ms_metrics ms ! i)\<lparr>mt_value := v\<rparr>]\<rparr>)"
proof -
  assume ok: "metrics_ok ms"
  have names: "map mt_name ((ms_metrics ms)[i := (ms_metrics ms ! i)\<lparr>mt_value := v\<rparr>]) = map mt_name (ms_metrics ms)"
    by (rule nth_equalityI) (auto simp: nth_list_update_if)
  have "list_all (\<lambda>m. length (mt_name m) < VWASM_METRIC_MAX_NAME)
      ((ms_metrics ms)[i := (ms_metrics ms ! i)\<lparr>mt_value := v\<rparr>])"
    using ok by (auto simp: metrics_ok_def list_all_length nth_list_update_if)
  then show ?thesis using ok names by (simp add: metrics_ok_def)
qed

lemma inv_metric_ops:
  "ctx_inv L ctx \<Longrightarrow> ctx_inv L (fst (pw_proxy_increment_metric ctx k v))"
  "ctx_inv L ctx \<Longrightarrow> ctx_inv L (fst (pw_proxy_record_metric ctx k v))"
  "ctx_inv L ctx \<Longrightarrow> ctx_inv L (fst (pw_proxy_get_metric ctx k r))"
  by (auto simp: pw_proxy_increment_metric_def pw_proxy_record_metric_def pw_proxy_get_metric_def Let_def
      mem_ptr_valid metrics_ok_value intro!: inv_stores(6) inv_put dest: inv_stores(3) split: option.split)

lemma calls_insert_set: "set (http_calls_insert e xs) \<subseteq> insert e (set xs)"
  by (induction e xs rule: http_calls_insert.induct) auto

lemma u32_succ: "(a :: u32) < b \<Longrightarrow> a < a + 1 \<and> a + 1 \<le> b"
  using inc_below [of a b] by (simp add: word_less_nat_alt)

lemma inv_call_store:
  assumes inv: "ctx_inv L ctx" and tok: "http_call_max ctx > 0 \<Longrightarrow> http_call_next_token ctx < http_call_count ctx"
    and len: "length buf < 2 ^ 32"
  shows "ctx_inv L (fst (call_store ne ctx buf r))"
proof -
  let ?t = "http_call_next_token ctx + 1"
  let ?a = "ctx\<lparr>http_call_next_token := ?t\<rparr>"
  define e where "e = \<lparr>hce_token = ?t, hce_response = \<lparr>hcr_raw = Some buf, hcr_num_headers = snd (parse_response buf),
    hcr_body = fst (parse_response buf), hcr_valid = True\<rparr>\<rparr>"
  let ?b = "?a\<lparr>http_calls := http_calls_insert e (http_calls ctx)\<rparr>"
  have wrap: "http_call_next_token ctx < ?t" "?t \<le> http_call_count ctx" if "http_call_max ctx > 0"
    using u32_succ [OF tok [OF that]] by simp_all
  have small: "response_small e"
    using len by (auto simp: e_def response_small_def small_def buf_len_def parse_response_def split: option.split)
  have ca: "calls_ok ctx" if "http_call_max ctx > 0" using inv that by (simp add: ctx_inv_def calls_inv_def)
  have a: "ctx_inv L ?a"
    using inv wrap unfolding ctx_inv_defs by (auto simp: list_all_iff)
  have "calls_ok ?b" if "http_call_max ctx > 0"
  proof -
    have ins: "http_calls_insert e (http_calls ctx) = http_calls ctx @ [e]"
      using ca [OF that] wrap(1) [OF that] by (intro calls_insert_last) (auto simp: calls_ok_def list_all_iff e_def)
    have tok: "hce_token e = ?t" by (simp add: e_def)
    show ?thesis using ca [OF that] wrap(1) [OF that] unfolding calls_ok_def
      by (auto simp: ins tok sorted_wrt_append list_all_iff)
  qed
  moreover have "list_all response_small (http_calls_insert e (http_calls ctx))"
    using inv small calls_insert_set [of e "http_calls ctx"] by (auto simp: ctx_inv_def calls_inv_def list_all_iff)
  ultimately have b: "ctx_inv L ?b"
    using a wrap unfolding ctx_inv_def calls_inv_def mem_inv_def stores_inv_def sizes_inv_def by simp
  have "fst (call_store ne ctx buf r) = ?a \<or> (\<exists>c ok. pw_write_u32 ?b r ?t = (c, ok) \<and> fst (call_store ne ctx buf r) = c)"
    by (auto simp: call_store_def Let_def e_def split: prod.splits bool.splits)
  then show ?thesis using a inv_write [OF _ b] by auto
qed

lemma inv_counted:
  assumes "ctx_inv L ctx" "http_call_max ctx = 0 \<or> http_call_count ctx < http_call_max ctx"
  shows "ctx_inv L (counted ctx)"
    "http_call_max (counted ctx) > 0 \<Longrightarrow> http_call_next_token (counted ctx) < http_call_count (counted ctx)"
proof -
  have "http_call_next_token ctx \<le> http_call_count ctx" "http_call_count ctx < http_call_count ctx + 1"
    "http_call_count ctx + 1 \<le> http_call_max ctx" if "http_call_max ctx > 0"
    using assms that u32_succ [of "http_call_count ctx" "http_call_max ctx"] by (auto simp: ctx_inv_def calls_inv_def)
  then show "ctx_inv L (counted ctx)"
    "http_call_max (counted ctx) > 0 \<Longrightarrow> http_call_next_token (counted ctx) < http_call_count (counted ctx)"
    using assms(1) by (auto simp: ctx_inv_defs)
qed

lemma exchange_ctx:
  "cr_ctx (call_exchange ne ctx p host port conn req body ex r closed d) = ctx \<or>
   rr_complete (read_response (ne_read ne) ex) \<and>
   cr_ctx (call_exchange ne ctx p host port conn req body ex r closed d) =
     fst (call_store ne ctx (rr_buf (read_response (ne_read ne) ex)) r)"
  by (auto simp: call_exchange_def Let_def split: prod.split)

lemma complete_small: "rr_complete (read_response rd ex) \<Longrightarrow> length (rr_buf (read_response rd ex)) < 2 ^ 32"
proof -
  assume c: "rr_complete (read_response rd ex)"
  obtain b k e where ph: "read_header_phase rd 0 [] = (b, k, Some e)"
    using c by (cases "read_header_phase rd 0 []"; cases "snd (snd (read_header_phase rd 0 []))")
      (auto simp: read_response_def)
  show ?thesis using complete_frame(3) [OF refl c ph] by (simp add: PW_HTTP_MAX_RESPONSE_def)
qed

lemma inv_http_call: "ctx_inv L ctx \<Longrightarrow> ctx_inv L (cr_ctx (pw_proxy_http_call ne ctx poolp args))"
proof -
  assume inv: "ctx_inv L ctx"
  define r where "r = pw_proxy_http_call ne ctx poolp args"
  from r_def [symmetric] have "ctx_inv L (cr_ctx r)"
  proof (cases rule: call_cases)
    case (exchanged host port ex req body p conn closed d)
    note c = inv_counted [OF inv exchanged(1)]
    show ?thesis
      using exchange_ctx [of ne "counted ctx" p host port conn req body ex "args 9" closed d] exchanged(4) c(1)
        inv_call_store [OF c complete_small]
      by auto
  qed (use inv inv_counted(1) [OF inv] in simp_all)
  then show ?thesis by (simp add: r_def)
qed

section \<open>The table keeps the invariant\<close>

lemma inv_on_ctx:
  assumes "host_inv L st" "ctx_inv L (fst (f env (hs_ctx st) (\<lambda>i. of_i32 (a i))))"
  shows "host_inv L (fst (on_ctx f env st a))"
  using assms by (cases "f env (hs_ctx st) (\<lambda>i. of_i32 (a i))") (simp add: on_ctx_def host_inv_def)

lemma inv_log: "host_inv L st \<Longrightarrow> host_inv L (fst (log_fun env st a))"
  by (simp add: log_fun_def host_inv_def split: prod.split option.split)

lemma inv_tick: "host_inv L st \<Longrightarrow> host_inv L (fst (tick_fun env st a))"
proof -
  assume inv: "host_inv L st"
  show ?thesis
  proof (cases "hs_engine st \<noteq> None \<and> mod_name (hs_ctx st) \<noteq> None")
    case True
    then obtain e n where en: "hs_engine st = Some e" "mod_name (hs_ctx st) = Some n" by blast
    have "\<exists>e' r. vwasm_engine_set_tick_period (he_al env) (Some e) (Some n) (of_i32 (a 0)) = (Some e', r)"
      by (cases "find_module e n") (simp_all add: vwasm_engine_set_tick_period_def Let_def)
    then obtain e' r where set: "vwasm_engine_set_tick_period (he_al env) (Some e) (Some n) (of_i32 (a 0)) = (Some e', r)"
      by blast
    have "timers_ok e'" using set_tick_period_ok [OF set] inv en by (simp add: host_inv_def)
    then show ?thesis using inv set en
      by (simp add: tick_fun_def pw_proxy_set_tick_period_def host_inv_def)
  next
    case False
    then show ?thesis using inv by (auto simp: tick_fun_def pw_proxy_set_tick_period_def host_inv_def)
  qed
qed

lemma inv_http: "host_inv L st \<Longrightarrow> host_inv L (fst (http_fun env st a))"
  by (cases "hs_engine st") (simp_all add: http_fun_def host_inv_def inv_http_call timers_ok_def Let_def)

lemma import_keeps_inv:
  assumes "(name, ks, f) \<in> set proxy_imports" "env_ok env" "L < 2 ^ 32 - 1" "host_inv L st" "body_small st"
  shows "host_inv L (fst (f env st a))"
proof -
  have c: "ctx_inv L (hs_ctx st)" "small (modified_body (hs_ctx st))" "varnish_small (he_vn env)" "vi_small (he_vi env)"
    using assms by (simp_all add: host_inv_def body_small_def env_ok_def)
  note h = inv_on_ctx [OF assms(4)]
  show ?thesis using assms(1) unfolding proxy_imports_def
    by (simp only: list.set insert_iff empty_iff prod.inject, elim disjE conjE, simp_all only:)
      (assumption | rule h inv_log inv_tick inv_http assms c inv_simple inv_get_header inv_add_header
        inv_replace_header inv_remove_header inv_get_pairs inv_set_pairs inv_get_size inv_get_property
        inv_set_property inv_get_buffer inv_set_buffer inv_buffer_status inv_local_response inv_time
        inv_get_shared inv_set_shared inv_register inv_resolve inv_enqueue inv_dequeue inv_get_status
        inv_define_metric inv_metric_ops)+
qed

text \<open>The invariant a guest cannot break, with the bound on its memory that the wrap-around of the body size
  in \<open>proxy_send_local_response\<close> needs.\<close>

definition guest_inv :: "nat \<Rightarrow> host_state \<Rightarrow> bool" where
  "guest_inv L st \<longleftrightarrow> L < 2 ^ 32 - 1 \<and> host_inv L st \<and> body_small st"

lemma host_call_import:
  assumes "host_call env name a st = Some st'"
  obtains ks f where "(name, ks, f) \<in> set proxy_imports" "st' = fst (f env st a)"
proof -
  obtain ks f where "map_of proxy_imports name = Some (ks, f)" "st' = fst (f env st a)"
    using assms by (auto simp: host_call_def split: option.splits)
  then show ?thesis using that by (blast dest: map_of_SomeD)
qed

interpretation guest: step_invariant "guest_step L body_small" "guest_inv L" for L
proof
  fix st st'
  assume "guest_step L body_small st st'" and inv: "guest_inv L st"
  then show "guest_inv L st'"
  proof cases
    case (host_step env name a)
    obtain ks f where "(name, ks, f) \<in> set proxy_imports" "st' = fst (f env st a)"
      using host_step(2) by (rule host_call_import)
    then show ?thesis using import_keeps_inv host_step inv by (simp add: guest_inv_def)
  next
    case (own_step m)
    then show ?thesis using inv by (simp add: guest_inv_def host_inv_def ctx_inv_defs)
  qed
qed

end
