(* ===== verification/Guest_Runs.thy ===== *)
theory Guest_Runs
  imports Host_Table
begin

text \<open>
  What the import table promises: its types cover what the callbacks read, no run of a guest breaks the
  host's invariants, and the one way in which a guest can leave its memory, a body of 4 GiB.
\<close>

section \<open>Lemmas: types\<close>

text \<open>A callback reads no argument beyond those its type declares.\<close>

lemma reads_1:
  assumes "u 0 = v 0"
  shows "pw_proxy_get_log_level ctx u = pw_proxy_get_log_level ctx v"
    "pw_proxy_get_current_time ts ctx u = pw_proxy_get_current_time ts ctx v"
    "pw_proxy_set_tick_period al e ctx u = pw_proxy_set_tick_period al e ctx v"
    "pw_proxy_set_effective_context ctx u = pw_proxy_set_effective_context ctx v"
  by (simp_all only: pw_proxy_get_log_level_def pw_proxy_get_current_time_def pw_proxy_set_tick_period_def
      pw_proxy_set_effective_context_def assms)

lemma reads_none:
  "pw_proxy_continue_stream ctx u = pw_proxy_continue_stream ctx v"
  "pw_proxy_close_stream ctx u = pw_proxy_close_stream ctx v" "pw_proxy_done ctx u = pw_proxy_done ctx v"
  "pw_stub_not_found ctx u = pw_stub_not_found ctx v"
  by (simp_all only: pw_proxy_continue_stream_def pw_proxy_close_stream_def pw_proxy_done_def pw_stub_not_found_def)

lemma reads_2: "u 0 = v 0 \<Longrightarrow> u 1 = v 1 \<Longrightarrow> pw_proxy_get_header_map_size ctx u = pw_proxy_get_header_map_size ctx v"
  by (simp only: pw_proxy_get_header_map_size_def)

lemma reads_3:
  assumes "u 0 = v 0" "u 1 = v 1" "u 2 = v 2"
  shows "pw_proxy_log vsl ctx u = pw_proxy_log vsl ctx v"
    "pw_proxy_remove_header_map_value vn ctx u = pw_proxy_remove_header_map_value vn ctx v"
    "pw_proxy_get_header_map_pairs al ctx u = pw_proxy_get_header_map_pairs al ctx v"
    "pw_proxy_set_header_map_pairs al vn ctx u = pw_proxy_set_header_map_pairs al vn ctx v"
    "pw_proxy_get_buffer_status ctx u = pw_proxy_get_buffer_status ctx v"
    "pw_proxy_register_shared_queue al ctx u = pw_proxy_register_shared_queue al ctx v"
    "pw_proxy_enqueue_shared_queue al ctx u = pw_proxy_enqueue_shared_queue al ctx v"
    "pw_proxy_dequeue_shared_queue ctx u = pw_proxy_dequeue_shared_queue ctx v"
    "pw_proxy_get_status ctx u = pw_proxy_get_status ctx v"
  by (simp_all only: pw_proxy_log_def pw_proxy_remove_header_map_value_def pw_proxy_get_header_map_pairs_def
      pw_proxy_set_header_map_pairs_def pw_proxy_get_buffer_status_def pw_proxy_register_shared_queue_def
      pw_proxy_enqueue_shared_queue_def pw_proxy_dequeue_shared_queue_def pw_proxy_get_status_def assms)

lemma reads_5:
  assumes "u 0 = v 0" "u 1 = v 1" "u 2 = v 2" "u 3 = v 3"
  shows "pw_proxy_get_property vn vi ctx u = pw_proxy_get_property vn vi ctx v"
    "pw_proxy_set_property vn ctx u = pw_proxy_set_property vn ctx v"
    "u 4 = v 4 \<Longrightarrow> pw_proxy_get_header_map_value vn ctx u = pw_proxy_get_header_map_value vn ctx v"
    "u 4 = v 4 \<Longrightarrow> pw_proxy_add_header_map_value al vn ctx u = pw_proxy_add_header_map_value al vn ctx v"
    "u 4 = v 4 \<Longrightarrow> pw_proxy_replace_header_map_value al vn ctx u = pw_proxy_replace_header_map_value al vn ctx v"
    "u 4 = v 4 \<Longrightarrow> pw_proxy_get_buffer_bytes ctx u = pw_proxy_get_buffer_bytes ctx v"
    "u 4 = v 4 \<Longrightarrow> pw_proxy_set_buffer_bytes al ctx u = pw_proxy_set_buffer_bytes al ctx v"
    "u 4 = v 4 \<Longrightarrow> pw_proxy_get_shared_data al ctx u = pw_proxy_get_shared_data al ctx v"
    "u 4 = v 4 \<Longrightarrow> pw_proxy_set_shared_data al ctx u = pw_proxy_set_shared_data al ctx v"
    "u 4 = v 4 \<Longrightarrow> pw_proxy_resolve_shared_queue ctx u = pw_proxy_resolve_shared_queue ctx v"
  by (simp_all only: pw_proxy_get_property_def pw_proxy_set_property_def pw_proxy_get_header_map_value_def
      pw_proxy_add_header_map_value_def pw_proxy_replace_header_map_value_def pw_proxy_get_buffer_bytes_def
      pw_proxy_set_buffer_bytes_def pw_proxy_get_shared_data_def pw_proxy_set_shared_data_def
      pw_proxy_resolve_shared_queue_def assms)

lemma reads_more:
  assumes "u 0 = v 0" "u 3 = v 3" "u 4 = v 4" "u 5 = v 5"
  shows "u 6 = v 6 \<Longrightarrow> pw_proxy_send_local_response al ctx u = pw_proxy_send_local_response al ctx v"
    "u 1 = v 1 \<Longrightarrow> u 2 = v 2 \<Longrightarrow> u 8 = v 8 \<Longrightarrow> u 9 = v 9 \<Longrightarrow>
     pw_proxy_http_call ne ctx p u = pw_proxy_http_call ne ctx p v"
  by (simp_all only: pw_proxy_send_local_response_def pw_proxy_http_call_def call_prepare_def assms)

definition covers :: "valkind list \<Rightarrow> host_fun \<Rightarrow> bool" where
  "covers ks f \<longleftrightarrow> (\<forall>env st a b. (\<forall>i < length ks. a i = b i) \<longrightarrow> f env st a = f env st b)"

lemma covers_ctx:
  assumes "\<And>env ctx u v. \<forall>i < length ks. u i = v i \<Longrightarrow> F env ctx u = F env ctx v"
  shows "covers ks (on_ctx F)"
proof (unfold covers_def, intro allI impI)
  fix env :: host_env and st :: host_state and a b :: "nat \<Rightarrow> wval"
  assume "\<forall>i < length ks. a i = b i"
  then have eq: "F env (hs_ctx st) (\<lambda>i. of_i32 (a i)) = F env (hs_ctx st) (\<lambda>i. of_i32 (b i))" by (intro assms) simp
  show "on_ctx F env st a = on_ctx F env st b" unfolding on_ctx_def eq ..
qed

lemma covers_beyond: "covers (i32s 3) log_fun" "covers (i32s 1) tick_fun" "covers (i32s 10) http_fun"
proof (unfold covers_def, safe)
  fix env :: host_env and st :: host_state and a b :: "nat \<Rightarrow> wval"
  let ?u = "\<lambda>i. of_i32 (a i)" and ?v = "\<lambda>i. of_i32 (b i)"
  {
    assume *: "\<forall>i < length (i32s 3). a i = b i"
    have eq: "pw_proxy_log (he_vsl env) (hs_ctx st) ?u = pw_proxy_log (he_vsl env) (hs_ctx st) ?v"
      by (rule reads_3) (use * in simp_all)
    show "log_fun env st a = log_fun env st b" unfolding log_fun_def eq ..
  next
    assume *: "\<forall>i < length (i32s 1). a i = b i"
    have eq: "pw_proxy_set_tick_period al e c ?u = pw_proxy_set_tick_period al e c ?v" for al e c
      by (rule reads_1) (use * in simp)
    show "tick_fun env st a = tick_fun env st b" unfolding tick_fun_def eq ..
  next
    assume *: "\<forall>i < length (i32s 10). a i = b i"
    have eq: "pw_proxy_http_call ne c p ?u = pw_proxy_http_call ne c p ?v" for ne c p
      by (rule reads_more) (use * in simp_all)
    show "http_fun env st a = http_fun env st b" unfolding http_fun_def eq ..
  }
qed

lemma covers_metric:
  "covers [WASM_I32, WASM_I64]
     (\<lambda>env st a. on_ctx (\<lambda>_ ctx _. pw_proxy_increment_metric ctx (of_i32 (a 0)) (of_i64 (a 1))) env st a)"
  "covers [WASM_I32, WASM_I64]
     (\<lambda>env st a. on_ctx (\<lambda>_ ctx _. pw_proxy_record_metric ctx (of_i32 (a 0)) (of_i64 (a 1))) env st a)"
  by (simp_all add: covers_def on_ctx_def less_Suc_eq)

lemma covers_table:
  "covers (i32s 1) (on_ctx (\<lambda>_. pw_proxy_get_log_level))"
  "covers (i32s 5) (on_ctx (\<lambda>env. pw_proxy_get_header_map_value (he_vn env)))"
  "covers (i32s 5) (on_ctx (\<lambda>env. pw_proxy_add_header_map_value (he_al env) (he_vn env)))"
  "covers (i32s 5) (on_ctx (\<lambda>env. pw_proxy_replace_header_map_value (he_al env) (he_vn env)))"
  "covers (i32s 3) (on_ctx (\<lambda>env. pw_proxy_remove_header_map_value (he_vn env)))"
  "covers (i32s 3) (on_ctx (\<lambda>env. pw_proxy_get_header_map_pairs (he_al env)))"
  "covers (i32s 3) (on_ctx (\<lambda>env. pw_proxy_set_header_map_pairs (he_al env) (he_vn env)))"
  "covers (i32s 2) (on_ctx (\<lambda>_. pw_proxy_get_header_map_size))"
  "covers (i32s 4) (on_ctx (\<lambda>env. pw_proxy_get_property (he_vn env) (he_vi env)))"
  "covers (i32s 4) (on_ctx (\<lambda>env. pw_proxy_set_property (he_vn env)))"
  "covers (i32s 5) (on_ctx (\<lambda>_. pw_proxy_get_buffer_bytes))"
  "covers (i32s 5) (on_ctx (\<lambda>env. pw_proxy_set_buffer_bytes (he_al env)))"
  "covers (i32s 3) (on_ctx (\<lambda>_. pw_proxy_get_buffer_status))"
  "covers (i32s 8) (on_ctx (\<lambda>env. pw_proxy_send_local_response (he_al env)))"
  "covers (i32s 1) (on_ctx (\<lambda>env. pw_proxy_get_current_time (he_time env)))"
  "covers (i32s 1) (on_ctx (\<lambda>_. pw_proxy_set_effective_context))" "covers ks (on_ctx (\<lambda>_. pw_proxy_done))"
  "covers ks (on_ctx (\<lambda>_. pw_proxy_continue_stream))" "covers ks (on_ctx (\<lambda>_. pw_proxy_close_stream))"
  "covers ks (on_ctx (\<lambda>_. pw_stub_not_found))"
  "covers (i32s 5) (on_ctx (\<lambda>env. pw_proxy_get_shared_data (he_al env)))"
  "covers (i32s 5) (on_ctx (\<lambda>env. pw_proxy_set_shared_data (he_al env)))"
  "covers (i32s 3) (on_ctx (\<lambda>env. pw_proxy_register_shared_queue (he_al env)))"
  "covers (i32s 5) (on_ctx (\<lambda>_. pw_proxy_resolve_shared_queue))"
  "covers (i32s 3) (on_ctx (\<lambda>env. pw_proxy_enqueue_shared_queue (he_al env)))"
  "covers (i32s 3) (on_ctx (\<lambda>_. pw_proxy_dequeue_shared_queue))" "covers (i32s 3) (on_ctx (\<lambda>_. pw_proxy_get_status))"
  "covers (i32s 4) (on_ctx (\<lambda>_ ctx a. pw_proxy_define_metric ctx (sint (a 0)) (a 1) (a 2) (a 3)))"
  "covers (i32s 2) (on_ctx (\<lambda>_ ctx a. pw_proxy_get_metric ctx (a 0) (a 1)))"
  by (rule covers_ctx; (rule reads_none | rule reads_1 reads_2 reads_3 reads_5 reads_more | simp); simp)+

lemma import_reads:
  assumes "(name, ks, f) \<in> set proxy_imports"
  shows "covers ks f"
proof -
  have "list_all (\<lambda>(name, ks, f). covers ks f) proxy_imports"
    unfolding proxy_imports_def list.pred_inject prod.case
    by (intro conjI covers_table covers_beyond covers_metric list.pred_inject(1))
  then show ?thesis using assms by (auto simp: list_all_iff)
qed

lemma i32s_eq: "list_all (\<lambda>p. p = WASM_I32) ps \<Longrightarrow> i32s (length ps) = ps"
  by (induction ps) simp_all

lemma define_all_ok:
  assumes "\<forall>k. ok k"
  shows "distinct (map fst ds) \<Longrightarrow> \<forall>d \<in> set l. fst d = ''env'' \<longrightarrow> fst (snd d) \<notin> fst ` set ds \<Longrightarrow>
    define_all ok k ds l = (l @ map (\<lambda>(n, ps, f). (''env'', n, ps, 1, f)) ds, 0)"
proof (induction ds arbitrary: k l)
  case (Cons d ds)
  obtain n ps f where d: "d = (n, ps, f)" by (metis prod.exhaust)
  have def: "linker_define l ''env'' n ps 1 f = Some (l @ [(''env'', n, ps, 1, f)])"
    using Cons.prems(2) by (auto simp: linker_define_def d)
  then have "(if list_all (\<lambda>p. p = WASM_I32) ps then pw_define_func (ok k) l n (length ps) 1 f
      else pw_define_func_typed (ok k) l n ps 1 f) = (l @ [(''env'', n, ps, 1, f)], 0)"
    using assms i32s_eq [of ps] by (simp add: pw_define_func_def pw_define_func_typed_def)
  moreover have "define_all ok (k + 1) ds (l @ [(''env'', n, ps, 1, f)]) =
      ((l @ [(''env'', n, ps, 1, f)]) @ map (\<lambda>(n, ps, f). (''env'', n, ps, 1, f)) ds, 0)"
    using Cons.prems by (intro Cons.IH) (auto simp: d)
  ultimately show ?case by (simp add: d)
qed simp

lemma import_names_distinct: "distinct (map fst proxy_imports)"
  unfolding proxy_imports_def list.map fst_conv by code_simp

section \<open>Lemmas: a body that grows\<close>

definition insert_args :: "nat \<Rightarrow> wval" where
  "insert_args i = (if i = 4 then I32 1 else I32 0)"

lemma buf_len_bytes: "buf_len b = length (buf_bytes b)"
  by (simp add: buf_len_def buf_bytes_def split: option.split)

lemma insert_byte:
  assumes "buffer_data ctx 0 = Inr base" "pw_validate_region ctx 0 1" "buf_len base < 2 ^ 32" "\<forall>k. al k"
  shows "\<exists>nb. fst (pw_proxy_set_buffer_bytes al ctx (\<lambda>i. of_i32 (insert_args i))) =
      ctx\<lparr>modified_body := nb, body_modified := True\<rparr> \<and> buf_len nb = buf_len base + 1"
proof -
  let ?v = "chunk 0 1 (memory ctx)"
  have v: "length ?v = unat (1 :: u32)" using validated_chunk [OF assms(2)] by simp
  have ne: "chunk 0 (Suc 0) (memory ctx) \<noteq> []" using v by auto
  have fits: "buf_len base + unat (1 :: u32) \<le> SIZE_T_MAX" using assms(3) by (simp add: SIZE_T_MAX_def)
  have args: "of_i32 (insert_args 4) = 1" "i \<noteq> 4 \<Longrightarrow> of_i32 (insert_args i) = 0" for i
    by (simp_all add: insert_args_def of_i32_def)
  have al: "al 0" using assms(4) by blast
  from replace_bytes_splice [of "al 0", OF al fits v, of 0 0] obtain nb where
    nb: "pw_replace_bytes (al 0) base 0 0 (if ?v = [] then None else Some ?v) 1 = Some nb"
      "buf_bytes nb = ?v @ buf_bytes base"
    by auto
  have "is_body 0" by (simp add: is_body_def PROXY_BUFFER_HTTP_REQUEST_BODY_def)
  then have "pw_proxy_set_buffer_bytes al ctx (\<lambda>i. of_i32 (insert_args i)) =
      (ctx\<lparr>modified_body := nb, body_modified := True\<rparr>, PROXY_OK)"
    using set_buffer_body [of "\<lambda>i. of_i32 (insert_args i)" ctx base al] assms(1,2) nb(1) [simplified] args ne
    by (simp add: Let_def)
  moreover have "buf_len nb = buf_len base + 1" using nb(2) v by (simp add: buf_len_bytes)
  ultimately show ?thesis by auto
qed

lemma insert_call:
  "host_call env ''proxy_set_buffer_bytes'' insert_args st =
     Some (st\<lparr>hs_ctx := fst (pw_proxy_set_buffer_bytes (he_al env) (hs_ctx st) (\<lambda>i. of_i32 (insert_args i)))\<rparr>)"
  by (simp add: host_call_def proxy_imports_def on_ctx_def split: prod.split)

lemma body_grows:
  assumes "env_ok env" "\<forall>k. he_al env k" "pw_validate_region (hs_ctx st) 0 1" "buffer_data (hs_ctx st) 0 = Inr base"
    and "buf_len base + n \<le> 2 ^ 32"
  shows "\<exists>nb c. (guest_step L (\<lambda>_. True))\<^sup>*\<^sup>* st (st\<lparr>hs_ctx := c\<rparr>) \<and> buffer_data c 0 = Inr nb \<and>
    buf_len nb = buf_len base + n \<and> (\<exists>x y. c = hs_ctx st\<lparr>modified_body := x, body_modified := y\<rparr>)"
  using assms(5)
proof (induction n)
  case 0
  have "hs_ctx st = hs_ctx st\<lparr>modified_body := modified_body (hs_ctx st), body_modified := body_modified (hs_ctx st)\<rparr>"
    "st\<lparr>hs_ctx := hs_ctx st\<rparr> = st"
    by simp_all
  then show ?case
    using assms(4) rtranclp.rtrancl_refl [of "guest_step L (\<lambda>_. True)" st] by (metis add_0_right)
next
  case (Suc n)
  then obtain nb c x y where c: "(guest_step L (\<lambda>_. True))\<^sup>*\<^sup>* st (st\<lparr>hs_ctx := c\<rparr>)" "buffer_data c 0 = Inr nb"
    "buf_len nb = buf_len base + n" "c = hs_ctx st\<lparr>modified_body := x, body_modified := y\<rparr>" by auto
  have "pw_validate_region c 0 1" using assms(3) c(4) by (simp add: validate_region_iff)
  from insert_byte [OF c(2) this _ assms(2)] c(3) Suc.prems obtain nb' where
    nb': "fst (pw_proxy_set_buffer_bytes (he_al env) c (\<lambda>i. of_i32 (insert_args i))) =
        c\<lparr>modified_body := nb', body_modified := True\<rparr>" "buf_len nb' = buf_len base + Suc n" by auto
  let ?c = "c\<lparr>modified_body := nb', body_modified := True\<rparr>"
  have "guest_step L (\<lambda>_. True) (st\<lparr>hs_ctx := c\<rparr>) (st\<lparr>hs_ctx := ?c\<rparr>)"
    by (rule host_step [OF assms(1), of "''proxy_set_buffer_bytes''" insert_args]) (simp_all add: insert_call nb'(1))
  then have "(guest_step L (\<lambda>_. True))\<^sup>*\<^sup>* st (st\<lparr>hs_ctx := ?c\<rparr>)" using c(1) by (rule rtranclp.rtrancl_into_rtrancl [rotated])
  moreover have "buffer_data ?c 0 = Inr nb'"
    using buffer_data_body [of 0 ?c] by (simp add: is_body_def PROXY_BUFFER_HTTP_REQUEST_BODY_def)
  moreover have "?c = hs_ctx st\<lparr>modified_body := nb', body_modified := True\<rparr>" using c(4) by simp
  ultimately show ?case using nb'(2) by blast
qed

lemma oversized_read_overruns:
  assumes "buffer_data ctx 0 = Inr (Some b)" "length b = 2 ^ 32" "pw_validate_region ctx 0 1" "length (memory ctx) < 2 ^ 32"
    and "allocator_valid ctx" "allocator ctx 0 (memory ctx) = (Some 0, memory ctx)"
  shows "mem_fault (fst (pw_proxy_get_buffer_bytes ctx (\<lambda>_. 0)))"
proof -
  have len: "(of_nat (length b) :: u32) = 0" "b \<noteq> []" "0 < length b" using assms(2) by auto
  have al: "pw_alloc_wasm ctx 0 = (ctx, Some 0)" using assms(5,6) by (simp add: pw_alloc_wasm_def)
  have st: "mem_store 0 b ctx = ctx\<lparr>mem_fault := True\<rparr>" using assms(2,4) by (simp add: mem_store_def)
  have ptr: "pw_mem_ptr ctx 0 = Some 0" "pw_validate_region ctx 0 0"
    using assms(3) mem_ptr_valid [OF assms(3)] by (simp_all add: validate_region_iff)
  have wr: "mem_fault (fst (pw_write_u32 c o' v)) = mem_fault c" for c :: proxy_ctx and o' v
    by (simp add: write_u32_cases)
  let ?f = "ctx\<lparr>mem_fault := True\<rparr>"
  obtain c1 ok1 where w1: "pw_write_u32 ?f 0 0 = (c1, ok1)" by (metis prod.exhaust)
  obtain c2 ok2 where w2: "pw_write_u32 c1 0 0 = (c2, ok2)" by (metis prod.exhaust)
  have f: "mem_fault c1" "mem_fault c2" using wr [of ?f 0 0] wr [of c1 0 0] w1 w2 by simp_all
  obtain r where r: "pw_return_bytes ctx (Some b) (length b) 0 0 = r" by blast
  have "fst r = c1 \<or> fst r = c2"
    using r len al st ptr w1 w2 by (cases ok1) (auto simp: pw_return_bytes_def)
  then have ret: "mem_fault (fst (pw_return_bytes ctx (Some b) (length b) 0 0))" using f r by auto
  have "fst (pw_proxy_get_buffer_bytes ctx (\<lambda>_. 0)) = fst (pw_return_bytes ctx (Some b) (length b) 0 0)"
    using assms(1) len by (simp add: pw_proxy_get_buffer_bytes_def buf_len_def Let_def split: prod.split)
  then show ?thesis using ret by simp
qed

section \<open>Properties\<close>

text \<open>A fresh guest with 64 bytes of memory and an allocator that gives out address 0, and an environment in
  which every allocation succeeds.\<close>

definition fresh_guest :: host_state where
  "fresh_guest = \<lparr>hs_ctx = (pctx_zero (replicate 64 NUL) (\<lambda>n m. (Some 0, m)))
       \<lparr>memory_valid := True, wasm_ctx := True, allocator_valid := True, http_call_max := 5\<rparr>,
     hs_engine = None, hs_log = []\<rparr>"

definition plain_env :: host_env where
  "plain_env = \<lparr>he_al = mem_ok, he_vn = list_varnish, he_vi = \<lparr>vi_client_ip = None, vi_client_port = None,
       vi_server_ip = None, vi_local_port = None, vi_identity = None\<rparr>, he_ne = call_net, he_vsl = True,
     he_time = (0, 0)\<rparr>"

lemma plain_env_ok: "env_ok plain_env"
  by (simp add: env_ok_def plain_env_def varnish_small_def list_varnish_def vi_small_def http_small_def small_def buf_len_def)

lemma fresh_guest_inv: "guest_inv 65536 fresh_guest"
  by (simp add: guest_inv_def fresh_guest_def host_inv_def body_small_def ctx_inv_defs pctx_zero_def small_def
      buf_len_def alloc_limited_def trailers_ok_def)



text \<open>C40: a guest can make the host write outside its memory when the body is allowed to grow to 4 GiB.
  Inserting one byte at the front of the body over and over, every allocation succeeding, takes its length
  to exactly \<open>2^32\<close>; reading the buffer then asks the guest's allocator for \<open>2^32 mod 2^32 = 0\<close> bytes, checks
  a region of length 0, and copies \<open>2^32\<close> bytes.\<close>

theorem body_growth_overruns:
  assumes "env_ok env" "\<forall>k. he_al env k" "pw_validate_region (hs_ctx st) 0 1" "length (memory (hs_ctx st)) < 2 ^ 32"
    and "allocator_valid (hs_ctx st)" "\<forall>n m. allocator (hs_ctx st) n m = (Some 0, m)"
    and "buffer_data (hs_ctx st) 0 = Inr base" "buf_len base < 2 ^ 32"
  shows "\<exists>st'. (guest_step L (\<lambda>_. True))\<^sup>*\<^sup>* st st' \<and> mem_fault (hs_ctx st')"
proof -
  obtain nb c x y where c: "(guest_step L (\<lambda>_. True))\<^sup>*\<^sup>* st (st\<lparr>hs_ctx := c\<rparr>)" "buffer_data c 0 = Inr nb"
    "buf_len nb = buf_len base + (2 ^ 32 - buf_len base)" "c = hs_ctx st\<lparr>modified_body := x, body_modified := y\<rparr>"
    using body_grows [OF assms(1-3,7), of "2 ^ 32 - buf_len base" L] assms(8) by auto
  have len: "buf_len nb = 2 ^ 32" using c(3) assms(8) by simp
  then obtain b where b: "nb = Some b" "length b = 2 ^ 32" by (cases nb) (simp_all add: buf_len_def)
  have "mem_fault (fst (pw_proxy_get_buffer_bytes c (\<lambda>_. 0)))"
    using b c(2) assms(3-6) by (intro oversized_read_overruns [of c b]) (simp_all add: c(4) validate_region_iff)
  moreover have "host_call env ''proxy_get_buffer_bytes'' (\<lambda>_. I32 0) (st\<lparr>hs_ctx := c\<rparr>) =
      Some (st\<lparr>hs_ctx := fst (pw_proxy_get_buffer_bytes c (\<lambda>_. 0))\<rparr>)"
    by (simp add: host_call_def proxy_imports_def on_ctx_def of_i32_def split: prod.split)
  ultimately show ?thesis
    using rtranclp.rtrancl_into_rtrancl [OF c(1) host_step [OF assms(1)]] by fastforce
qed

theorem body_growth_overruns_witness:
  "\<exists>st'. (guest_step 65536 (\<lambda>_. True))\<^sup>*\<^sup>* fresh_guest st' \<and> mem_fault (hs_ctx st')"
  by (rule body_growth_overruns [OF plain_env_ok, where base = None])
    (simp_all add: plain_env_def fresh_guest_def pctx_zero_def validate_region_iff buffer_data_def proxy_buffer_types
      buf_len_def)



end
