(* ===== verification/Runtime.thy ===== *)
theory Runtime
  imports Host_Table
begin

text \<open>
  Wasmtime as the sources use it, and the helpers of \<^verbatim>\<open>src/wasm_engine.c\<close> that call into a guest. Compiled
  modules are handles; what Wasmtime does with them is the record \<open>wasmtime\<close>, a parameter of everything that
  runs a guest: whether a store can be made, the memory and globals of a fresh instance (\<open>None\<close> for an error or
  a trap), the exports of a module, its allocator, and what a call of an exported function does to the
  state. The only thing assumed of a call is that the guest acts through the proxy-wasm functions it imports and on
  its own memory: \<open>guest_bound\<close>. Modules that in such a run also call the functions of \<open>Host_Functions\<close>, which
  expect another context, are outside of it.
\<close>

datatype extern_kind = WASMTIME_EXTERN_FUNC | WASMTIME_EXTERN_MEMORY | WASMTIME_EXTERN_OTHER

text \<open>How a call ended: with its result (0 for a function without one), an error or a trap.\<close>

datatype call_outcome = Call_Done u32 | Call_Error | Call_Trap

text \<open>What a running guest works on: the state the host functions see, and its own globals.\<close>

record run_state =
  rs_host :: host_state
  rs_globals :: "u64 list"

record wasmtime =
  wt_store_new :: "nat \<Rightarrow> bool"
  wt_instantiate :: "nat \<Rightarrow> nat \<Rightarrow> (bytes \<times> u64 list) option"
  wt_export :: "nat \<Rightarrow> bytes \<Rightarrow> extern_kind option"
  wt_alloc :: "nat \<Rightarrow> bytes \<Rightarrow> u32 \<Rightarrow> bytes \<Rightarrow> u32 option \<times> bytes"
  wt_call :: "nat \<Rightarrow> bytes \<Rightarrow> u32 list \<Rightarrow> run_state \<Rightarrow> run_state \<times> call_outcome"

definition is_func :: "wasmtime \<Rightarrow> nat \<Rightarrow> bytes \<Rightarrow> bool" where
  "is_func wt pre name \<longleftrightarrow> wt_export wt pre name = Some WASMTIME_EXTERN_FUNC"

text \<open>The law: a call is a run of the guest, within \<open>L\<close> bytes of memory.\<close>

definition guest_bound :: "nat \<Rightarrow> wasmtime \<Rightarrow> bool" where
  "guest_bound L wt \<longleftrightarrow>
     (\<forall>pre name args rs. (guest_step L body_small)\<^sup>*\<^sup>* (rs_host rs) (rs_host (fst (wt_call wt pre name args rs)))) \<and>
     (\<forall>pre name. alloc_limited L (wt_alloc wt pre name)) \<and>
     (\<forall>pre k m g. wt_instantiate wt pre k = Some (m, g) \<longrightarrow> length m \<le> L)"

section \<open>Calling a guest\<close>

text \<open>The result, and whether the C helper returned 0. The two helpers differ in that one has no result.\<close>

definition call_wasm_func ::
  "wasmtime \<Rightarrow> nat \<Rightarrow> bytes \<Rightarrow> u32 list \<Rightarrow> run_state \<Rightarrow> run_state \<times> u32 option" where
  "call_wasm_func wt pre func_name args rs =
     (case wt_export wt pre func_name of
        None \<Rightarrow> (rs, None)
      | Some kind \<Rightarrow>
          if kind \<noteq> WASMTIME_EXTERN_FUNC then (rs, None)
          else (case wt_call wt pre func_name args rs of
                  (rs, Call_Error) \<Rightarrow> (rs, None)
                | (rs, Call_Trap) \<Rightarrow> (rs, None)
                | (rs, Call_Done r) \<Rightarrow> (rs, Some r)))"

definition call_wasm_void :: "wasmtime \<Rightarrow> nat \<Rightarrow> bytes \<Rightarrow> u32 list \<Rightarrow> run_state \<Rightarrow> run_state \<times> bool" where
  "call_wasm_void wt pre func_name args rs =
     (case wt_export wt pre func_name of
        None \<Rightarrow> (rs, False)
      | Some kind \<Rightarrow>
          if kind \<noteq> WASMTIME_EXTERN_FUNC then (rs, False)
          else (case wt_call wt pre func_name args rs of
                  (rs, Call_Error) \<Rightarrow> (rs, False)
                | (rs, Call_Trap) \<Rightarrow> (rs, False)
                | (rs, Call_Done _) \<Rightarrow> (rs, True)))"

section \<open>Setting up and closing a context\<close>

text \<open>The three accessors called when a context is set up, and the stores the context points to when it is
  left. Allocations 0 to 1 and 2 to 3 are those of the first two, 4 that of the third.\<close>

definition open_stores :: "malloc \<Rightarrow> global_stores \<Rightarrow> proxy_ctx \<Rightarrow> global_stores \<times> proxy_ctx" where
  "open_stores al g ctx =
     (case vwasm_proxy_wasm_get_shared_data al (al 1) g of (g, sd) \<Rightarrow>
      case vwasm_proxy_wasm_get_queue_store (\<lambda>k. al (2 + k)) (al 3) g of (g, qs) \<Rightarrow>
      case vwasm_proxy_wasm_get_metric_store (\<lambda>k. al (4 + k)) g of (g, ms) \<Rightarrow>
        (g, ctx\<lparr>shared_data_p := sd, queue_store_p := qs, metric_store_p := ms\<rparr>))"

definition close_stores :: "proxy_ctx \<Rightarrow> global_stores \<Rightarrow> global_stores" where
  "close_stores ctx g = g\<lparr>global_shared_data := shared_data_p ctx, global_queue_store := queue_store_p ctx,
     global_metric_store := metric_store_p ctx\<rparr>"

text \<open>Resolving the memory and the allocator of an instance: \<open>proxy_on_memory_allocate\<close>, or else \<open>malloc\<close>.\<close>

definition resolve_memory :: "wasmtime \<Rightarrow> nat \<Rightarrow> bytes \<Rightarrow> proxy_ctx \<Rightarrow> proxy_ctx" where
  "resolve_memory wt pre mem ctx =
     (let ctx = ctx\<lparr>memory := mem\<rparr> in
      if wt_export wt pre ''memory'' = Some WASMTIME_EXTERN_MEMORY then ctx\<lparr>memory_valid := True\<rparr> else ctx)"

definition resolve_allocator :: "wasmtime \<Rightarrow> nat \<Rightarrow> proxy_ctx \<Rightarrow> proxy_ctx" where
  "resolve_allocator wt pre ctx =
     (if is_func wt pre ''proxy_on_memory_allocate''
      then ctx\<lparr>allocator := wt_alloc wt pre ''proxy_on_memory_allocate'', allocator_valid := True\<rparr>
      else if is_func wt pre ''malloc''
      then ctx\<lparr>allocator := wt_alloc wt pre ''malloc'', allocator_valid := True\<rparr>
      else ctx)"

section \<open>Lemmas\<close>

text \<open>Both helpers are runs of the guest, so what no guest can break they keep.\<close>

definition guest_reach :: "nat \<Rightarrow> run_state \<Rightarrow> run_state \<Rightarrow> bool" where
  "guest_reach L rs rs' \<longleftrightarrow> (guest_step L body_small)\<^sup>*\<^sup>* (rs_host rs) (rs_host rs')"

lemma guest_reach_refl [simp]: "guest_reach L rs rs"
  by (simp add: guest_reach_def)

lemma guest_reach_trans: "guest_reach L a b \<Longrightarrow> guest_reach L b c \<Longrightarrow> guest_reach L a c"
  unfolding guest_reach_def by (rule rtranclp_trans)

lemma call_reach: "guest_bound L wt \<Longrightarrow> wt_call wt pre name args rs = (rs', r) \<Longrightarrow> guest_reach L rs rs'"
  unfolding guest_reach_def guest_bound_def by (metis fst_conv)

lemma func_reach: "guest_bound L wt \<Longrightarrow> call_wasm_func wt pre name args rs = (rs', r) \<Longrightarrow> guest_reach L rs rs'"
  by (auto simp: call_wasm_func_def dest: call_reach split: option.splits if_splits prod.splits call_outcome.splits)

lemma void_reach: "guest_bound L wt \<Longrightarrow> call_wasm_void wt pre name args rs = (rs', r) \<Longrightarrow> guest_reach L rs rs'"
  by (auto simp: call_wasm_void_def dest: call_reach split: option.splits if_splits prod.splits call_outcome.splits)

lemma reach_inv_guest: "guest_reach L rs rs' \<Longrightarrow> guest_inv L (rs_host rs) \<Longrightarrow> guest_inv L (rs_host rs')"
  unfolding guest_reach_def by (rule guest.run_keeps)

end
