(* ===== verification/Store_Pool.thy ===== *)
theory Store_Pool
  imports Runtime
begin

text \<open>
  Warm instances and the pool of pre-instantiated stores: \<^verbatim>\<open>src/store_pool.c\<close>, and the functions of
  \<^verbatim>\<open>src/wasm_engine.c\<close> that keep a pool per module. Acquire and release are functions of the pool here; how
  they run when several threads use a pool at once is in \<open>Pool_Threads\<close>.
\<close>

section \<open>Warm instances\<close>

text \<open>The calls of the initialization, each made if the export is present; the first error or trap ends it.\<close>

fun run_init :: "wasmtime \<Rightarrow> nat \<Rightarrow> (bool \<times> bytes \<times> u32 list) list \<Rightarrow> run_state \<Rightarrow> run_state \<times> bool" where
  "run_init wt pre [] rs = (rs, True)"
| "run_init wt pre ((present, name, args) # cs) rs =
     (if present \<and> is_func wt pre name
      then (case wt_call wt pre name args rs of
              (rs, Call_Done _) \<Rightarrow> run_init wt pre cs rs
            | (rs, _) \<Rightarrow> (rs, False))
      else run_init wt pre cs rs)"

definition warm_probe :: "wasmtime \<Rightarrow> nat \<Rightarrow> warm_instance" where
  "warm_probe wt pre = warm_zero
     \<lparr>has_initialize := is_func wt pre ''_initialize'',
      has_on_context_create := is_func wt pre ''proxy_on_context_create'',
      has_on_vm_start := is_func wt pre ''proxy_on_vm_start'',
      has_on_configure := is_func wt pre ''proxy_on_configure'',
      has_request_headers := is_func wt pre ''proxy_on_request_headers'',
      has_request_body := is_func wt pre ''proxy_on_request_body'',
      has_response_headers := is_func wt pre ''proxy_on_response_headers'',
      has_response_body := is_func wt pre ''proxy_on_response_body'',
      has_on_log := is_func wt pre ''proxy_on_log'',
      has_on_done := is_func wt pre ''proxy_on_done'',
      has_on_delete := is_func wt pre ''proxy_on_delete'',
      has_allocator := is_func wt pre ''proxy_on_memory_allocate'' \<or> is_func wt pre ''malloc''\<rparr>"

definition opt_strlen :: "bytes option \<Rightarrow> nat" where
  "opt_strlen s = (case s of None \<Rightarrow> 0 | Some b \<Rightarrow> length (cstr b))"

text \<open>The context of the initialization. \<open>mem\<close> is the memory of the fresh instance.\<close>

definition warm_context ::
  "malloc \<Rightarrow> wasmtime \<Rightarrow> wasm_module_entry \<Rightarrow> bytes option \<Rightarrow> bytes option \<Rightarrow> bytes \<Rightarrow> global_stores
   \<Rightarrow> global_stores \<times> proxy_ctx" where
  "warm_context al wt entry vm_cfg plugin_cfg mem g =
     (case open_stores al g ((pctx_zero [] (\<lambda>_ m. (None, m)))
             \<lparr>engine_set := True, wasm_ctx := True, root_context_id := 1, stream_context_id := 2,
              mod_name := Some (me_name entry), vm_config := map_option cstr vm_cfg,
              plugin_config := map_option cstr plugin_cfg\<rparr>) of
        (g, ctx) \<Rightarrow> (g, resolve_allocator wt (me_pre entry) (resolve_memory wt (me_pre entry) mem ctx)))"

text \<open>The warm instance, the engine and the stores afterwards, and the result. Store creation 0 is the
  temporary store, allocation 5 the snapshot.\<close>

definition vwasm_warm_instance_create ::
  "malloc \<Rightarrow> wasmtime \<Rightarrow> vwasm_engine option \<Rightarrow> wasm_module_entry option \<Rightarrow> bytes option \<Rightarrow> bytes option \<Rightarrow> global_stores
   \<Rightarrow> warm_instance \<times> vwasm_engine option \<times> global_stores \<times> int" where
  "vwasm_warm_instance_create al wt engine entryp vm_cfg plugin_cfg g =
     (case (engine, entryp) of
        (Some e, Some entry) \<Rightarrow>
          (let pre = me_pre entry in
           if \<not> wt_store_new wt 0 then (warm_zero, engine, g, -1)
           else
             (case wt_instantiate wt pre 0 of
                None \<Rightarrow>
                  (warm_zero, engine, fst (warm_context al wt entry vm_cfg plugin_cfg [] g), -1)
              | Some (mem, globs) \<Rightarrow>
                  (case warm_context al wt entry vm_cfg plugin_cfg mem g of
                     (g, ctx) \<Rightarrow>
                       (let warm = warm_probe wt pre;
                            rs = \<lparr>rs_host = \<lparr>hs_ctx = ctx, hs_engine = Some e, hs_log = []\<rparr>, rs_globals = globs\<rparr>
                        in case run_init wt pre
                                  [(has_initialize warm, ''_initialize'', []),
                                   (has_on_context_create warm, ''proxy_on_context_create'', [1, 0]),
                                   (has_on_vm_start warm, ''proxy_on_vm_start'', [1, of_nat (opt_strlen vm_cfg)]),
                                   (has_on_configure warm, ''proxy_on_configure'', [1, of_nat (opt_strlen plugin_cfg)])]
                                  rs of
                             (rs, ok) \<Rightarrow>
                               (let mem = memory (hs_ctx (rs_host rs));
                                    g = close_stores (hs_ctx (rs_host rs)) g;
                                    engine = hs_engine (rs_host rs)
                                in if \<not> ok \<or> wt_export wt pre ''memory'' \<noteq> Some WASMTIME_EXTERN_MEMORY \<or>
                                      mem = [] \<or> \<not> al 5
                                   then (warm, engine, g, -1)
                                   else (warm\<lparr>memory_snapshot := Some mem, snapshot_size := length mem,
                                              memory_pages := length mem div 65536, warm_valid := True\<rparr>,
                                         engine, g, 0))))))
      | _ \<Rightarrow> (warm_zero, engine, g, -1))"

definition vwasm_warm_instance_destroy :: "warm_instance \<Rightarrow> warm_instance" where
  "vwasm_warm_instance_destroy warm =
     warm\<lparr>memory_snapshot := None, warm_valid := False, snapshot_size := 0, memory_pages := 0\<rparr>"

text \<open>The memory afterwards and the result.\<close>

definition vwasm_warm_instance_restore :: "warm_instance option \<Rightarrow> bytes \<Rightarrow> bytes \<times> int" where
  "vwasm_warm_instance_restore warmp mem =
     (case warmp of
        None \<Rightarrow> (mem, -1)
      | Some warm \<Rightarrow>
          if \<not> warm_valid warm then (mem, -1)
          else (case memory_snapshot warm of
                  None \<Rightarrow> (mem, -1)
                | Some snap \<Rightarrow>
                    if length mem < snapshot_size warm then (mem, -1)
                    else (take (snapshot_size warm) snap @ drop (snapshot_size warm) mem, 0)))"

section \<open>Creating and destroying a pool\<close>

definition vwasm_engine_get_epoch_deadline_ms :: "'z vwasm_engine_scheme option \<Rightarrow> u64" where
  "vwasm_engine_get_epoch_deadline_ms engine = (case engine of None \<Rightarrow> 100 | Some e \<Rightarrow> epoch_deadline_ms e)"

definition vwasm_engine_get_mem_limit :: "'z vwasm_engine_scheme option \<Rightarrow> u64" where
  "vwasm_engine_get_mem_limit engine = (case engine of None \<Rightarrow> VWASM_DEFAULT_MEMLIMIT | Some e \<Rightarrow> memory_limit e)"

text \<open>Store creation and instantiation number \<open>slot_idx\<close>; \<open>None\<close> is -1.\<close>

definition pool_init_slot :: "wasmtime \<Rightarrow> vwasm_engine \<Rightarrow> nat \<Rightarrow> nat \<Rightarrow> pooled_store option" where
  "pool_init_slot wt e entry slot_idx =
     (let pre = me_pre (eng_modules e ! entry) in
      if \<not> wt_store_new wt slot_idx then None
      else case wt_instantiate wt pre slot_idx of
             None \<Rightarrow> None
           | Some (mem, globs) \<Rightarrow>
               Some \<lparr>ps_store = Some \<lparr>ws_memory = mem, ws_globals = globs,
                                    ws_deadline = vwasm_engine_get_epoch_deadline_ms (Some e), ws_data = False\<rparr>,
                     ps_memory_valid = (wt_export wt pre ''memory'' = Some WASMTIME_EXTERN_MEMORY),
                     ps_allocator_valid = (is_func wt pre ''proxy_on_memory_allocate'' \<or> is_func wt pre ''malloc''),
                     ps_module_entry = entry, ps_seq = 0, ps_slot_idx = of_nat slot_idx\<rparr>)"

text \<open>Restoring the snapshot into the memory of a store.\<close>

definition restore_store :: "warm_instance option \<Rightarrow> pooled_store \<Rightarrow> pooled_store" where
  "restore_store warmp ps =
     ps\<lparr>ps_store := map_option (\<lambda>st. st\<lparr>ws_memory := fst (vwasm_warm_instance_restore warmp (ws_memory st))\<rparr>)
          (ps_store ps)\<rparr>"

definition warm_usable :: "warm_instance option \<Rightarrow> bool" where
  "warm_usable warmp = (case warmp of None \<Rightarrow> False | Some w \<Rightarrow> warm_valid w)"

definition pool_slot :: "wasmtime \<Rightarrow> warm_instance option \<Rightarrow> vwasm_engine \<Rightarrow> nat \<Rightarrow> nat \<Rightarrow> nat option \<times> pooled_store" where
  "pool_slot wt warmp e entry i =
     (case pool_init_slot wt e entry i of
        None \<Rightarrow> (None, ps_zero)
      | Some ps \<Rightarrow> (Some i, if warm_usable warmp \<and> ps_memory_valid ps then restore_store warmp ps else ps))"

text \<open>\<open>warm_idx\<close> is the warm instance the caller points to. Allocations 0 to 3 are the pool and its arrays.\<close>

definition vwasm_store_pool_new ::
  "malloc \<Rightarrow> wasmtime \<Rightarrow> nat \<Rightarrow> nat option \<Rightarrow> vwasm_engine option \<Rightarrow> nat option \<Rightarrow> store_pool option" where
  "vwasm_store_pool_new al wt pool_size warm_idx engine entryp =
     (case (engine, entryp) of
        (Some e, Some entry) \<Rightarrow>
          (let pool_size = (if pool_size < VWASM_POOL_MIN_SIZE then VWASM_POOL_MIN_SIZE else pool_size);
               pool_size = (if pool_size > VWASM_POOL_MAX_SIZE then VWASM_POOL_MAX_SIZE else pool_size);
               warmp = map_option ((!) (warm_instances e)) warm_idx
           in if \<not> al 0 then None
              else if \<not> al 1 then None
              else if \<not> al 2 then None
              else if \<not> al 3 then None
              else
                (let slots = map (pool_slot wt warmp e entry) [0 ..< pool_size] in
                 Some \<lparr>sp_slots = map fst slots, sp_capacity = pool_size, sp_acquires = 0, sp_releases = 0,
                       sp_fallbacks = 0, sp_resets = 0, sp_warm_ref = warm_idx, sp_objects = map snd slots,
                       sp_in_use = replicate pool_size False, sp_scan_hint = 0\<rparr>))
      | _ \<Rightarrow> None)"

text \<open>How many stores are deleted.\<close>

definition vwasm_store_pool_destroy :: "store_pool option \<Rightarrow> store_pool option \<times> nat" where
  "vwasm_store_pool_destroy poolp =
     (case poolp of
        None \<Rightarrow> (None, 0)
      | Some pool \<Rightarrow> (None, length (filter (\<lambda>ps. ps_store ps \<noteq> None) (sp_objects pool))))"

section \<open>Acquire and release\<close>

text \<open>The store in slot \<open>idx\<close>, if it was initialized.\<close>

definition slot_store :: "store_pool \<Rightarrow> nat \<Rightarrow> pooled_store option" where
  "slot_store pool idx =
     (case sp_slots pool ! idx of
        None \<Rightarrow> None
      | Some j \<Rightarrow> if ps_store (sp_objects pool ! j) = None then None else Some (sp_objects pool ! j))"

text \<open>The slot looked at in round \<open>i\<close>: the sum is a 64-bit one.\<close>

definition scan_idx :: "store_pool \<Rightarrow> u64 \<Rightarrow> nat \<Rightarrow> nat" where
  "scan_idx pool start i = unat (start + of_nat i) mod sp_capacity pool"

text \<open>What is done to a claimed slot before it is handed out: the snapshot, the deadline, the counters.\<close>

definition take_slot :: "warm_instance option \<Rightarrow> u64 \<Rightarrow> nat \<Rightarrow> store_pool \<Rightarrow> store_pool" where
  "take_slot warmp deadline idx pool =
     (let j = the (sp_slots pool ! idx);
          ps = sp_objects pool ! j;
          reset = (warm_usable warmp \<and> ps_memory_valid ps);
          ps = (if reset then restore_store warmp ps else ps);
          pool = (if reset then pool\<lparr>sp_resets := sp_resets pool + 1\<rparr> else pool);
          ps = ps\<lparr>ps_store := map_option (\<lambda>st. st\<lparr>ws_deadline := deadline\<rparr>) (ps_store ps), ps_seq := ps_seq ps + 1\<rparr>
      in pool\<lparr>sp_objects := (sp_objects pool)[j := ps], sp_acquires := sp_acquires pool + 1\<rparr>)"

fun acquire_scan :: "warm_instance option \<Rightarrow> u64 \<Rightarrow> u64 \<Rightarrow> nat \<Rightarrow> nat \<Rightarrow> store_pool \<Rightarrow> store_pool \<times> nat option" where
  "acquire_scan warmp deadline start i 0 pool = (pool\<lparr>sp_fallbacks := sp_fallbacks pool + 1\<rparr>, None)"
| "acquire_scan warmp deadline start i (Suc n) pool =
     (let idx = scan_idx pool start i in
      if \<not> sp_in_use pool ! idx then
        (let pool = pool\<lparr>sp_in_use := (sp_in_use pool)[idx := True]\<rparr> in
         case slot_store pool idx of
           None \<Rightarrow>
             acquire_scan warmp deadline start (i + 1) n (pool\<lparr>sp_in_use := (sp_in_use pool)[idx := False]\<rparr>)
         | Some ps \<Rightarrow> (take_slot warmp deadline idx pool, Some idx))
      else acquire_scan warmp deadline start (i + 1) n pool)"

text \<open>\<open>warmp\<close> is what \<open>warm_ref\<close> points to, \<open>deadline\<close> the engine's; the slot acquired, or \<open>None\<close> for NULL.\<close>

definition vwasm_store_pool_acquire ::
  "warm_instance option \<Rightarrow> u64 \<Rightarrow> store_pool option \<Rightarrow> store_pool option \<times> nat option" where
  "vwasm_store_pool_acquire warmp deadline poolp =
     (case poolp of
        None \<Rightarrow> (None, None)
      | Some pool \<Rightarrow>
          (let start = sp_scan_hint pool;
               pool = pool\<lparr>sp_scan_hint := start + 1\<rparr>
           in case acquire_scan warmp deadline start 0 (sp_capacity pool) pool of (pool, r) \<Rightarrow> (Some pool, r)))"

text \<open>The store's data pointer is cleared, then the flag of the slot the object names.\<close>

definition vwasm_store_pool_release :: "store_pool option \<Rightarrow> nat option \<Rightarrow> store_pool option" where
  "vwasm_store_pool_release poolp psp =
     (case (poolp, psp) of
        (Some pool, Some j) \<Rightarrow>
          (let ps = sp_objects pool ! j;
               ps = ps\<lparr>ps_store := map_option (\<lambda>st. st\<lparr>ws_data := False\<rparr>) (ps_store ps)\<rparr>
           in Some (pool\<lparr>sp_objects := (sp_objects pool)[j := ps],
                         sp_in_use := (sp_in_use pool)[unat (ps_slot_idx ps) := False],
                         sp_releases := sp_releases pool + 1\<rparr>))
      | _ \<Rightarrow> poolp)"

definition vwasm_store_pool_stats_json :: "malloc \<Rightarrow> store_pool option \<Rightarrow> bytes option" where
  "vwasm_store_pool_stats_json al poolp =
     (case poolp of
        None \<Rightarrow> None
      | Some pool \<Rightarrow>
          if \<not> al 0 then None
          else
            (let s = ''{\"capacity\":'' @ dec (sp_capacity pool) @ '',\"acquires\":'' @ dec (unat (sp_acquires pool)) @
                     '',\"releases\":'' @ dec (unat (sp_releases pool)) @ '',\"fallbacks\":'' @
                     dec (unat (sp_fallbacks pool)) @ '',\"resets\":'' @ dec (unat (sp_resets pool)) @ ''}''
             in if length s \<ge> 512 then None else Some s))"

section \<open>The pools of an engine\<close>

definition VWASM_DEFAULT_STORE_POOL_SIZE :: nat where "VWASM_DEFAULT_STORE_POOL_SIZE = 8"

definition vwasm_engine_get_pool :: "vwasm_engine option \<Rightarrow> int \<Rightarrow> store_pool option" where
  "vwasm_engine_get_pool engine idx =
     (case engine of
        None \<Rightarrow> None
      | Some e \<Rightarrow> if idx < 0 \<or> idx \<ge> int (length (eng_modules e)) then None else eng_pools e ! nat idx)"

text \<open>Wasmtime after its first store: what the second part of an operation sees.\<close>

definition after_first_store :: "wasmtime \<Rightarrow> wasmtime" where
  "after_first_store wt = wt\<lparr>wt_store_new := (\<lambda>k. wt_store_new wt (k + 1)),
     wt_instantiate := (\<lambda>pre k. wt_instantiate wt pre (k + 1))\<rparr>"

text \<open>A pool or a snapshot the engine already has for the module is overwritten, not freed.\<close>

definition vwasm_engine_init_pool ::
  "malloc \<Rightarrow> wasmtime \<Rightarrow> vwasm_engine option \<Rightarrow> bytes option \<Rightarrow> nat \<Rightarrow> bytes option \<Rightarrow> bytes option \<Rightarrow> global_stores
   \<Rightarrow> vwasm_engine option \<times> global_stores \<times> int" where
  "vwasm_engine_init_pool al wt engine module_name pool_size vm_cfg plugin_cfg g =
     (case (engine, module_name) of
        (Some e, Some name) \<Rightarrow>
          (case find_module e name of
             None \<Rightarrow> (engine, g, -1)
           | Some idx \<Rightarrow>
               if idx \<ge> MAX_MODULES then (engine, g, -1)
               else
                 (let pool_size = (if pool_size = 0 then VWASM_DEFAULT_STORE_POOL_SIZE else pool_size);
                      e = e\<lparr>store_pool_size := pool_size\<rparr>
                  in case vwasm_warm_instance_create al wt (Some e) (Some (eng_modules e ! idx)) vm_cfg plugin_cfg g of
                       (warm, engine, g, r) \<Rightarrow>
                         (let set_warm = (\<lambda>w. map_option (\<lambda>e. e\<lparr>warm_instances := (warm_instances e)[idx := w]\<rparr>));
                              set_pool = (\<lambda>p. map_option (\<lambda>e. e\<lparr>eng_pools := (eng_pools e)[idx := p]\<rparr>));
                              engine = set_warm warm engine
                          in if r \<noteq> 0 then (engine, g, -1)
                             else if has_initialize warm
                             then (set_warm (vwasm_warm_instance_destroy warm) engine, g, 0)
                             else
                               (let pool = vwasm_store_pool_new (\<lambda>k. al (6 + k)) (after_first_store wt) pool_size
                                             (Some idx) engine (Some idx);
                                    engine = set_pool pool engine
                                in if pool = None
                                   then (set_warm (vwasm_warm_instance_destroy warm) engine, g, -1)
                                   else (engine, g, 0)))))
      | _ \<Rightarrow> (engine, g, -1))"

text \<open>The engine without its pools, and the number of stores deleted.\<close>

definition destroy_pool_at :: "nat \<Rightarrow> vwasm_engine \<times> nat \<Rightarrow> vwasm_engine \<times> nat" where
  "destroy_pool_at i en =
     (case en of (e, n) \<Rightarrow>
        case vwasm_store_pool_destroy (eng_pools e ! i) of
          (p, k) \<Rightarrow>
            (let e = e\<lparr>eng_pools := (eng_pools e)[i := p]\<rparr>;
                 w = warm_instances e ! i
             in (if warm_valid w then e\<lparr>warm_instances := (warm_instances e)[i := vwasm_warm_instance_destroy w]\<rparr> else e,
                 n + k)))"

definition vwasm_engine_destroy_pools :: "vwasm_engine option \<Rightarrow> vwasm_engine option \<times> nat" where
  "vwasm_engine_destroy_pools engine =
     (case engine of
        None \<Rightarrow> (None, 0)
      | Some e \<Rightarrow> (case fold destroy_pool_at [0 ..< MAX_MODULES] (e, 0) of (e, n) \<Rightarrow> (Some e, n)))"

definition vwasm_engine_get_pool_stats_json :: "malloc \<Rightarrow> vwasm_engine option \<Rightarrow> bytes option \<Rightarrow> bytes option" where
  "vwasm_engine_get_pool_stats_json al engine module_name =
     (case (engine, module_name) of
        (Some e, Some name) \<Rightarrow>
          (case find_module e name of
             None \<Rightarrow> None
           | Some idx \<Rightarrow>
               if idx \<ge> MAX_MODULES \<or> eng_pools e ! idx = None then None
               else vwasm_store_pool_stats_json al (eng_pools e ! idx))
      | _ \<Rightarrow> None)"

text \<open>The timers left allocated, the stores deleted and the descriptors closed.\<close>

definition vwasm_engine_destroy ::
  "vwasm_engine option \<Rightarrow> vwasm_engine option \<times> (nat \<Rightarrow> tick_timer option) \<times> nat \<times> int list" where
  "vwasm_engine_destroy enginep =
     (case enginep of
        None \<Rightarrow> (None, Map.empty, 0, [])
      | Some e \<Rightarrow>
          (let e = fold stop_timer [0 ..< MAX_MODULES] e;
               closed = fst (snd (vwasm_http_pool_destroy (eng_http_pool e)))
           in (None, timer_heap e, snd (vwasm_engine_destroy_pools (Some e)), closed)))"

section \<open>Lemmas: the shape of a pool\<close>

definition pool_shape :: "store_pool \<Rightarrow> bool" where
  "pool_shape pool \<longleftrightarrow> 0 < sp_capacity pool \<and> sp_capacity pool \<le> VWASM_POOL_MAX_SIZE \<and>
     length (sp_slots pool) = sp_capacity pool \<and> length (sp_objects pool) = sp_capacity pool \<and>
     length (sp_in_use pool) = sp_capacity pool \<and>
     (\<forall>i < sp_capacity pool. sp_slots pool ! i = None \<or>
        (sp_slots pool ! i = Some i \<and> ps_store (sp_objects pool ! i) \<noteq> None \<and>
         unat (ps_slot_idx (sp_objects pool ! i)) = i))"

lemma scan_idx_lt: "pool_shape pool \<Longrightarrow> scan_idx pool start i < sp_capacity pool"
  by (simp add: pool_shape_def scan_idx_def)

lemma slot_store_cases:
  assumes "pool_shape pool" "i < sp_capacity pool"
  obtains (empty) "sp_slots pool ! i = None" "slot_store pool i = None"
    | (full) "sp_slots pool ! i = Some i" "slot_store pool i = Some (sp_objects pool ! i)"
        "ps_store (sp_objects pool ! i) \<noteq> None" "unat (ps_slot_idx (sp_objects pool ! i)) = i"
  using assms unfolding pool_shape_def slot_store_def by (cases "sp_slots pool ! i") auto

text \<open>An object of the shape may be replaced by one with a store and the same slot number.\<close>

lemma pool_shape_object:
  assumes "pool_shape pool" and "ps_slot_idx ps = ps_slot_idx (sp_objects pool ! i)" and "ps_store ps \<noteq> None"
  shows "pool_shape (pool\<lparr>sp_objects := (sp_objects pool)[i := ps]\<rparr>)"
  using assms by (auto simp: pool_shape_def nth_list_update_if)

lemma pool_shape_flags [simp]:
  "pool_shape (pool\<lparr>sp_in_use := (sp_in_use pool)[i := b]\<rparr>) = pool_shape pool"
  "pool_shape (pool\<lparr>sp_scan_hint := h\<rparr>) = pool_shape pool"
  "pool_shape (pool\<lparr>sp_fallbacks := h\<rparr>) = pool_shape pool"
  "pool_shape (pool\<lparr>sp_releases := h\<rparr>) = pool_shape pool"
  "pool_shape (pool\<lparr>sp_acquires := h\<rparr>) = pool_shape pool"
  "pool_shape (pool\<lparr>sp_resets := h\<rparr>) = pool_shape pool"
  by (simp_all add: pool_shape_def)

lemma restore_store_simps [simp]:
  "ps_slot_idx (restore_store w ps) = ps_slot_idx ps"
  "ps_memory_valid (restore_store w ps) = ps_memory_valid ps"
  "(ps_store (restore_store w ps) = None) = (ps_store ps = None)"
  by (simp_all add: restore_store_def)

text \<open>What a slot's object becomes when it is handed out.\<close>

definition taken :: "warm_instance option \<Rightarrow> u64 \<Rightarrow> pooled_store \<Rightarrow> pooled_store" where
  "taken w d ps =
     (let ps = (if warm_usable w \<and> ps_memory_valid ps then restore_store w ps else ps)
      in ps\<lparr>ps_store := map_option (\<lambda>st. st\<lparr>ws_deadline := d\<rparr>) (ps_store ps), ps_seq := ps_seq ps + 1\<rparr>)"

lemma taken_simps [simp]:
  "ps_slot_idx (taken w d ps) = ps_slot_idx ps" "(ps_store (taken w d ps) = None) = (ps_store ps = None)"
  by (simp_all add: taken_def Let_def)

lemma take_slot_object:
  "sp_objects (take_slot w d idx pool) =
     (sp_objects pool)[the (sp_slots pool ! idx) := taken w d (sp_objects pool ! the (sp_slots pool ! idx))]"
  by (simp add: take_slot_def taken_def Let_def)

lemma take_slot_simps [simp]:
  "sp_in_use (take_slot w d idx pool) = sp_in_use pool" "sp_slots (take_slot w d idx pool) = sp_slots pool"
  "sp_capacity (take_slot w d idx pool) = sp_capacity pool" "sp_releases (take_slot w d idx pool) = sp_releases pool"
  "sp_acquires (take_slot w d idx pool) = sp_acquires pool + 1"
  "sp_scan_hint (take_slot w d idx pool) = sp_scan_hint pool" "sp_fallbacks (take_slot w d idx pool) = sp_fallbacks pool"
  by (simp_all add: take_slot_def Let_def)

lemma take_slot_shape:
  assumes "pool_shape pool" "idx < sp_capacity pool" "slot_store pool idx = Some ps"
  shows "pool_shape (take_slot w d idx pool)"
proof -
  have *: "sp_slots pool ! idx = Some idx" "ps_store (sp_objects pool ! idx) \<noteq> None"
    using slot_store_cases [OF assms(1,2)] assms(3) by force+
  have "pool_shape (pool\<lparr>sp_objects := (sp_objects pool)[idx := taken w d (sp_objects pool ! idx)]\<rparr>)"
    by (rule pool_shape_object) (use assms(1) *(2) in simp_all)
  then show ?thesis by (simp add: pool_shape_def take_slot_object *)
qed

section \<open>Lemmas: a new pool\<close>

lemma pool_slot_index:
  assumes "pool_slot wt w e entry i = (s, ps)" "i < 2 ^ 32"
  shows "s = None \<or> (s = Some i \<and> ps_store ps \<noteq> None \<and> unat (ps_slot_idx ps) = i)"
proof (cases "pool_init_slot wt e entry i")
  case None
  then show ?thesis using assms by (simp add: pool_slot_def)
next
  case (Some p)
  then have "ps_store p \<noteq> None" "ps_slot_idx p = of_nat i"
    by (auto simp: pool_init_slot_def Let_def split: if_splits option.splits)
  then show ?thesis using Some assms by (auto simp: pool_slot_def restore_store_def unat_of_nat_u32 split: if_splits)
qed

lemma store_pool_new_fields:
  assumes "vwasm_store_pool_new al wt n wi engine entryp = Some pool"
  shows "pool_shape pool" "sp_in_use pool = replicate (sp_capacity pool) False"
    "sp_acquires pool = 0" "sp_releases pool = 0" "sp_fallbacks pool = 0" "sp_resets pool = 0"
    "sp_capacity pool = min (max n VWASM_POOL_MIN_SIZE) VWASM_POOL_MAX_SIZE"
proof -
  obtain e entry where ee: "engine = Some e" "entryp = Some entry"
    using assms by (auto simp: vwasm_store_pool_new_def split: option.splits)
  define c where "c = min (max n VWASM_POOL_MIN_SIZE) VWASM_POOL_MAX_SIZE"
  have clamp: "(let m = (if n < VWASM_POOL_MIN_SIZE then VWASM_POOL_MIN_SIZE else n)
                in if m > VWASM_POOL_MAX_SIZE then VWASM_POOL_MAX_SIZE else m) = c"
    by (simp add: c_def pool_limits Let_def)
  define f where "f = pool_slot wt (map_option ((!) (warm_instances e)) wi) e entry"
  have p: "pool = \<lparr>sp_slots = map (fst \<circ> f) [0 ..< c], sp_capacity = c, sp_acquires = 0, sp_releases = 0,
       sp_fallbacks = 0, sp_resets = 0, sp_warm_ref = wi, sp_objects = map (snd \<circ> f) [0 ..< c],
       sp_in_use = replicate c False, sp_scan_hint = 0\<rparr>"
    using assms clamp by (simp add: vwasm_store_pool_new_def ee Let_def f_def split: if_splits)
  have c: "0 < c" "c \<le> VWASM_POOL_MAX_SIZE" "c < 2 ^ 32" by (simp_all add: c_def pool_limits)
  have slot: "fst (f i) = None \<or> (fst (f i) = Some i \<and> ps_store (snd (f i)) \<noteq> None \<and> unat (ps_slot_idx (snd (f i))) = i)"
    if "i < c" for i
    using pool_slot_index [of wt "map_option ((!) (warm_instances e)) wi" e entry i "fst (f i)" "snd (f i)"]
      that c(3) by (simp add: f_def)
  show "pool_shape pool" using c slot by (simp add: pool_shape_def p)
  show "sp_in_use pool = replicate (sp_capacity pool) False" "sp_acquires pool = 0" "sp_releases pool = 0"
    "sp_fallbacks pool = 0" "sp_resets pool = 0" "sp_capacity pool = min (max n VWASM_POOL_MIN_SIZE) VWASM_POOL_MAX_SIZE"
    by (simp_all add: p c_def)
qed

section \<open>Lemmas: acquiring alone\<close>

text \<open>A slot an acquire can hand out.\<close>

definition available :: "store_pool \<Rightarrow> nat \<Rightarrow> bool" where
  "available pool idx \<longleftrightarrow> \<not> sp_in_use pool ! idx \<and> slot_store pool idx \<noteq> None"

lemma slot_store_flags [simp]:
  "slot_store (pool\<lparr>sp_in_use := l\<rparr>) idx = slot_store pool idx"
  "slot_store (pool\<lparr>sp_scan_hint := h\<rparr>) idx = slot_store pool idx"
  by (cases "sp_slots pool ! idx"; simp add: slot_store_def)+

lemma flag_same: "\<not> sp_in_use pool ! i \<Longrightarrow> pool\<lparr>sp_in_use := (sp_in_use pool)[i := False]\<rparr> = pool"
  using list_update_id [of "sp_in_use pool" i] by (cases pool) simp

text \<open>The scan passes over the slots that are not available without a trace and takes the first that is.\<close>

lemma acquire_scan_skip:
  "\<not> available pool (scan_idx pool start i) \<Longrightarrow>
     acquire_scan w d start i (Suc n) pool = acquire_scan w d start (i + 1) n pool"
  by (auto simp: available_def Let_def flag_same)

lemma acquire_scan_take:
  "available pool (scan_idx pool start i) \<Longrightarrow>
     acquire_scan w d start i (Suc n) pool =
       (take_slot w d (scan_idx pool start i)
          (pool\<lparr>sp_in_use := (sp_in_use pool)[scan_idx pool start i := True]\<rparr>), Some (scan_idx pool start i))"
  by (auto simp: available_def Let_def)

declare acquire_scan.simps(2) [simp del]

lemma acquire_scan_result:
  "acquire_scan w d start i n pool =
     (case find (\<lambda>k. available pool (scan_idx pool start k)) [i ..< i + n] of
        None \<Rightarrow> (pool\<lparr>sp_fallbacks := sp_fallbacks pool + 1\<rparr>, None)
      | Some k \<Rightarrow> (take_slot w d (scan_idx pool start k)
          (pool\<lparr>sp_in_use := (sp_in_use pool)[scan_idx pool start k := True]\<rparr>), Some (scan_idx pool start k)))"
proof (induction n arbitrary: i)
  case (Suc n)
  have "[i ..< i + Suc n] = i # [i + 1 ..< i + 1 + n]" by (simp add: upt_rec)
  then show ?case
    using Suc [of "i + 1"] by (cases "available pool (scan_idx pool start i)")
      (simp_all add: acquire_scan_take acquire_scan_skip)
qed simp

text \<open>Where the start does not wrap around, the scan looks at every slot.\<close>

lemma scan_covers:
  assumes "pool_shape pool" "unat start + sp_capacity pool \<le> 2 ^ 64" "idx < sp_capacity pool"
  obtains k where "k < sp_capacity pool" "scan_idx pool start k = idx"
proof -
  define c where "c = sp_capacity pool"
  define k where "k = (idx + (c - unat start mod c)) mod c"
  have c: "0 < c" using assms(3) by (simp add: c_def)
  have "k < c" using c by (simp add: k_def)
  have small: "unat start + k < 2 ^ 64" using assms(2) \<open>k < c\<close> by (simp add: c_def)
  have "unat (start + of_nat k) = unat start + k"
  proof -
    have "unat (of_nat k :: u64) = k" using small by (simp add: unat_of_nat take_bit_nat_eq_self)
    then show ?thesis using small by (simp add: unat_word_ariths)
  qed
  then have "scan_idx pool start k = (unat start + k) mod c" by (simp add: scan_idx_def c_def)
  also have "\<dots> = (unat start mod c + (idx + (c - unat start mod c))) mod c"
    by (simp add: k_def mod_add_eq mod_add_right_eq mod_add_left_eq)
  also have "unat start mod c + (idx + (c - unat start mod c)) = idx + c"
    using mod_less_divisor [OF c, of "unat start"] by simp
  also have "(idx + c) mod c = idx" using assms(3) by (simp add: c_def)
  finally show ?thesis using that \<open>k < c\<close> by (simp add: c_def)
qed

lemma available_hint [simp]: "available (pool\<lparr>sp_scan_hint := h\<rparr>) idx = available pool idx"
  by (simp add: available_def)

lemma slot_acquire_cases:
  assumes "pool_shape pool"
  obtains (taken) idx where "idx < sp_capacity pool" "available pool idx"
      "vwasm_store_pool_acquire w d (Some pool) =
        (Some (take_slot w d idx (pool\<lparr>sp_scan_hint := sp_scan_hint pool + 1,
           sp_in_use := (sp_in_use pool)[idx := True]\<rparr>)), Some idx)"
    | (none) "\<forall>k < sp_capacity pool. \<not> available pool (scan_idx pool (sp_scan_hint pool) k)"
      "vwasm_store_pool_acquire w d (Some pool) =
        (Some (pool\<lparr>sp_scan_hint := sp_scan_hint pool + 1, sp_fallbacks := sp_fallbacks pool + 1\<rparr>), None)"
proof -
  define q where "q = pool\<lparr>sp_scan_hint := sp_scan_hint pool + 1\<rparr>"
  have q: "scan_idx q s k = scan_idx pool s k" "available q idx = available pool idx"
    "sp_capacity q = sp_capacity pool" for s k idx
    by (simp_all add: q_def scan_idx_def)
  show ?thesis
  proof (cases "find (\<lambda>k. available pool (scan_idx pool (sp_scan_hint pool) k)) [0 ..< sp_capacity pool]")
    case None
    then have "vwasm_store_pool_acquire w d (Some pool) = (Some (q\<lparr>sp_fallbacks := sp_fallbacks q + 1\<rparr>), None)"
      by (simp add: vwasm_store_pool_acquire_def acquire_scan_result Let_def q flip: q_def)
    then show ?thesis using None none by (simp add: find_None_iff q_def)
  next
    case (Some k)
    then have "k < sp_capacity pool" "available pool (scan_idx pool (sp_scan_hint pool) k)"
      by (auto simp: find_Some_iff)
    moreover from Some have "vwasm_store_pool_acquire w d (Some pool) =
        (Some (take_slot w d (scan_idx pool (sp_scan_hint pool) k)
          (q\<lparr>sp_in_use := (sp_in_use q)[scan_idx pool (sp_scan_hint pool) k := True]\<rparr>)),
         Some (scan_idx pool (sp_scan_hint pool) k))"
      by (simp add: vwasm_store_pool_acquire_def acquire_scan_result Let_def q flip: q_def)
    ultimately show ?thesis using taken scan_idx_lt [OF assms] by (simp add: q_def)
  qed
qed

section \<open>Properties\<close>

text \<open>A pool for the examples: three slots, the first in use, the last not initialized.\<close>

definition plain_store :: wstore where
  "plain_store = \<lparr>ws_memory = ''abcdef'', ws_globals = [7], ws_deadline = 5, ws_data = True\<rparr>"

definition plain_slot :: "nat \<Rightarrow> pooled_store" where
  "plain_slot i = \<lparr>ps_store = Some plain_store, ps_memory_valid = True, ps_allocator_valid = True,
     ps_module_entry = 0, ps_seq = 0, ps_slot_idx = of_nat i\<rparr>"

definition plain_pool :: store_pool where
  "plain_pool = \<lparr>sp_slots = [Some 0, Some 1, None], sp_capacity = 3, sp_acquires = 0, sp_releases = 0,
     sp_fallbacks = 0, sp_resets = 0, sp_warm_ref = Some 0, sp_objects = [plain_slot 0, plain_slot 1, ps_zero],
     sp_in_use = [True, False, False], sp_scan_hint = 2\<rparr>"

definition plain_warm :: warm_instance where
  "plain_warm = warm_zero\<lparr>memory_snapshot := Some ''ABCD'', snapshot_size := 4, warm_valid := True\<rparr>"

lemma plain_pool_shape: "pool_shape plain_pool"
  by (simp add: pool_shape_def plain_pool_def plain_slot_def ps_zero_def pool_limits less_Suc_eq numeral_3_eq_3)

text \<open>An acquire that runs alone returns NULL exactly when every initialized slot is in use. (The 64-bit
  scan counter must not wrap around during the scan: with a capacity that is not a power of two some slots
  would then be looked at twice and others not at all.)\<close>

theorem acquire_null_iff_exhausted:
  assumes "pool_shape pool" and "unat (sp_scan_hint pool) + sp_capacity pool \<le> 2 ^ 64"
  shows "snd (vwasm_store_pool_acquire w d (Some pool)) = None \<longleftrightarrow>
         (\<forall>idx < sp_capacity pool. slot_store pool idx = None \<or> sp_in_use pool ! idx)"
  using assms(1)
proof (cases rule: slot_acquire_cases [of pool w d])
  case (taken idx)
  then show ?thesis by (auto simp: available_def)
next
  case none
  have "\<not> available pool idx" if "idx < sp_capacity pool" for idx
    using scan_covers [OF assms that] none(1) by metis
  then show ?thesis using none(2) by (auto simp: available_def)
qed

theorem acquire_null_iff_exhausted_witness:
  "snd (vwasm_store_pool_acquire None 9 (Some plain_pool)) = None \<longleftrightarrow>
     (\<forall>idx < sp_capacity plain_pool. slot_store plain_pool idx = None \<or> sp_in_use plain_pool ! idx)"
  by (rule acquire_null_iff_exhausted [OF plain_pool_shape]) (simp add: plain_pool_def)

text \<open>What a request left in a pooled store and what the next one finds there. After a release and an
  acquire that hands out the same slot, the prefix of the memory that the snapshot covers is the snapshot
  again, but the memory behind it, which a guest gets by growing its memory, and the globals of the
  instance are those the previous request left.\<close>

theorem recycled_store_keeps_state:
  assumes shape: "pool_shape pool" and idx: "idx < sp_capacity pool" "sp_slots pool ! idx = Some idx"
    and st: "ps_store (sp_objects pool ! idx) = Some st" "ps_memory_valid (sp_objects pool ! idx)"
    and w: "warm_valid w" "memory_snapshot w = Some snap" "snapshot_size w = length snap"
    and fits: "length snap \<le> length (ws_memory st)"
    and acq: "vwasm_store_pool_acquire (Some w) d (vwasm_store_pool_release (Some pool) (Some idx)) = (Some pool', Some idx)"
  shows "ps_store (sp_objects pool' ! idx) =
           Some \<lparr>ws_memory = snap @ drop (length snap) (ws_memory st), ws_globals = ws_globals st,
                 ws_deadline = d, ws_data = False\<rparr>"
proof -
  define ps where "ps = (sp_objects pool ! idx)\<lparr>ps_store := Some (st\<lparr>ws_data := False\<rparr>)\<rparr>"
  define pool1 where "pool1 = pool\<lparr>sp_objects := (sp_objects pool)[idx := ps],
    sp_in_use := (sp_in_use pool)[idx := False], sp_releases := sp_releases pool + 1\<rparr>"
  have slot: "unat (ps_slot_idx (sp_objects pool ! idx)) = idx"
    using slot_store_cases [OF shape idx(1)] idx(2) by auto
  then have rel: "vwasm_store_pool_release (Some pool) (Some idx) = Some pool1"
    by (simp add: vwasm_store_pool_release_def Let_def pool1_def ps_def st)
  have shape1: "pool_shape pool1"
    using pool_shape_object [OF shape, of ps idx] by (simp add: pool1_def ps_def pool_shape_def)
  have len: "idx < length (sp_objects pool)" using shape idx by (simp add: pool_shape_def)
  have old: "sp_slots pool1 ! idx = Some idx" "sp_objects pool1 ! idx = ps" "idx < length (sp_objects pool1)"
    using len idx by (simp_all add: pool1_def)
  have "sp_objects pool' ! idx = taken (Some w) d ps"
    using acq old by (cases rule: slot_acquire_cases [OF shape1, of "Some w" d]) (auto simp: rel take_slot_object)
  then show ?thesis
    using w fits st by (simp add: taken_def Let_def ps_def warm_usable_def restore_store_def vwasm_warm_instance_restore_def)
qed

theorem recycled_store_keeps_state_witness:
  "\<exists>pool'. vwasm_store_pool_acquire (Some plain_warm) 9 (vwasm_store_pool_release (Some plain_pool) (Some 0)) =
     (Some pool', Some 0) \<and>
   ps_store (sp_objects pool' ! 0) =
     Some \<lparr>ws_memory = ''ABCDef'', ws_globals = [7], ws_deadline = 9, ws_data = False\<rparr>"
proof -
  define r where "r = vwasm_store_pool_acquire (Some plain_warm) 9 (vwasm_store_pool_release (Some plain_pool) (Some 0))"
  have "snd r = Some 0 \<and> fst r \<noteq> None" unfolding r_def by code_simp
  then obtain pool' where r: "r = (Some pool', Some 0)" by (cases r) auto
  have "ps_store (sp_objects pool' ! 0) = Some \<lparr>ws_memory = ''ABCD'' @ drop (length ''ABCD'') (ws_memory plain_store),
      ws_globals = ws_globals plain_store, ws_deadline = 9, ws_data = False\<rparr>"
    by (rule recycled_store_keeps_state [OF plain_pool_shape _ _ _ _ _ _ _ _ r [unfolded r_def]])
      (simp_all add: plain_pool_def plain_slot_def plain_warm_def plain_store_def)
  then show ?thesis using r unfolding r_def by (simp add: plain_store_def)
qed

end
