(* ===== verification/Pool_Threads.thy ===== *)
theory Pool_Threads
  imports Store_Pool
begin

text \<open>
  The store pool as the worker threads of Varnish use it: the atomic operations of
  \<open>vwasm_store_pool_acquire\<close> and \<open>vwasm_store_pool_release\<close> (fetch-and-add, compare-and-swap, release store)
  interleave in any order. Shown are that a slot has one user at a time, that the statistics add up, that
  an acquire ends whatever the other threads do, and that the functions of \<open>Store_Pool\<close> are the runs of
  these steps by one thread alone.
\<close>

section \<open>Acquire and release by several threads\<close>

text \<open>
  Where a thread is: outside, about to look at the slot of round \<open>i\<close> of the scan from \<open>start\<close>, having won the
  flag of that slot, using a slot, or having given the flag back but not yet counted the release. A turn is
  one atomic operation of a thread, with what it does to data nobody else looks at. What a thread holding a
  slot does with it happens between turns.
\<close>

datatype thread_pc = Idle | Scan u64 nat | Claimed u64 nat | Holding nat | Leaving

record pool_machine =
  pm_pool :: store_pool
  pm_pcs :: "thread_pc list"

fun pool_act :: "warm_instance option \<Rightarrow> u64 \<Rightarrow> store_pool \<Rightarrow> thread_pc \<Rightarrow> store_pool \<times> thread_pc" where
  "pool_act w d pool Idle = (pool\<lparr>sp_scan_hint := sp_scan_hint pool + 1\<rparr>, Scan (sp_scan_hint pool) 0)"
| "pool_act w d pool (Scan start i) =
     (if i < sp_capacity pool then
        (if \<not> sp_in_use pool ! scan_idx pool start i
         then (pool\<lparr>sp_in_use := (sp_in_use pool)[scan_idx pool start i := True]\<rparr>, Claimed start i)
         else (pool, Scan start (i + 1)))
      else (pool\<lparr>sp_fallbacks := sp_fallbacks pool + 1\<rparr>, Idle))"
| "pool_act w d pool (Claimed start i) =
     (let idx = scan_idx pool start i in
      case slot_store pool idx of
        None \<Rightarrow> (pool\<lparr>sp_in_use := (sp_in_use pool)[idx := False]\<rparr>, Scan start (i + 1))
      | Some ps \<Rightarrow> (take_slot w d idx pool, Holding idx))"
| "pool_act w d pool (Holding idx) =
     (let j = the (sp_slots pool ! idx);
          ps = sp_objects pool ! j;
          ps = ps\<lparr>ps_store := map_option (\<lambda>st. st\<lparr>ws_data := False\<rparr>) (ps_store ps)\<rparr>
      in (pool\<lparr>sp_objects := (sp_objects pool)[j := ps],
               sp_in_use := (sp_in_use pool)[unat (ps_slot_idx ps) := False]\<rparr>, Leaving))"
| "pool_act w d pool Leaving = (pool\<lparr>sp_releases := sp_releases pool + 1\<rparr>, Idle)"

definition pool_turn :: "warm_instance option \<Rightarrow> u64 \<Rightarrow> nat \<Rightarrow> pool_machine \<Rightarrow> pool_machine" where
  "pool_turn w d t m =
     (case pool_act w d (pm_pool m) (pm_pcs m ! t) of
        (pool, pc) \<Rightarrow> \<lparr>pm_pool = pool, pm_pcs = (pm_pcs m)[t := pc]\<rparr>)"

text \<open>What the holder of a slot does with its store between its turns: a call of the guest may leave any
  memory, any globals and any data pointer in it.\<close>

inductive pool_work :: "pool_machine \<Rightarrow> pool_machine \<Rightarrow> bool" where
  "t < length (pm_pcs m) \<Longrightarrow> pm_pcs m ! t = Holding idx \<Longrightarrow> sp_slots (pm_pool m) ! idx = Some j \<Longrightarrow>
    pool_work m (m\<lparr>pm_pool := (pm_pool m)
      \<lparr>sp_objects := (sp_objects (pm_pool m))[j := (sp_objects (pm_pool m) ! j)\<lparr>ps_store := Some st\<rparr>]\<rparr>\<rparr>)"

text \<open>The interleavings, and the same with the threads that took the turns.\<close>

inductive pool_step :: "warm_instance option \<Rightarrow> u64 \<Rightarrow> pool_machine \<Rightarrow> pool_machine \<Rightarrow> bool" for w d where
  turn: "t < length (pm_pcs m) \<Longrightarrow> pool_step w d m (pool_turn w d t m)"
| work: "pool_work m m' \<Longrightarrow> pool_step w d m m'"

inductive pool_run :: "warm_instance option \<Rightarrow> u64 \<Rightarrow> pool_machine \<Rightarrow> nat list \<Rightarrow> pool_machine \<Rightarrow> bool" for w d m where
  run_start: "pool_run w d m [] m"
| run_turn: "pool_run w d m ts m' \<Longrightarrow> t < length (pm_pcs m') \<Longrightarrow> pool_run w d m (ts @ [t]) (pool_turn w d t m')"
| run_work: "pool_run w d m ts m' \<Longrightarrow> pool_work m' m'' \<Longrightarrow> pool_run w d m ts m''"

section \<open>Lemmas: one turn\<close>

fun owns :: "store_pool \<Rightarrow> thread_pc \<Rightarrow> nat \<Rightarrow> bool" where
  "owns pool (Claimed start i) idx \<longleftrightarrow> scan_idx pool start i = idx"
| "owns pool (Holding j) idx \<longleftrightarrow> j = idx"
| "owns pool _ idx \<longleftrightarrow> False"

fun pc_ok :: "store_pool \<Rightarrow> thread_pc \<Rightarrow> bool" where
  "pc_ok pool (Scan start i) \<longleftrightarrow> i \<le> sp_capacity pool"
| "pc_ok pool (Claimed start i) \<longleftrightarrow> i < sp_capacity pool"
| "pc_ok pool (Holding j) \<longleftrightarrow> j < sp_capacity pool \<and> sp_slots pool ! j = Some j"
| "pc_ok pool _ \<longleftrightarrow> True"

text \<open>A slot was handed out and its release not yet counted.\<close>

definition outstanding :: "thread_pc \<Rightarrow> bool" where
  "outstanding pc \<longleftrightarrow> (case pc of Holding _ \<Rightarrow> True | Leaving \<Rightarrow> True | _ \<Rightarrow> False)"

lemma outstanding_simps [simp]:
  "\<not> outstanding Idle" "\<not> outstanding (Scan s i)" "\<not> outstanding (Claimed s i)" "outstanding (Holding j)"
  "outstanding Leaving"
  by (simp_all add: outstanding_def)

lemma owns_lt: "pool_shape pool \<Longrightarrow> pc_ok pool pc \<Longrightarrow> owns pool pc idx \<Longrightarrow> idx < sp_capacity pool"
  by (cases pc) (auto simp: scan_idx_lt)

lemma owns_cong: "sp_capacity p = sp_capacity q \<Longrightarrow> owns p pc idx = owns q pc idx"
  by (cases pc) (simp_all add: scan_idx_def)

lemma pc_ok_cong: "sp_capacity p = sp_capacity q \<Longrightarrow> sp_slots p = sp_slots q \<Longrightarrow> pc_ok p pc = pc_ok q pc"
  by (cases pc) simp_all

text \<open>What a turn does to the flags is what it does to the thread's ownership, and it changes nothing else
  the other threads rely on.\<close>

definition flag_change :: "store_pool \<Rightarrow> thread_pc \<Rightarrow> store_pool \<Rightarrow> thread_pc \<Rightarrow> bool" where
  "flag_change p pc q qc \<longleftrightarrow>
     (sp_in_use q = sp_in_use p \<and> owns p qc = owns p pc) \<or>
     (\<exists>k < sp_capacity p. \<not> sp_in_use p ! k \<and> sp_in_use q = (sp_in_use p)[k := True] \<and>
        owns p pc = (\<lambda>_. False) \<and> owns p qc = (\<lambda>idx. idx = k)) \<or>
     (\<exists>k < sp_capacity p. sp_in_use q = (sp_in_use p)[k := False] \<and>
        owns p pc = (\<lambda>idx. idx = k) \<and> owns p qc = (\<lambda>_. False))"

definition good_turn :: "store_pool \<Rightarrow> thread_pc \<Rightarrow> store_pool \<Rightarrow> thread_pc \<Rightarrow> bool" where
  "good_turn p pc q qc \<longleftrightarrow> pool_shape q \<and> sp_capacity q = sp_capacity p \<and> sp_slots q = sp_slots p \<and>
     pc_ok p qc \<and> flag_change p pc q qc \<and>
     sp_acquires q - sp_releases q + of_bool (outstanding pc) =
       sp_acquires p - sp_releases p + of_bool (outstanding qc)"

lemma flag_kept: "sp_in_use q = sp_in_use p \<Longrightarrow> owns p qc = owns p pc \<Longrightarrow> flag_change p pc q qc"
  by (simp add: flag_change_def)

lemma flag_taken:
  "k < sp_capacity p \<Longrightarrow> \<not> sp_in_use p ! k \<Longrightarrow> sp_in_use q = (sp_in_use p)[k := True] \<Longrightarrow>
     owns p pc = (\<lambda>_. False) \<Longrightarrow> owns p qc = (\<lambda>idx. idx = k) \<Longrightarrow> flag_change p pc q qc"
  unfolding flag_change_def by blast

lemma flag_dropped:
  "k < sp_capacity p \<Longrightarrow> sp_in_use q = (sp_in_use p)[k := False] \<Longrightarrow>
     owns p pc = (\<lambda>idx. idx = k) \<Longrightarrow> owns p qc = (\<lambda>_. False) \<Longrightarrow> flag_change p pc q qc"
  unfolding flag_change_def by blast

lemma owns_fun [simp]:
  "owns p Idle = (\<lambda>_. False)" "owns p (Scan s i) = (\<lambda>_. False)" "owns p Leaving = (\<lambda>_. False)"
  "owns p (Claimed s i) = (\<lambda>idx. idx = scan_idx p s i)" "owns p (Holding j) = (\<lambda>idx. idx = j)"
  by (auto simp: fun_eq_iff)

lemma good_scan:
  assumes "pool_shape p" "pc_ok p (Scan start i)" "pool_act w d p (Scan start i) = (q, qc)"
  shows "good_turn p (Scan start i) q qc"
proof -
  have lt: "scan_idx p start i < sp_capacity p" by (rule scan_idx_lt [OF assms(1)])
  consider "\<not> i < sp_capacity p" | "i < sp_capacity p" "\<not> sp_in_use p ! scan_idx p start i"
    | "i < sp_capacity p" "sp_in_use p ! scan_idx p start i" by blast
  then show ?thesis
  proof cases
    case 1
    then show ?thesis using assms by (auto simp: good_turn_def intro: flag_kept)
  next
    case 2
    then have "q = p\<lparr>sp_in_use := (sp_in_use p)[scan_idx p start i := True]\<rparr>" "qc = Claimed start i"
      using assms(3) by auto
    then show ?thesis using 2 assms(1) lt by (simp add: good_turn_def flag_taken [of "scan_idx p start i"])
  next
    case 3
    then show ?thesis using assms by (auto simp: good_turn_def intro: flag_kept)
  qed
qed

lemma good_claimed:
  assumes "pool_shape p" "pc_ok p (Claimed start i)" "pool_act w d p (Claimed start i) = (q, qc)"
  shows "good_turn p (Claimed start i) q qc"
proof -
  have lt: "scan_idx p start i < sp_capacity p" by (rule scan_idx_lt [OF assms(1)])
  from assms(1) lt show ?thesis
  proof (cases rule: slot_store_cases)
    case empty
    then have "q = p\<lparr>sp_in_use := (sp_in_use p)[scan_idx p start i := False]\<rparr>" "qc = Scan start (i + 1)"
      using assms(3) by (auto simp: Let_def)
    then show ?thesis using assms(1,2) lt by (simp add: good_turn_def flag_dropped [of "scan_idx p start i"])
  next
    case full
    then have "pool_shape (take_slot w d (scan_idx p start i) p)" by (intro take_slot_shape assms lt)
    moreover have "q = take_slot w d (scan_idx p start i) p" "qc = Holding (scan_idx p start i)"
      using assms(3) full by (auto simp: Let_def)
    ultimately show ?thesis using lt full by (simp add: good_turn_def flag_kept)
  qed
qed

lemma good_holding:
  assumes "pool_shape p" "pc_ok p (Holding j)" "pool_act w d p (Holding j) = (q, qc)"
  shows "good_turn p (Holding j) q qc"
proof -
  have j: "j < sp_capacity p" "sp_slots p ! j = Some j" using assms(2) by simp_all
  define ps where "ps = (sp_objects p ! j)\<lparr>ps_store := map_option (\<lambda>st. st\<lparr>ws_data := False\<rparr>) (ps_store (sp_objects p ! j))\<rparr>"
  have full: "ps_store (sp_objects p ! j) \<noteq> None" "unat (ps_slot_idx (sp_objects p ! j)) = j"
    using slot_store_cases [OF assms(1) j(1)] j(2) by auto
  have q: "q = p\<lparr>sp_objects := (sp_objects p)[j := ps], sp_in_use := (sp_in_use p)[j := False]\<rparr>" "qc = Leaving"
    using assms(3) full j by (auto simp: Let_def ps_def)
  have "pool_shape (p\<lparr>sp_objects := (sp_objects p)[j := ps]\<rparr>)"
    by (rule pool_shape_object [OF assms(1)]) (use full in \<open>simp_all add: ps_def\<close>)
  then have "pool_shape q" by (simp add: q(1) pool_shape_def)
  then show ?thesis using j by (simp add: good_turn_def q flag_dropped [of j])
qed

lemma good_act:
  assumes "pool_shape p" "pc_ok p pc" "pool_act w d p pc = (q, qc)"
  shows "good_turn p pc q qc"
proof (cases pc)
  case Idle
  then show ?thesis using assms by (auto simp: good_turn_def intro: flag_kept)
next
  case Leaving
  then show ?thesis using assms by (auto simp: good_turn_def intro: flag_kept)
next
  case (Scan start i)
  then show ?thesis using good_scan [of p start i w d q qc] assms by simp
next
  case (Claimed start i)
  then show ?thesis using good_claimed [of p start i w d q qc] assms by simp
next
  case (Holding j)
  then show ?thesis using good_holding [of p j w d q qc] assms by simp
qed

section \<open>Lemmas: the invariant of the threads\<close>

definition exclusive :: "(nat \<Rightarrow> nat \<Rightarrow> bool) \<Rightarrow> nat \<Rightarrow> bool" where
  "exclusive f n \<longleftrightarrow> (\<forall>t < n. \<forall>u < n. \<forall>i. f t i \<longrightarrow> f u i \<longrightarrow> t = u)"

definition flags_ok :: "(nat \<Rightarrow> nat \<Rightarrow> bool) \<Rightarrow> nat \<Rightarrow> bool list \<Rightarrow> bool" where
  "flags_ok f n l \<longleftrightarrow> (\<forall>i < length l. l ! i \<longleftrightarrow> (\<exists>t < n. f t i))"

definition pool_inv :: "pool_machine \<Rightarrow> bool" where
  "pool_inv m \<longleftrightarrow> pool_shape (pm_pool m) \<and> list_all (pc_ok (pm_pool m)) (pm_pcs m) \<and>
     exclusive (\<lambda>t. owns (pm_pool m) (pm_pcs m ! t)) (length (pm_pcs m)) \<and>
     flags_ok (\<lambda>t. owns (pm_pool m) (pm_pcs m ! t)) (length (pm_pcs m)) (sp_in_use (pm_pool m)) \<and>
     sp_acquires (pm_pool m) - sp_releases (pm_pool m) = of_nat (length (filter outstanding (pm_pcs m)))"

lemma ownership_cong:
  assumes "\<And>u. u < n \<Longrightarrow> f u = g u"
  shows "exclusive f n = exclusive g n" "flags_ok f n l = flags_ok g n l"
proof -
  show "exclusive f n = exclusive g n" using assms by (simp add: exclusive_def)
  have "(\<exists>t < n. f t i) \<longleftrightarrow> (\<exists>t < n. g t i)" for i using assms by metis
  then show "flags_ok f n l = flags_ok g n l" by (simp add: flags_ok_def)
qed

lemma ex_fun_upd:
  assumes "t < n"
  shows "(\<exists>u < n. (f(t := g)) u i) \<longleftrightarrow> g i \<or> (\<exists>u < n. u \<noteq> t \<and> f u i)"
proof
  assume "\<exists>u < n. (f(t := g)) u i"
  then obtain u where "u < n" "(f(t := g)) u i" by blast
  then show "g i \<or> (\<exists>u < n. u \<noteq> t \<and> f u i)" by (cases "u = t") auto
next
  assume "g i \<or> (\<exists>u < n. u \<noteq> t \<and> f u i)"
  then show "\<exists>u < n. (f(t := g)) u i"
  proof
    assume "g i"
    then show ?thesis using assms by (intro exI [of _ t]) simp
  next
    assume "\<exists>u < n. u \<noteq> t \<and> f u i"
    then obtain u where "u < n" "u \<noteq> t" "f u i" by blast
    then show ?thesis by (intro exI [of _ u]) simp
  qed
qed

lemma ownership_taken:
  assumes "exclusive f n" "flags_ok f n l" "t < n" "k < length l" "\<not> l ! k" "f t = (\<lambda>_. False)"
  shows "exclusive (f(t := \<lambda>i. i = k)) n" "flags_ok (f(t := \<lambda>i. i = k)) n (l[k := True])"
proof -
  have no: "\<not> f u k" if "u < n" for u using assms that unfolding flags_ok_def by blast
  show "exclusive (f(t := \<lambda>i. i = k)) n" unfolding exclusive_def
  proof (intro allI impI)
    fix u v i assume "u < n" "v < n" "(f(t := \<lambda>i. i = k)) u i" "(f(t := \<lambda>i. i = k)) v i"
    then show "u = v" using assms(1) no by (cases "u = t"; cases "v = t") (simp_all add: exclusive_def)
  qed
  have *: "(\<exists>u < n. (f(t := \<lambda>i. i = k)) u i) \<longleftrightarrow> i = k \<or> (\<exists>u < n. f u i)" for i
    unfolding ex_fun_upd [OF assms(3)] using assms(6) by auto
  show "flags_ok (f(t := \<lambda>i. i = k)) n (l[k := True])"
    using assms(2,4) by (simp only: flags_ok_def * length_list_update) (simp add: nth_list_update)
qed

lemma ownership_dropped:
  assumes "exclusive f n" "flags_ok f n l" "t < n" "k < length l" "f t = (\<lambda>i. i = k)"
  shows "exclusive (f(t := \<lambda>_. False)) n" "flags_ok (f(t := \<lambda>_. False)) n (l[k := False])"
proof -
  have no: "\<not> f u k" if "u < n" "u \<noteq> t" for u
    using assms(1,3,5) that unfolding exclusive_def by metis
  show "exclusive (f(t := \<lambda>_. False)) n" unfolding exclusive_def
  proof (intro allI impI)
    fix u v i assume "u < n" "v < n" "(f(t := \<lambda>_. False)) u i" "(f(t := \<lambda>_. False)) v i"
    then show "u = v" using assms(1) by (cases "u = t"; cases "v = t") (simp_all add: exclusive_def)
  qed
  have *: "(\<exists>u < n. (f(t := \<lambda>_. False)) u i) \<longleftrightarrow> i \<noteq> k \<and> (\<exists>u < n. f u i)" for i
    unfolding ex_fun_upd [OF assms(3)] using no assms(5) by auto
  show "flags_ok (f(t := \<lambda>_. False)) n (l[k := False])"
    using assms(2,4) by (simp only: flags_ok_def * length_list_update) (simp add: nth_list_update)
qed

lemma outstanding_update:
  fixes pcs :: "'a list" and P :: "'a \<Rightarrow> bool"
  assumes "t < length pcs"
  shows "(of_nat (length (filter P (pcs[t := pc]))) :: u64) + of_bool (P (pcs ! t)) =
         of_nat (length (filter P pcs)) + of_bool (P pc)"
  using assms
proof (induction pcs arbitrary: t)
  case (Cons x xs)
  then show ?case by (cases t) (auto simp: algebra_simps)
qed simp

lemma ownership_change:
  assumes ex: "exclusive f n" and fl: "flags_ok f n (sp_in_use p)" and t: "t < n" and f: "f t = owns p pc"
    and shape: "pool_shape p" and ch: "flag_change p pc q qc"
  shows "exclusive (f(t := owns p qc)) n \<and> flags_ok (f(t := owns p qc)) n (sp_in_use q)"
proof -
  have len: "length (sp_in_use p) = sp_capacity p" using shape by (simp add: pool_shape_def)
  from ch show ?thesis unfolding flag_change_def
  proof (elim disjE exE conjE)
    assume same: "sp_in_use q = sp_in_use p" "owns p qc = owns p pc"
    then have "f(t := owns p qc) = f" using f by (simp add: fun_eq_iff)
    then show ?thesis using same ex fl by simp
  next
    fix k assume k: "k < sp_capacity p" "\<not> sp_in_use p ! k" "sp_in_use q = (sp_in_use p)[k := True]"
      "owns p pc = (\<lambda>_. False)" "owns p qc = (\<lambda>idx. idx = k)"
    then show ?thesis using ownership_taken [OF ex fl t _ k(2)] f len by simp
  next
    fix k assume k: "k < sp_capacity p" "sp_in_use q = (sp_in_use p)[k := False]"
      "owns p pc = (\<lambda>idx. idx = k)" "owns p qc = (\<lambda>_. False)"
    then show ?thesis using ownership_dropped [OF ex fl t] f len by simp
  qed
qed

lemma turn_inv:
  assumes "t < length (pm_pcs m)" "pool_inv m"
  shows "pool_inv (pool_turn w d t m)"
proof -
  define p pcs where "p = pm_pool m" and "pcs = pm_pcs m"
  obtain q qc where act: "pool_act w d p (pcs ! t) = (q, qc)" by fastforce
  have t: "t < length pcs" using assms by (simp add: pcs_def)
  have inv: "pool_shape p" "list_all (pc_ok p) pcs" "exclusive (\<lambda>u. owns p (pcs ! u)) (length pcs)"
    "flags_ok (\<lambda>u. owns p (pcs ! u)) (length pcs) (sp_in_use p)"
    "sp_acquires p - sp_releases p = of_nat (length (filter outstanding pcs))"
    using assms by (simp_all add: pool_inv_def p_def pcs_def)
  have ok: "pc_ok p (pcs ! t)" using inv(2) t by (simp add: list_all_length)
  have q: "pool_shape q" "sp_capacity q = sp_capacity p" "sp_slots q = sp_slots p" "pc_ok p qc"
    "flag_change p (pcs ! t) q qc"
    "sp_acquires q - sp_releases q + of_bool (outstanding (pcs ! t)) = sp_acquires p - sp_releases p + of_bool (outstanding qc)"
    using good_act [OF inv(1) ok act] by (simp_all add: good_turn_def)
  have upd: "owns q (pcs[t := qc] ! u) = ((\<lambda>u. owns p (pcs ! u))(t := owns p qc)) u" if "u < length pcs" for u
    using t owns_cong [OF q(2)] by (auto simp: fun_eq_iff nth_list_update)
  have "exclusive (\<lambda>u. owns q (pcs[t := qc] ! u)) (length pcs)"
    "flags_ok (\<lambda>u. owns q (pcs[t := qc] ! u)) (length pcs) (sp_in_use q)"
    using ownership_change [OF inv(3,4) t _ inv(1) q(5)] ownership_cong [OF upd] by (simp_all add: fun_upd_def)
  moreover have "sp_acquires q - sp_releases q = of_nat (length (filter outstanding (pcs[t := qc])))"
    using q(6) inv(5) outstanding_update [OF t, of outstanding qc] by (metis add_right_cancel)
  moreover have "list_all (pc_ok q) (pcs[t := qc])"
    using inv(2) q(4) pc_ok_cong [OF q(2,3)] t by (auto simp: list_all_length nth_list_update_if)
  moreover have "pool_turn w d t m = \<lparr>pm_pool = q, pm_pcs = pcs[t := qc]\<rparr>"
    using act by (simp add: pool_turn_def p_def pcs_def)
  ultimately show ?thesis using q(1) by (simp add: pool_inv_def)
qed

lemma work_inv:
  assumes "pool_work m m'" "pool_inv m"
  shows "pool_inv m'"
  using assms(1)
proof cases
  case (1 t idx j st)
  define p where "p = pm_pool m"
  define q where "q = p\<lparr>sp_objects := (sp_objects p)[j := (sp_objects p ! j)\<lparr>ps_store := Some st\<rparr>]\<rparr>"
  have "pool_shape q" unfolding q_def
    by (rule pool_shape_object) (use assms(2) in \<open>simp_all add: pool_inv_def p_def\<close>)
  moreover have "pc_ok q = pc_ok p" "owns q = owns p"
    by (intro ext pc_ok_cong owns_cong, simp_all add: q_def)+
  ultimately show ?thesis using assms(2) 1(1) by (simp add: pool_inv_def p_def q_def)
qed

lemma step_inv: "pool_step w d m m' \<Longrightarrow> pool_inv m \<Longrightarrow> pool_inv m'"
  by (cases rule: pool_step.cases) (auto intro: turn_inv work_inv)

interpretation threads: step_invariant "pool_step w d" pool_inv for w d
  by unfold_locales (rule step_inv)

text \<open>All threads outside, on a new pool.\<close>

definition pool_start :: "nat \<Rightarrow> store_pool \<Rightarrow> pool_machine" where
  "pool_start n pool = \<lparr>pm_pool = pool, pm_pcs = replicate n Idle\<rparr>"

lemma start_inv:
  assumes "vwasm_store_pool_new al wt slots wi engine entryp = Some pool"
  shows "pool_inv (pool_start n pool)"
  using store_pool_new_fields [OF assms]
  by (auto simp: pool_inv_def pool_start_def list_all_length exclusive_def flags_ok_def)

lemma holding_marked:
  assumes "pool_inv m" "t < length (pm_pcs m)" "pm_pcs m ! t = Holding i"
  shows "sp_in_use (pm_pool m) ! i"
proof -
  have "pc_ok (pm_pool m) (Holding i)" using assms by (metis pool_inv_def list_all_length)
  then have "i < length (sp_in_use (pm_pool m))" using assms(1) by (simp add: pool_inv_def pool_shape_def)
  moreover have "flags_ok (\<lambda>t. owns (pm_pool m) (pm_pcs m ! t)) (length (pm_pcs m)) (sp_in_use (pm_pool m))"
    using assms(1) by (simp add: pool_inv_def)
  ultimately show ?thesis unfolding flags_ok_def using assms(2,3) by (metis owns.simps(2))
qed

lemma holding_unique:
  assumes "pool_inv m" "t < length (pm_pcs m)" "u < length (pm_pcs m)" "pm_pcs m ! t = Holding i" "pm_pcs m ! u = Holding i"
  shows "t = u"
proof -
  have "exclusive (\<lambda>t. owns (pm_pool m) (pm_pcs m ! t)) (length (pm_pcs m))" using assms(1) by (simp add: pool_inv_def)
  then show ?thesis unfolding exclusive_def using assms(2-5) by (metis owns.simps(2))
qed

section \<open>Lemmas: how long an acquire takes\<close>

fun turns_left :: "nat \<Rightarrow> thread_pc \<Rightarrow> nat" where
  "turns_left c (Scan start i) = 2 * (c - i) + 1"
| "turns_left c (Claimed start i) = 2 * (c - i)"
| "turns_left c _ = 0"

definition acquiring :: "thread_pc \<Rightarrow> bool" where
  "acquiring pc \<longleftrightarrow> (case pc of Scan _ _ \<Rightarrow> True | Claimed _ _ \<Rightarrow> True | _ \<Rightarrow> False)"

lemma acquiring_simps [simp]:
  "\<not> acquiring Idle" "acquiring (Scan s i)" "acquiring (Claimed s i)" "\<not> acquiring (Holding j)" "\<not> acquiring Leaving"
  by (simp_all add: acquiring_def)

lemma acquiring_act:
  assumes "acquiring pc" "pool_act w d p pc = (q, qc)" "pc_ok p pc"
  shows "acquiring qc \<and> turns_left (sp_capacity p) qc < turns_left (sp_capacity p) pc \<or>
         qc = Idle \<or> (\<exists>idx. qc = Holding idx)"
  using assms by (cases pc) (auto simp: Let_def split: if_splits option.splits)

lemma turns_left_pos: "acquiring pc \<Longrightarrow> pc_ok p pc \<Longrightarrow> 0 < turns_left (sp_capacity p) pc"
  by (cases pc) simp_all

lemma turn_simps:
  "length (pm_pcs (pool_turn w d t m)) = length (pm_pcs m)"
  "u \<noteq> t \<Longrightarrow> pm_pcs (pool_turn w d t m) ! u = pm_pcs m ! u"
  "t < length (pm_pcs m) \<Longrightarrow> pm_pcs (pool_turn w d t m) ! t = snd (pool_act w d (pm_pool m) (pm_pcs m ! t))"
  "pm_pool (pool_turn w d t m) = fst (pool_act w d (pm_pool m) (pm_pcs m ! t))"
  by (simp_all add: pool_turn_def split: prod.split)

lemma act_capacity: "sp_capacity (fst (pool_act w d p pc)) = sp_capacity p"
  by (cases pc) (auto simp: Let_def split: option.split)

lemma work_simps:
  "pool_work m m' \<Longrightarrow> pm_pcs m' = pm_pcs m"
  "pool_work m m' \<Longrightarrow> sp_capacity (pm_pool m') = sp_capacity (pm_pool m)"
  by (auto elim!: pool_work.cases)

lemma run_threads: "(pool_step w d)\<^sup>*\<^sup>* m m' \<Longrightarrow> length (pm_pcs m') = length (pm_pcs m)"
  by (induction rule: rtranclp_induct) (auto elim!: pool_step.cases simp: turn_simps work_simps)

lemma run_keeps_shape:
  "pool_run w d m ts m' \<Longrightarrow> pool_inv m \<Longrightarrow> pool_inv m' \<and> length (pm_pcs m') = length (pm_pcs m) \<and>
     sp_capacity (pm_pool m') = sp_capacity (pm_pool m)"
  by (induction rule: pool_run.induct) (auto simp: turn_simps act_capacity work_simps intro: turn_inv work_inv)

text \<open>While thread \<open>t\<close> is still in the acquire it was in, its turns and what it has left add up.\<close>

lemma acquire_progress:
  assumes "pool_run w d m ts m'" "pool_inv m" "t < length (pm_pcs m)" "pm_pcs m ! t = Scan start 0"
  shows "(\<exists>ts1 ts2 m1. ts = ts1 @ ts2 \<and> pool_run w d m ts1 m1 \<and>
            count_list ts1 t \<le> 2 * sp_capacity (pm_pool m) + 1 \<and>
            (pm_pcs m1 ! t = Idle \<or> (\<exists>idx. pm_pcs m1 ! t = Holding idx))) \<or>
         (acquiring (pm_pcs m' ! t) \<and>
            count_list ts t + turns_left (sp_capacity (pm_pool m)) (pm_pcs m' ! t) \<le> 2 * sp_capacity (pm_pool m) + 1)"
    (is "?left ts \<or> ?busy ts m'")
  using assms(1)
proof induction
  case run_start
  then show ?case using assms by simp
next
  case (run_turn ts m' u)
  have inv: "pool_inv m'" "length (pm_pcs m') = length (pm_pcs m)" "sp_capacity (pm_pool m') = sp_capacity (pm_pool m)"
    using run_keeps_shape [OF run_turn(1) assms(2)] by simp_all
  show ?case
  proof (cases "?left ts")
    case True
    then show ?thesis by (metis append.assoc)
  next
    case False
    then have busy: "?busy ts m'" using run_turn by blast
    show ?thesis
    proof (cases "u = t")
      case False
      then show ?thesis using busy by (simp add: turn_simps)
    next
      case True
      obtain q qc where act: "pool_act w d (pm_pool m') (pm_pcs m' ! t) = (q, qc)" by fastforce
      have pc: "pm_pcs (pool_turn w d u m') ! t = qc" using act True run_turn(2) by (simp add: turn_simps)
      have ok: "pc_ok (pm_pool m') (pm_pcs m' ! t)" using inv assms(3) by (simp add: pool_inv_def list_all_length)
      have run: "pool_run w d m (ts @ [u]) (pool_turn w d u m')" by (rule pool_run.run_turn [OF run_turn(1,2)])
      have "0 < turns_left (sp_capacity (pm_pool m)) (pm_pcs m' ! t)"
        using turns_left_pos [OF _ ok] busy inv(3) by simp
      then have le: "count_list (ts @ [u]) t \<le> 2 * sp_capacity (pm_pool m) + 1" using busy True by simp
      from acquiring_act [OF _ act ok] busy
      consider "acquiring qc" "turns_left (sp_capacity (pm_pool m)) qc < turns_left (sp_capacity (pm_pool m)) (pm_pcs m' ! t)"
        | "qc = Idle \<or> (\<exists>idx. qc = Holding idx)" by (auto simp: inv(3))
      then show ?thesis
      proof cases
        case 1
        then show ?thesis using busy pc True by simp
      next
        case 2
        then have "?left (ts @ [u])" using run le pc by (metis append_Nil2)
        then show ?thesis by blast
      qed
    qed
  qed
next
  case (run_work ts m' m'')
  then show ?case by (simp add: work_simps)
qed

section \<open>Lemmas: one thread alone\<close>

lemma turn_alone:
  "t < length pcs \<Longrightarrow> pool_act w d p pc = (q, qc) \<Longrightarrow>
     pool_turn w d t \<lparr>pm_pool = p, pm_pcs = pcs[t := pc]\<rparr> = \<lparr>pm_pool = q, pm_pcs = pcs[t := qc]\<rparr>"
  by (simp add: pool_turn_def)

text \<open>Where an acquire leaves the thread.\<close>

definition acquired :: "nat option \<Rightarrow> thread_pc" where
  "acquired r = (case r of None \<Rightarrow> Idle | Some idx \<Rightarrow> Holding idx)"

lemma scan_alone:
  assumes t: "t < length pcs" and n: "i + n = sp_capacity p" and scan: "acquire_scan w d start i n p = (q, r)"
  shows "\<exists>k. (pool_turn w d t ^^ k) \<lparr>pm_pool = p, pm_pcs = pcs[t := Scan start i]\<rparr> =
           \<lparr>pm_pool = q, pm_pcs = pcs[t := acquired r]\<rparr>"
  using n scan
proof (induction n arbitrary: i)
  case 0
  then have "pool_turn w d t \<lparr>pm_pool = p, pm_pcs = pcs[t := Scan start i]\<rparr> = \<lparr>pm_pool = q, pm_pcs = pcs[t := acquired r]\<rparr>"
    using t by (auto intro!: turn_alone simp: acquired_def)
  then show ?case by (intro exI [of _ 1]) simp
next
  case (Suc n)
  define idx where "idx = scan_idx p start i"
  have i: "i < sp_capacity p" using Suc by simp
  have next_round: ?case
    if "(pool_turn w d t ^^ j) \<lparr>pm_pool = p, pm_pcs = pcs[t := Scan start i]\<rparr> = \<lparr>pm_pool = p, pm_pcs = pcs[t := Scan start (i + 1)]\<rparr>"
      and na: "\<not> available p idx" for j
  proof -
    have "acquire_scan w d start (i + 1) n p = (q, r)" using Suc(3) na by (simp add: acquire_scan_skip idx_def)
    then obtain k where "(pool_turn w d t ^^ k) \<lparr>pm_pool = p, pm_pcs = pcs[t := Scan start (i + 1)]\<rparr> =
        \<lparr>pm_pool = q, pm_pcs = pcs[t := acquired r]\<rparr>" using Suc(1) [of "i + 1"] Suc(2) by auto
    then show ?thesis using that(1) by (intro exI [of _ "k + j"]) (simp add: funpow_add)
  qed
  define p1 where "p1 = p\<lparr>sp_in_use := (sp_in_use p)[idx := True]\<rparr>"
  have idx1: "scan_idx p1 start i = idx" by (simp add: p1_def idx_def scan_idx_def)
  show ?case
  proof (cases "sp_in_use p ! idx")
    case True
    then show ?thesis using next_round [of 1] t i by (simp add: available_def turn_alone idx_def)
  next
    case free: False
    have claim: "pool_turn w d t \<lparr>pm_pool = p, pm_pcs = pcs[t := Scan start i]\<rparr> = \<lparr>pm_pool = p1, pm_pcs = pcs[t := Claimed start i]\<rparr>"
      using t i free by (intro turn_alone) (simp_all add: idx_def p1_def)
    show ?thesis
    proof (cases "slot_store p idx")
      case None
      have "pool_turn w d t \<lparr>pm_pool = p1, pm_pcs = pcs[t := Claimed start i]\<rparr> = \<lparr>pm_pool = p, pm_pcs = pcs[t := Scan start (i + 1)]\<rparr>"
        using t None flag_same [OF free] by (intro turn_alone) (simp_all add: idx1 Let_def, simp add: p1_def)
      then show ?thesis using next_round [of 2] claim None by (simp add: available_def numeral_2_eq_2)
    next
      case (Some ps)
      then have "available p idx" using free by (simp add: available_def)
      then have "q = take_slot w d idx p1" "r = Some idx"
        using Suc(3) by (simp_all add: acquire_scan_take p1_def idx_def)
      then have "pool_turn w d t \<lparr>pm_pool = p1, pm_pcs = pcs[t := Claimed start i]\<rparr> = \<lparr>pm_pool = q, pm_pcs = pcs[t := acquired r]\<rparr>"
        using t Some by (intro turn_alone) (simp_all add: idx1 Let_def acquired_def, simp add: p1_def)
      then show ?thesis using claim by (intro exI [of _ 2]) (simp add: numeral_2_eq_2)
    qed
  qed
qed

section \<open>Properties\<close>

text \<open>A Wasmtime that makes every store, with two bytes of memory and no exports but the memory.\<close>

definition plain_wasmtime :: wasmtime where
  "plain_wasmtime = \<lparr>wt_store_new = (\<lambda>_. True), wt_instantiate = (\<lambda>_ _. Some (''ab'', [])),
     wt_export = (\<lambda>_ name. if name = ''memory'' then Some WASMTIME_EXTERN_MEMORY else None),
     wt_alloc = (\<lambda>_ _ _ m. (None, m)), wt_call = (\<lambda>_ _ _ rs. (rs, Call_Done 0))\<rparr>"

definition plain_engine :: vwasm_engine where
  "plain_engine = (the (vwasm_engine_new (\<lambda>_. True)))
     \<lparr>eng_modules := [\<lparr>me_name = ''m'', me_module = 0, me_pre = 0\<rparr>]\<rparr>"

definition new_pool :: store_pool where
  "new_pool = the (vwasm_store_pool_new (\<lambda>_. True) plain_wasmtime 3 None (Some plain_engine) (Some 0))"

lemma new_pool_new: "vwasm_store_pool_new (\<lambda>_. True) plain_wasmtime 3 None (Some plain_engine) (Some 0) = Some new_pool"
proof -
  have "vwasm_store_pool_new (\<lambda>_. True) plain_wasmtime 3 None (Some plain_engine) (Some 0) \<noteq> None"
    by (simp add: vwasm_store_pool_new_def Let_def)
  then show ?thesis by (auto simp: new_pool_def)
qed

text \<open>C4: a pooled store has one user at a time. In any interleaving of any number of threads acquiring,
  using and releasing slots of a new pool, two different threads never hold the same slot, and the slot of
  a thread is marked as in use as long as it holds it.\<close>

theorem pool_slot_exclusive:
  assumes "vwasm_store_pool_new al wt slots wi engine entryp = Some pool"
    and "(pool_step w d)\<^sup>*\<^sup>* (pool_start n pool) m"
    and "t < n" "u < n" "t \<noteq> u" "pm_pcs m ! t = Holding i" "pm_pcs m ! u = Holding j"
  shows "i \<noteq> j \<and> sp_in_use (pm_pool m) ! i \<and> sp_in_use (pm_pool m) ! j"
proof -
  have n: "length (pm_pcs m) = n" using run_threads [OF assms(2)] by (simp add: pool_start_def)
  have inv: "pool_inv m" by (rule threads.run_keeps [OF assms(2) start_inv [OF assms(1)]])
  have "i \<noteq> j" using holding_unique [OF inv, of t u i] assms(3-7) n by auto
  then show ?thesis using holding_marked [OF inv] assms(3,4,6,7) n by simp
qed

text \<open>Turns of two threads after which both hold a slot.\<close>

definition two_holders :: pool_machine where
  "two_holders = fold (pool_turn None 5) [0, 1, 1, 0, 0, 1] (pool_start 2 new_pool)"

lemma turns_steps:
  "list_all (\<lambda>t. t < length (pm_pcs m)) ts \<Longrightarrow> (pool_step w d)\<^sup>*\<^sup>* m (fold (pool_turn w d) ts m)"
proof (induction ts arbitrary: m)
  case (Cons t ts)
  then have "pool_step w d m (pool_turn w d t m)" by (intro pool_step.turn) simp
  moreover have "(pool_step w d)\<^sup>*\<^sup>* (pool_turn w d t m) (fold (pool_turn w d) ts (pool_turn w d t m))"
    using Cons by (simp add: turn_simps)
  ultimately show ?case by (simp add: converse_rtranclp_into_rtranclp)
qed simp

theorem pool_slot_exclusive_witness:
  "\<exists>i j. pm_pcs two_holders ! 0 = Holding i \<and> pm_pcs two_holders ! 1 = Holding j \<and> i \<noteq> j"
proof -
  have pcs: "pm_pcs two_holders ! 0 = Holding 0 \<and> pm_pcs two_holders ! 1 = Holding 1" by code_simp
  have "(pool_step None 5)\<^sup>*\<^sup>* (pool_start 2 new_pool) two_holders"
    unfolding two_holders_def by (rule turns_steps) (simp add: pool_start_def)
  from pool_slot_exclusive [OF new_pool_new this, of 0 1 0 1] pcs show ?thesis by simp
qed

text \<open>The statistics of a pool. In any interleaving the acquires and the releases counted, in 64-bit
  arithmetic, differ by the number of slots that are held or whose release is not yet counted.\<close>

theorem pool_stats_conserved:
  assumes "vwasm_store_pool_new al wt slots wi engine entryp = Some pool"
    and "(pool_step w d)\<^sup>*\<^sup>* (pool_start n pool) m"
  shows "sp_acquires (pm_pool m) - sp_releases (pm_pool m) = of_nat (length (filter outstanding (pm_pcs m)))"
  using threads.run_keeps [OF assms(2) start_inv [OF assms(1)]] by (simp add: pool_inv_def)

theorem pool_stats_conserved_witness:
  "sp_acquires (pm_pool two_holders) - sp_releases (pm_pool two_holders) = of_nat (length (filter outstanding (pm_pcs two_holders)))"
proof -
  have "(pool_step None 5)\<^sup>*\<^sup>* (pool_start 2 new_pool) two_holders"
    unfolding two_holders_def by (rule turns_steps) (simp add: pool_start_def)
  from pool_stats_conserved [OF new_pool_new this] show ?thesis .
qed

text \<open>C13: acquire is wait-free. Whatever the other threads do, a thread that begins its scan has left the
  acquire, with a slot or with NULL, after at most twice the capacity plus one of its own turns; and a turn
  is always possible, none waits for another thread.\<close>

theorem acquire_wait_free:
  assumes "pool_run w d m ts m'" "pool_inv m" "t < length (pm_pcs m)" "pm_pcs m ! t = Scan start 0"
    and "count_list ts t > 2 * sp_capacity (pm_pool m)"
  shows "\<exists>ts1 ts2 m1. ts = ts1 @ ts2 \<and> pool_run w d m ts1 m1 \<and>
           count_list ts1 t \<le> 2 * sp_capacity (pm_pool m) + 1 \<and>
           (pm_pcs m1 ! t = Idle \<or> (\<exists>idx. pm_pcs m1 ! t = Holding idx))"
  using acquire_progress [OF assms(1-4)]
proof
  assume busy: "acquiring (pm_pcs m' ! t) \<and>
    count_list ts t + turns_left (sp_capacity (pm_pool m)) (pm_pcs m' ! t) \<le> 2 * sp_capacity (pm_pool m) + 1"
  have "pool_inv m'" "length (pm_pcs m') = length (pm_pcs m)" "sp_capacity (pm_pool m') = sp_capacity (pm_pool m)"
    using run_keeps_shape [OF assms(1,2)] by simp_all
  then have "0 < turns_left (sp_capacity (pm_pool m)) (pm_pcs m' ! t)"
    using turns_left_pos [of "pm_pcs m' ! t" "pm_pool m'"] busy assms(3) by (simp add: pool_inv_def list_all_length)
  then show ?thesis using busy assms(5) by simp
qed

lemma turns_run:
  "list_all (\<lambda>t. t < length (pm_pcs m)) ts \<Longrightarrow> pool_run w d m ts (fold (pool_turn w d) ts m)"
proof (induction ts rule: rev_induct)
  case (snoc t ts)
  then have run: "pool_run w d m ts (fold (pool_turn w d) ts m)" by simp
  have "length (pm_pcs (fold (pool_turn w d) us m)) = length (pm_pcs m)" for us
    by (induction us rule: rev_induct) (simp_all add: turn_simps)
  then show ?case using pool_run.run_turn [OF run, of t] snoc by simp
qed (simp add: pool_run.run_start)

theorem acquire_wait_free_witness:
  "\<exists>ts1 ts2 m1. replicate 17 0 = ts1 @ ts2 \<and> pool_run None 5 (pool_turn None 5 0 (pool_start 1 new_pool)) ts1 m1 \<and>
     count_list ts1 0 \<le> 17 \<and> (pm_pcs m1 ! 0 = Idle \<or> (\<exists>idx. pm_pcs m1 ! 0 = Holding idx))"
proof -
  define m where "m = pool_turn None 5 0 (pool_start 1 new_pool)"
  have cap: "sp_capacity new_pool = 8" using store_pool_new_fields(7) [OF new_pool_new] by (simp add: pool_limits)
  have inv: "pool_inv m" unfolding m_def by (rule turn_inv [OF _ start_inv [OF new_pool_new]]) (simp add: pool_start_def)
  have m: "length (pm_pcs m) = 1" "sp_capacity (pm_pool m) = 8" "pm_pcs m ! 0 = Scan (sp_scan_hint new_pool) 0"
    using cap by (simp_all add: m_def turn_simps act_capacity pool_start_def)
  have "pool_run None 5 m (replicate 17 0) (fold (pool_turn None 5) (replicate 17 0) m)"
    by (rule turns_run) (simp add: m list_all_length)
  from acquire_wait_free [OF this inv _ m(3)] show ?thesis unfolding m_def [symmetric] m(2) by (simp add: m(1) count_list_eq_length_filter)
qed

text \<open>C25: a thread that is not disturbed runs the functions: from any pool and any states of the other
  threads, its turns lead from outside to what \<open>vwasm_store_pool_acquire\<close> returns, and from holding a slot
  to what \<open>vwasm_store_pool_release\<close> leaves.\<close>

theorem alone_runs_functions:
  assumes "t < length pcs"
  shows "(\<exists>k. (pool_turn w d t ^^ k) \<lparr>pm_pool = p, pm_pcs = pcs[t := Idle]\<rparr> =
           \<lparr>pm_pool = the (fst (vwasm_store_pool_acquire w d (Some p))),
            pm_pcs = pcs[t := acquired (snd (vwasm_store_pool_acquire w d (Some p)))]\<rparr>) \<and>
         (sp_slots p ! idx = Some idx \<longrightarrow>
          (pool_turn w d t ^^ 2) \<lparr>pm_pool = p, pm_pcs = pcs[t := Holding idx]\<rparr> =
           \<lparr>pm_pool = the (vwasm_store_pool_release (Some p) (Some idx)), pm_pcs = pcs[t := Idle]\<rparr>)"
proof (intro conjI impI)
  define p1 where "p1 = p\<lparr>sp_scan_hint := sp_scan_hint p + 1\<rparr>"
  obtain q r where scan: "acquire_scan w d (sp_scan_hint p) 0 (sp_capacity p1) p1 = (q, r)" by fastforce
  have acq: "vwasm_store_pool_acquire w d (Some p) = (Some q, r)"
    using scan by (simp add: vwasm_store_pool_acquire_def p1_def Let_def)
  have first: "pool_turn w d t \<lparr>pm_pool = p, pm_pcs = pcs[t := Idle]\<rparr> = \<lparr>pm_pool = p1, pm_pcs = pcs[t := Scan (sp_scan_hint p) 0]\<rparr>"
    using assms(1) by (intro turn_alone) (simp_all add: p1_def)
  obtain k where "(pool_turn w d t ^^ k) \<lparr>pm_pool = p1, pm_pcs = pcs[t := Scan (sp_scan_hint p) 0]\<rparr> =
      \<lparr>pm_pool = q, pm_pcs = pcs[t := acquired r]\<rparr>"
    using scan_alone [OF assms(1) _ scan] by auto
  then show "\<exists>k. (pool_turn w d t ^^ k) \<lparr>pm_pool = p, pm_pcs = pcs[t := Idle]\<rparr> =
      \<lparr>pm_pool = the (fst (vwasm_store_pool_acquire w d (Some p))),
       pm_pcs = pcs[t := acquired (snd (vwasm_store_pool_acquire w d (Some p)))]\<rparr>"
    using first by (intro exI [of _ "Suc k"]) (simp add: acq funpow_Suc_right del: funpow.simps)
next
  assume "sp_slots p ! idx = Some idx"
  then show "(pool_turn w d t ^^ 2) \<lparr>pm_pool = p, pm_pcs = pcs[t := Holding idx]\<rparr> =
      \<lparr>pm_pool = the (vwasm_store_pool_release (Some p) (Some idx)), pm_pcs = pcs[t := Idle]\<rparr>"
    using assms(1) by (simp add: numeral_2_eq_2 pool_turn_def vwasm_store_pool_release_def Let_def)
qed

theorem alone_runs_functions_witness:
  "(\<exists>k. (pool_turn None 5 1 ^^ k) \<lparr>pm_pool = plain_pool, pm_pcs = [Holding 0, Idle]\<rparr> =
     \<lparr>pm_pool = the (fst (vwasm_store_pool_acquire None 5 (Some plain_pool))),
      pm_pcs = [Holding 0, acquired (snd (vwasm_store_pool_acquire None 5 (Some plain_pool)))]\<rparr>) \<and>
   (pool_turn None 5 1 ^^ 2) \<lparr>pm_pool = plain_pool, pm_pcs = [Idle, Holding 0]\<rparr> =
     \<lparr>pm_pool = the (vwasm_store_pool_release (Some plain_pool) (Some 0)), pm_pcs = [Idle, Idle]\<rparr>"
proof -
  have "sp_slots plain_pool ! 0 = Some 0" by (simp add: plain_pool_def)
  then show ?thesis
    using alone_runs_functions [of 1 "[Holding 0, Idle]" None 5 plain_pool 0]
      alone_runs_functions [of 1 "[Idle, Holding 0]" None 5 plain_pool 0] by simp
qed

end
