(* ===== verification/Lifecycle.thy ===== *)
theory Lifecycle
  imports Store_Pool
begin

text \<open>
  Executing a module for a request or a response: \<open>proxy_wasm_execute\<close> of \<^verbatim>\<open>src/wasm_engine.c\<close>, its four
  wrappers and the two filter chains. What the guest does is Wasmtime's parameter; what Varnish answers (the
  request body, the private task pointer, the clock) is the record \<open>exec_env\<close>. Besides what the C code
  leaves behind, an execution yields a trace of the deadlines set and the callbacks made, and the list
  of what was done to its store, so that their order and number can be stated.
\<close>

definition VWASM_PHASE_REQUEST :: nat where "VWASM_PHASE_REQUEST = 0"
definition VWASM_PHASE_RESPONSE :: nat where "VWASM_PHASE_RESPONSE = 1"
definition VWASM_MAX_BODY_CACHE :: nat where "VWASM_MAX_BODY_CACHE = 1024 * 1024"
definition VWASM_BODY_STACK_MAX :: nat where "VWASM_BODY_STACK_MAX = 64 * 1024"

lemmas exec_consts = VWASM_PHASE_REQUEST_def VWASM_PHASE_RESPONSE_def VWASM_MAX_BODY_CACHE_def VWASM_BODY_STACK_MAX_def

text \<open>The allocator (0 to 4 the global stores, 5 the body, 6 the task), whether \<open>ctx->vsl\<close> is set, the message of
  a failed instantiation (of an error or of a trap), whether \<open>ctx->req\<close> is set, whether the request has a
  body, what \<open>VRT_CacheReqBody\<close> returns, the pieces \<open>VRB_Iterate\<close> passes on and whether it succeeds if no
  callback stops it, whether \<open>VRT_priv_task\<close> finds room, and the milliseconds the execution took.\<close>

record exec_env =
  xe_al :: malloc
  xe_vsl :: bool
  xe_failure :: "bytes + bytes"
  xe_req :: bool
  xe_has_body :: bool
  xe_cache :: "nat \<Rightarrow> int"
  xe_pieces :: "bytes list"
  xe_iterate :: bool
  xe_priv_task :: bool
  xe_elapsed :: int

datatype exec_event = Deadline u64 | Call bytes "u32 list"

record exec =
  ex_rs :: run_state
  ex_events :: "exec_event list"

abbreviation ex_ctx :: "exec \<Rightarrow> proxy_ctx" where
  "ex_ctx x \<equiv> hs_ctx (rs_host (ex_rs x))"

definition ex_set_ctx :: "proxy_ctx \<Rightarrow> exec \<Rightarrow> exec" where
  "ex_set_ctx ctx x = x\<lparr>ex_rs := (ex_rs x)\<lparr>rs_host := (rs_host (ex_rs x))\<lparr>hs_ctx := ctx\<rparr>\<rparr>\<rparr>"

definition set_deadline :: "u64 \<Rightarrow> exec \<Rightarrow> exec" where
  "set_deadline d x = x\<lparr>ex_events := ex_events x @ [Deadline d]\<rparr>"

text \<open>The two helpers with the trace: a callback the module does not export leaves none.\<close>

definition ex_call :: "wasmtime \<Rightarrow> nat \<Rightarrow> bytes \<Rightarrow> u32 list \<Rightarrow> exec \<Rightarrow> exec \<times> u32 option" where
  "ex_call wt pre name args x =
     (case call_wasm_func wt pre name args (ex_rs x) of
        (rs, r) \<Rightarrow> (\<lparr>ex_rs = rs, ex_events = ex_events x @ (if is_func wt pre name then [Call name args] else [])\<rparr>, r))"

definition ex_void :: "wasmtime \<Rightarrow> nat \<Rightarrow> bytes \<Rightarrow> u32 list \<Rightarrow> exec \<Rightarrow> exec" where
  "ex_void wt pre name args x =
     (case call_wasm_void wt pre name args (ex_rs x) of
        (rs, _) \<Rightarrow> \<lparr>ex_rs = rs, ex_events = ex_events x @ (if is_func wt pre name then [Call name args] else [])\<rparr>)"

section \<open>Logging\<close>

definition log_trap :: "bool \<Rightarrow> bytes \<Rightarrow> bytes \<Rightarrow> bytes \<Rightarrow> (vsl_tag \<times> bytes) list" where
  "log_trap vsl msg module_name func_name =
     (if \<not> vsl then []
      else if msg \<noteq> [] then [(SLT_Error, ''wasm: trap in '' @ module_name @ ''.'' @ func_name @ '': '' @ msg)]
      else [(SLT_Error, ''wasm: trap in '' @ module_name @ ''.'' @ func_name @ '' (no message)'')])"

text \<open>Called with no error it logs nothing.\<close>

definition log_error :: "bool \<Rightarrow> bytes option \<Rightarrow> bytes \<Rightarrow> bytes \<Rightarrow> (vsl_tag \<times> bytes) list" where
  "log_error vsl error module_name func_name =
     (case error of
        None \<Rightarrow> []
      | Some msg \<Rightarrow>
          if \<not> vsl then []
          else if msg \<noteq> [] then [(SLT_Error, ''wasm: error in '' @ module_name @ ''.'' @ func_name @ '': '' @ msg)]
          else [(SLT_Error, ''wasm: error in '' @ module_name @ ''.'' @ func_name @ '' (no message)'')])"

section \<open>The store and the context\<close>

text \<open>The engine afterwards and the slot of the pooled store, if there is one.\<close>

definition exec_acquire :: "vwasm_engine \<Rightarrow> nat \<Rightarrow> vwasm_engine \<times> nat option" where
  "exec_acquire e pool_idx =
     (if pool_idx < MAX_MODULES then
        (case eng_pools e ! pool_idx of
           None \<Rightarrow> (e, None)
         | Some pool \<Rightarrow>
             if has_initialize (warm_instances e ! pool_idx) then
               (e\<lparr>eng_pools := (eng_pools e)[pool_idx := Some (pool\<lparr>sp_fallbacks := sp_fallbacks pool + 1\<rparr>)]\<rparr>, None)
             else
               (case vwasm_store_pool_acquire (map_option ((!) (warm_instances e)) (sp_warm_ref pool))
                       (vwasm_engine_get_epoch_deadline_ms (Some e)) (Some pool) of
                  (p, r) \<Rightarrow> (e\<lparr>eng_pools := (eng_pools e)[pool_idx := p]\<rparr>, r)))
      else (e, None))"

definition exec_context ::
  "exec_env \<Rightarrow> vwasm_engine \<Rightarrow> vrt_ctx \<Rightarrow> bytes \<Rightarrow> bytes option \<Rightarrow> bytes option \<Rightarrow> global_stores \<Rightarrow> global_stores \<times> proxy_ctx" where
  "exec_context xe e vrtc module_name vm_cfg plugin_cfg g =
     (case open_stores (xe_al xe) g ((pctx_zero [] (\<lambda>_ m. (None, m)))
             \<lparr>vrt := Some vrtc, engine_set := True, root_context_id := 1, stream_context_id := 2,
              mod_name := Some module_name, vm_config := map_option cstr vm_cfg,
              plugin_config := map_option cstr plugin_cfg\<rparr>) of
        (g, ctx) \<Rightarrow> (g, ctx\<lparr>http_call_max := eng_http_call_max e, http_timeout_ms := eng_http_timeout_ms e,
                         allowed_upstreams := eng_allowed_upstreams e, wasm_ctx := True\<rparr>))"

section \<open>The callbacks\<close>

text \<open>A fresh store runs the whole initialization; a pooled one only gets the configurations that are not
  empty.\<close>

definition exec_init :: "wasmtime \<Rightarrow> nat \<Rightarrow> u64 \<Rightarrow> bool \<Rightarrow> nat \<Rightarrow> nat \<Rightarrow> exec \<Rightarrow> exec" where
  "exec_init wt pre d pooled vm_config_len plugin_config_len x =
     (if \<not> pooled then
        (let x = ex_void wt pre ''_initialize'' [] x;
             x = set_deadline d x;
             x = ex_void wt pre ''proxy_on_context_create'' [root_context_id (ex_ctx x), 0] x;
             x = set_deadline d x;
             x = fst (ex_call wt pre ''proxy_on_vm_start'' [root_context_id (ex_ctx x), of_nat vm_config_len] x);
             x = set_deadline d x
         in fst (ex_call wt pre ''proxy_on_configure'' [root_context_id (ex_ctx x), of_nat plugin_config_len] x))
      else
        (let x = (if vm_config_len > 0 then
                    (let x = set_deadline d x
                     in fst (ex_call wt pre ''proxy_on_vm_start'' [root_context_id (ex_ctx x), of_nat vm_config_len] x))
                  else x)
         in if plugin_config_len > 0 then
              (let x = set_deadline d x
               in fst (ex_call wt pre ''proxy_on_configure'' [root_context_id (ex_ctx x), of_nat plugin_config_len] x))
            else x))"

definition phase_headers_fn :: "nat \<Rightarrow> bytes" where
  "phase_headers_fn phase =
     (if phase = VWASM_PHASE_REQUEST then ''proxy_on_request_headers'' else ''proxy_on_response_headers'')"

definition phase_body_fn :: "nat \<Rightarrow> bytes" where
  "phase_body_fn phase =
     (if phase = VWASM_PHASE_REQUEST then ''proxy_on_request_body'' else ''proxy_on_response_body'')"

definition exec_num_headers :: "nat \<Rightarrow> proxy_ctx \<Rightarrow> nat" where
  "exec_num_headers phase ctx =
     (case vrt ctx of
        None \<Rightarrow> 0
      | Some v \<Rightarrow>
          (let hp = (if phase = VWASM_PHASE_REQUEST then http_req v
                     else if http_beresp v \<noteq> None then http_beresp v else http_resp v)
           in case hp of None \<Rightarrow> 0 | Some h \<Rightarrow> length (hd_lines h)))"

text \<open>The stream context and the headers callback, with its action unless it failed.\<close>

definition exec_headers :: "wasmtime \<Rightarrow> nat \<Rightarrow> u64 \<Rightarrow> nat \<Rightarrow> exec \<Rightarrow> exec \<times> u32 option" where
  "exec_headers wt pre d phase x =
     (let x = set_deadline d x;
          x = ex_void wt pre ''proxy_on_context_create'' [stream_context_id (ex_ctx x), root_context_id (ex_ctx x)] x;
          x = set_deadline d x
      in ex_call wt pre (phase_headers_fn phase)
           [stream_context_id (ex_ctx x), of_nat (exec_num_headers phase (ex_ctx x)), 1] x)"

text \<open>The walk over the tree of callouts: \<open>VRBT_FOREACH_SAFE\<close> takes the successor before the body runs, so
  a callout the body makes is visited unless the body ran for the last entry. \<open>cur\<close> is the token of the
  entry to visit.\<close>

definition next_call :: "u32 \<Rightarrow> http_call_entry list \<Rightarrow> u32 option" where
  "next_call tok calls = map_option hce_token (find (\<lambda>e. tok < hce_token e) calls)"

definition http_call_callback :: "wasmtime \<Rightarrow> nat \<Rightarrow> http_call_entry \<Rightarrow> exec \<Rightarrow> exec" where
  "http_call_callback wt pre ent x =
     (let x = set_deadline VWASM_DEFAULT_EPOCH_DEADLINE_MS x;
          x = ex_set_ctx (ex_ctx x\<lparr>active_http_call := Some ent\<rparr>) x;
          x = ex_void wt pre ''proxy_on_http_call_response''
                [stream_context_id (ex_ctx x), hce_token ent, hcr_num_headers (hce_response ent),
                 of_nat (buf_len (hcr_body (hce_response ent))), 0] x
      in ex_set_ctx (ex_ctx x\<lparr>active_http_call := None\<rparr>) x)"

function deferred_calls :: "wasmtime \<Rightarrow> nat \<Rightarrow> u32 option \<Rightarrow> exec \<Rightarrow> exec \<times> bool" where
  "deferred_calls wt pre cur x =
     (case cur of
        None \<Rightarrow> (x, False)
      | Some tok \<Rightarrow>
          (case find (\<lambda>e. hce_token e = tok) (http_calls (ex_ctx x)) of
             None \<Rightarrow> (x, False)
           | Some ent \<Rightarrow>
               (let nxt = next_call tok (http_calls (ex_ctx x));
                    x = http_call_callback wt pre ent x
                in if local_response_set (ex_ctx x) then (x, True) else deferred_calls wt pre nxt x)))"
  by pat_completeness auto

lemma next_call_gt: "next_call tok calls = Some t \<Longrightarrow> tok < t"
  by (auto simp: next_call_def find_Some_iff)

termination deferred_calls
proof (relation "measure (\<lambda>(wt, pre, cur, x). case cur of None \<Rightarrow> 0 | Some tok \<Rightarrow> 2 ^ 32 - unat tok)", goal_cases)
  case (2 wt pre cur x tok ent nxt x')
  have "unat tok < 2 ^ 32" using unsigned_less [of tok, where 'a = nat] by simp
  moreover have "unat tok < unat t" if "nxt = Some t" for t
    using next_call_gt [of tok _ t] 2 that by (simp add: word_less_nat_alt)
  ultimately have "(case nxt of None \<Rightarrow> 0 | Some t \<Rightarrow> 2 ^ 32 - unat t) < 2 ^ 32 - unat tok"
    by (cases nxt) (simp_all add: diff_less_mono2)
  then show ?case using 2 by simp
qed simp

declare deferred_calls.simps [simp del]

section \<open>The request body\<close>

definition body_collect_cb :: "nat \<Rightarrow> bytes \<Rightarrow> bytes \<Rightarrow> bytes \<times> int" where
  "body_collect_cb bc_cap bc_buf piece =
     (if length piece = 0 then (bc_buf, 0)
      else if length bc_buf + length piece > bc_cap then (bc_buf, -1)
      else (bc_buf @ piece, 0))"

text \<open>Varnish's iteration: it hands on piece after piece until a callback does not return 0.\<close>

fun vrb_iterate :: "(bytes \<Rightarrow> bytes \<Rightarrow> bytes \<times> int) \<Rightarrow> bytes list \<Rightarrow> bytes \<Rightarrow> bytes \<times> int" where
  "vrb_iterate cb [] buf = (buf, 0)"
| "vrb_iterate cb (p # ps) buf = (case cb buf p of (buf, r) \<Rightarrow> if r \<noteq> 0 then (buf, r) else vrb_iterate cb ps buf)"

text \<open>The body the module will see, with the flag \<open>request_body_heap\<close>. A body of at most 64 KiB is left in an
  array of the block that reads it; the pointer to it is used after the block, where the model keeps the
  bytes.\<close>

definition exec_request_body :: "exec_env \<Rightarrow> (bytes \<times> bool) option" where
  "exec_request_body xe =
     (let cached_size = xe_cache xe VWASM_MAX_BODY_CACHE in
      if cached_size > 0 then
        (let heap_alloc = (\<not> nat cached_size \<le> VWASM_BODY_STACK_MAX) in
         if heap_alloc \<and> \<not> xe_al xe 5 then None
         else
           (case vrb_iterate (body_collect_cb (nat cached_size)) (xe_pieces xe) [] of
              (buf, r) \<Rightarrow> if r \<ge> 0 \<and> xe_iterate xe \<and> length buf > 0 then Some (buf, heap_alloc) else None))
      else None)"

section \<open>Statistics and the end of the store\<close>

definition add_stats :: "int \<Rightarrow> bool \<Rightarrow> proxy_ctx \<Rightarrow> vwasm_stats \<Rightarrow> vwasm_stats" where
  "add_stats rv slow ctx s =
     (let s = s\<lparr>calls_total := calls_total s + 1\<rparr>;
          s = (if rv \<ge> 0 then s\<lparr>calls_ok_cnt := calls_ok_cnt s + 1\<rparr> else s\<lparr>calls_error := calls_error s + 1\<rparr>);
          s = (if slow then s\<lparr>calls_timeout := calls_timeout s + 1\<rparr> else s);
          s = (if local_response_set ctx then s\<lparr>local_responses := local_responses s + 1\<rparr> else s);
          s = (if http_call_count ctx > 0 then s\<lparr>http_calls_cnt := http_calls_cnt s + ucast (http_call_count ctx)\<rparr> else s);
          s = (if buf_len (request_body ctx) > 0
               then s\<lparr>body_bytes_in := body_bytes_in s + of_nat (buf_len (request_body ctx))\<rparr> else s)
      in if buf_len (response_body ctx) > 0
         then s\<lparr>body_bytes_in := body_bytes_in s + of_nat (buf_len (response_body ctx))\<rparr> else s)"

datatype store_end = Store_Deleted | Store_Released | Store_Deferred

text \<open>Giving the store back: to the pool, with what the guest left in it, or to Wasmtime.\<close>

definition pool_put_back :: "nat \<Rightarrow> bytes \<Rightarrow> u64 list \<Rightarrow> store_pool \<Rightarrow> store_pool" where
  "pool_put_back slot mem globs pool =
     pool\<lparr>sp_objects := (sp_objects pool)[slot := (sp_objects pool ! slot)
       \<lparr>ps_store := map_option (\<lambda>st. st\<lparr>ws_memory := mem, ws_globals := globs, ws_data := True\<rparr>)
                     (ps_store (sp_objects pool ! slot))\<rparr>]\<rparr>"

definition exec_end_store :: "nat \<Rightarrow> nat option \<Rightarrow> bytes \<Rightarrow> u64 list \<Rightarrow> vwasm_engine \<Rightarrow> vwasm_engine \<times> store_end" where
  "exec_end_store pool_idx pooled mem globs e =
     (case pooled of
        None \<Rightarrow> (e, Store_Deleted)
      | Some slot \<Rightarrow>
          (e\<lparr>eng_pools := (eng_pools e)[pool_idx :=
              vwasm_store_pool_release (map_option (pool_put_back slot mem globs) (eng_pools e ! pool_idx)) (Some slot)]\<rparr>,
           Store_Released))"

text \<open>What is kept for the delivery processor. \<open>vt_store\<close> is whether the store is still there.\<close>

record vdp_wasm_task =
  vt_store :: bool
  vt_pre :: nat
  vt_ctx :: proxy_ctx
  vt_globals :: "u64 list"
  vt_body_fn :: "bytes option"
  vt_pooled :: "nat option"
  vt_pool_idx :: nat

text \<open>The result: what the C code leaves (the engine, the stores, the messages, the log, the task pointer, the
  return value and the status), whether the host wrote outside the guest's memory, and the ghosts.\<close>

record exec_result =
  er_engine :: vwasm_engine
  er_stores :: global_stores
  er_vrt :: vrt_ctx
  er_log :: "(vsl_tag \<times> bytes) list"
  er_task :: "vdp_wasm_task option"
  er_rv :: int
  er_status :: int
  er_fault :: bool
  er_events :: "exec_event list"
  er_ends :: "store_end list"

definition ex_engine :: "vwasm_engine \<Rightarrow> exec \<Rightarrow> vwasm_engine" where
  "ex_engine e x = (case hs_engine (rs_host (ex_rs x)) of None \<Rightarrow> e | Some e \<Rightarrow> e)"

definition ex_vrt :: "vrt_ctx \<Rightarrow> exec \<Rightarrow> vrt_ctx" where
  "ex_vrt v x = (case vrt (ex_ctx x) of None \<Rightarrow> v | Some v \<Rightarrow> v)"

text \<open>The label \<open>cleanup\<close>. \<open>ends\<close> is what was already done to the store.\<close>

definition exec_cleanup ::
  "exec_env \<Rightarrow> vwasm_engine \<Rightarrow> vrt_ctx \<Rightarrow> bytes \<Rightarrow> global_stores \<Rightarrow> nat \<Rightarrow> nat option \<Rightarrow> int \<Rightarrow> int \<Rightarrow> store_end list \<Rightarrow> exec
   \<Rightarrow> exec_result" where
  "exec_cleanup xe e v module_name g pool_idx pooled rv status ends x =
     (let ctx = ex_ctx x;
          slow = (xe_elapsed xe > 10);
          log = hs_log (rs_host (ex_rs x)) @
                (if slow then [(SLT_VCL_Log, ''vmod-wasm: '' @ module_name @ '' execution took '' @
                                             dec (nat (xe_elapsed xe)) @ ''ms'')] else []);
          e = ex_engine e x;
          e = e\<lparr>eng_stats := add_stats rv slow ctx (eng_stats e)\<rparr>
      in case exec_end_store pool_idx pooled (memory ctx) (rs_globals (ex_rs x)) e of
           (e, en) \<Rightarrow>
             \<lparr>er_engine = e, er_stores = close_stores ctx g, er_vrt = ex_vrt v x, er_log = log, er_task = None,
              er_rv = rv, er_status = status, er_fault = mem_fault ctx, er_events = ex_events x,
              er_ends = ends @ [en]\<rparr>)"

section \<open>Execution\<close>

text \<open>How the callbacks end: with a return value and a status, or with the response body left to the delivery
  processor.\<close>

datatype exec_outcome = Finished int int | Deferred u32

definition exec_tail :: "wasmtime \<Rightarrow> nat \<Rightarrow> exec \<Rightarrow> exec" where
  "exec_tail wt pre x =
     (let x = ex_void wt pre ''proxy_on_log'' [stream_context_id (ex_ctx x)] x;
          x = fst (ex_call wt pre ''proxy_on_done'' [stream_context_id (ex_ctx x)] x)
      in ex_void wt pre ''proxy_on_delete'' [stream_context_id (ex_ctx x)] x)"

text \<open>From the body callback on.\<close>

definition exec_body :: "wasmtime \<Rightarrow> exec_env \<Rightarrow> nat \<Rightarrow> nat \<Rightarrow> u32 \<Rightarrow> exec \<Rightarrow> exec \<times> exec_outcome" where
  "exec_body wt xe pre phase action x =
     (let has_body_handler = is_func wt pre (phase_body_fn phase);
          x = (if has_body_handler \<and> phase = VWASM_PHASE_REQUEST \<and> xe_req xe \<and> xe_has_body xe then
                 (case exec_request_body xe of
                    None \<Rightarrow> x
                  | Some (b, _) \<Rightarrow> ex_set_ctx (ex_ctx x\<lparr>request_body := Some b\<rparr>) x)
               else x)
      in if has_body_handler \<and> phase = VWASM_PHASE_RESPONSE then (x, Deferred action)
         else
           (let x = (if has_body_handler \<and> phase = VWASM_PHASE_REQUEST then
                       fst (ex_call wt pre (phase_body_fn phase)
                              [stream_context_id (ex_ctx x), of_nat (buf_len (request_body (ex_ctx x))), 1] x)
                     else x);
                x = exec_tail wt pre x
            in (x, Finished (sint action)
                     (if local_response_set (ex_ctx x) then local_response_code (ex_ctx x) else 0))))"

text \<open>From the headers callback on: its failure, the callouts, a local response, a pause.\<close>

definition exec_callbacks :: "wasmtime \<Rightarrow> exec_env \<Rightarrow> nat \<Rightarrow> u64 \<Rightarrow> nat \<Rightarrow> exec \<Rightarrow> exec \<times> exec_outcome" where
  "exec_callbacks wt xe pre d phase x =
     (case exec_headers wt pre d phase x of
        (x, None) \<Rightarrow> (x, Finished (-1) 0)
      | (x, Some action) \<Rightarrow>
          (let calls = (http_calls (ex_ctx x) \<noteq> [] \<and> is_func wt pre ''proxy_on_http_call_response'') in
           case (if calls
                 then deferred_calls wt pre (Some (hce_token (hd (http_calls (ex_ctx x))))) x
                 else (x, False)) of
             (x, stopped) \<Rightarrow>
               (let action = (if calls \<and> \<not> stopped then 0 else action) in
                if local_response_set (ex_ctx x) then (x, Finished 0 (local_response_code (ex_ctx x)))
                else if action = 1 then (ex_set_ctx (ex_ctx x\<lparr>paused := True\<rparr>) x, Finished 0 0)
                else exec_body wt xe pre phase action x)))"

text \<open>Leaving the response body to the delivery processor. Without a private task pointer the context is
  cleaned up and the store is given back here, and then again at the label \<open>cleanup\<close>.\<close>

definition exec_defer ::
  "exec_env \<Rightarrow> vwasm_engine \<Rightarrow> vrt_ctx \<Rightarrow> bytes \<Rightarrow> global_stores \<Rightarrow> nat \<Rightarrow> nat \<Rightarrow> nat option \<Rightarrow> u32 \<Rightarrow> exec \<Rightarrow> exec_result" where
  "exec_defer xe e v module_name g pre pool_idx pooled action x =
     (if \<not> xe_al xe 6 then exec_cleanup xe e v module_name g pool_idx pooled (-1) 0 [] x
      else if \<not> xe_priv_task xe then
        (case exec_end_store pool_idx pooled (memory (ex_ctx x)) (rs_globals (ex_rs x)) (ex_engine e x) of
           (e, en) \<Rightarrow>
             exec_cleanup xe e v module_name g pool_idx pooled (-1) 0 [en]
               (x\<lparr>ex_rs := (ex_rs x)\<lparr>rs_host := (rs_host (ex_rs x))\<lparr>hs_engine := Some e\<rparr>\<rparr>\<rparr>))
      else
        (let e = ex_engine e x;
             s = eng_stats e;
             s = s\<lparr>calls_total := calls_total s + 1\<rparr>;
             s = (if local_response_set (ex_ctx x) then s\<lparr>local_responses := local_responses s + 1\<rparr> else s)
         in \<lparr>er_engine = e\<lparr>eng_stats := s\<rparr>, er_stores = close_stores (ex_ctx x) g, er_vrt = ex_vrt v x,
             er_log = hs_log (rs_host (ex_rs x)),
             er_task = Some \<lparr>vt_store = True, vt_pre = pre, vt_ctx = ex_ctx x, vt_globals = rs_globals (ex_rs x),
                             vt_body_fn = Some (phase_body_fn VWASM_PHASE_RESPONSE), vt_pooled = pooled,
                             vt_pool_idx = pool_idx\<rparr>,
             er_rv = sint action, er_status = 0, er_fault = mem_fault (ex_ctx x), er_events = ex_events x,
             er_ends = [Store_Deferred]\<rparr>))"

text \<open>The memory and the globals of the store an execution runs in, and the log of a failure.\<close>

definition exec_store ::
  "wasmtime \<Rightarrow> exec_env \<Rightarrow> bytes \<Rightarrow> nat \<Rightarrow> nat option \<Rightarrow> store_pool option
   \<Rightarrow> (bytes \<times> u64 list) option \<times> (vsl_tag \<times> bytes) list" where
  "exec_store wt xe module_name pre pooled poolp =
     (case (pooled, poolp) of
        (Some slot, Some pool) \<Rightarrow>
          (map_option (\<lambda>st. (ws_memory st, ws_globals st)) (ps_store (sp_objects pool ! slot)), [])
      | _ \<Rightarrow>
          (case wt_instantiate wt pre 0 of
             Some mg \<Rightarrow> (Some mg, [])
           | None \<Rightarrow>
               (None, case xe_failure xe of
                        Inl msg \<Rightarrow> log_error (xe_vsl xe) (Some msg) module_name ''instantiate''
                      | Inr msg \<Rightarrow> log_trap (xe_vsl xe) msg module_name ''instantiate'')))"

text \<open>An execution that ends before the store exists leaves no trace but the counters of the pool and the
  global stores.\<close>

definition exec_nothing :: "vwasm_engine \<Rightarrow> global_stores \<Rightarrow> vrt_ctx \<Rightarrow> int \<Rightarrow> exec_result" where
  "exec_nothing e g v status =
     \<lparr>er_engine = e, er_stores = g, er_vrt = v, er_log = [], er_task = None, er_rv = -1, er_status = status,
      er_fault = False, er_events = [], er_ends = []\<rparr>"

text \<open>\<open>status\<close> is what the caller's variable held. The engine, the module name and the pointer to the status are
  not NULL in any caller.\<close>

definition proxy_wasm_execute ::
  "wasmtime \<Rightarrow> exec_env \<Rightarrow> vwasm_engine \<Rightarrow> global_stores \<Rightarrow> vrt_ctx \<Rightarrow> bytes option \<Rightarrow> nat \<Rightarrow> bytes option \<Rightarrow> bytes option \<Rightarrow> int
   \<Rightarrow> exec_result" where
  "proxy_wasm_execute wt xe e g v module_name phase vm_cfg plugin_cfg status =
     (case module_name of
        None \<Rightarrow> exec_nothing e g v status
      | Some name \<Rightarrow>
          (case find_module e name of
             None \<Rightarrow> exec_nothing e g v 0
           | Some pool_idx \<Rightarrow>
               (case exec_acquire e pool_idx of
                  (e, pooled) \<Rightarrow>
                    (case exec_context xe e v (cstr name) vm_cfg plugin_cfg g of
                       (g, ctx) \<Rightarrow>
                         (let pre = me_pre (eng_modules e ! pool_idx);
                              start = (\<lambda>ctx globs log. \<lparr>ex_rs = \<lparr>rs_host = \<lparr>hs_ctx = ctx, hs_engine = Some e, hs_log = log\<rparr>,
                                         rs_globals = globs\<rparr>, ex_events = []\<rparr>)
                          in if pooled = None \<and> \<not> wt_store_new wt 0 then exec_nothing e g v 0
                             else
                               (case exec_store wt xe (cstr name) pre pooled (eng_pools e ! pool_idx) of
                                  (None, log) \<Rightarrow>
                                    exec_cleanup xe e v (cstr name) g pool_idx pooled (-1) 0 []
                                      (set_deadline (epoch_deadline_ms e) (start ctx [] log))
                                | (Some (mem, globs), log) \<Rightarrow>
                                    (let ctx = resolve_allocator wt pre (resolve_memory wt pre mem ctx);
                                         d = epoch_deadline_ms e;
                                         x = set_deadline d (start ctx globs log);
                                         x = exec_init wt pre d (pooled \<noteq> None) (opt_strlen vm_cfg) (opt_strlen plugin_cfg) x
                                     in case exec_callbacks wt xe pre d phase x of
                                          (x, Finished rv st) \<Rightarrow>
                                            exec_cleanup xe e v (cstr name) g pool_idx pooled rv st [] x
                                        | (x, Deferred action) \<Rightarrow>
                                            exec_defer xe e v (cstr name) g pre pool_idx pooled action x)))))))"

definition vwasm_proxy_wasm_call ::
  "wasmtime \<Rightarrow> exec_env \<Rightarrow> vwasm_engine \<Rightarrow> global_stores \<Rightarrow> vrt_ctx \<Rightarrow> bytes option \<Rightarrow> int \<Rightarrow> exec_result" where
  "vwasm_proxy_wasm_call wt xe e g v module_name status =
     proxy_wasm_execute wt xe e g v module_name VWASM_PHASE_REQUEST (Some []) (Some []) status"

definition vwasm_proxy_wasm_response_call ::
  "wasmtime \<Rightarrow> exec_env \<Rightarrow> vwasm_engine \<Rightarrow> global_stores \<Rightarrow> vrt_ctx \<Rightarrow> bytes option \<Rightarrow> int \<Rightarrow> exec_result" where
  "vwasm_proxy_wasm_response_call wt xe e g v module_name status =
     proxy_wasm_execute wt xe e g v module_name VWASM_PHASE_RESPONSE (Some []) (Some []) status"

definition vwasm_proxy_wasm_call_with_config ::
  "wasmtime \<Rightarrow> exec_env \<Rightarrow> vwasm_engine \<Rightarrow> global_stores \<Rightarrow> vrt_ctx \<Rightarrow> bytes option \<Rightarrow> bytes option \<Rightarrow> bytes option \<Rightarrow> int
   \<Rightarrow> exec_result" where
  "vwasm_proxy_wasm_call_with_config wt xe e g v module_name vm_cfg plugin_cfg status =
     proxy_wasm_execute wt xe e g v module_name VWASM_PHASE_REQUEST vm_cfg plugin_cfg status"

definition vwasm_proxy_wasm_response_call_with_config ::
  "wasmtime \<Rightarrow> exec_env \<Rightarrow> vwasm_engine \<Rightarrow> global_stores \<Rightarrow> vrt_ctx \<Rightarrow> bytes option \<Rightarrow> bytes option \<Rightarrow> bytes option \<Rightarrow> int
   \<Rightarrow> exec_result" where
  "vwasm_proxy_wasm_response_call_with_config wt xe e g v module_name vm_cfg plugin_cfg status =
     proxy_wasm_execute wt xe e g v module_name VWASM_PHASE_RESPONSE vm_cfg plugin_cfg status"

section \<open>Filter chains\<close>

text \<open>The environment may differ from module to module: \<open>xes k\<close> is that of the \<open>k\<close>-th execution. A task pointer an
  execution stores replaces the one before.\<close>

definition exec_then :: "exec_result \<Rightarrow> exec_result \<Rightarrow> exec_result" where
  "exec_then r s = s\<lparr>er_log := er_log r @ er_log s, er_task := (case er_task s of None \<Rightarrow> er_task r | Some t \<Rightarrow> Some t),
     er_fault := (er_fault r \<or> er_fault s), er_events := er_events r @ er_events s, er_ends := er_ends r @ er_ends s\<rparr>"

fun chain_loop :: "(nat \<Rightarrow> wasmtime \<times> exec_env) \<Rightarrow> nat \<Rightarrow> nat \<Rightarrow> bytes option list \<Rightarrow> exec_result \<Rightarrow> exec_result" where
  "chain_loop xes k phase [] r = r\<lparr>er_rv := 0\<rparr>"
| "chain_loop xes k phase (m # ms) r =
     (let r = exec_then r (proxy_wasm_execute (fst (xes k)) (snd (xes k)) (er_engine r) (er_stores r) (er_vrt r) m phase
                None None (er_status r))
      in if er_rv r \<noteq> 0 then r else chain_loop xes (k + 1) phase ms r)"

definition vwasm_filter_chain_request ::
  "(nat \<Rightarrow> wasmtime \<times> exec_env) \<Rightarrow> vwasm_engine \<Rightarrow> global_stores \<Rightarrow> vrt_ctx \<Rightarrow> bytes option list \<Rightarrow> int \<Rightarrow> exec_result" where
  "vwasm_filter_chain_request xes e g v modules status =
     (if modules = [] then exec_nothing e g v status
      else chain_loop xes 0 VWASM_PHASE_REQUEST modules (exec_nothing e g v 0))"

definition vwasm_filter_chain_response ::
  "(nat \<Rightarrow> wasmtime \<times> exec_env) \<Rightarrow> vwasm_engine \<Rightarrow> global_stores \<Rightarrow> vrt_ctx \<Rightarrow> bytes option list \<Rightarrow> int \<Rightarrow> exec_result" where
  "vwasm_filter_chain_response xes e g v modules status =
     (if modules = [] then exec_nothing e g v status
      else chain_loop xes 0 VWASM_PHASE_RESPONSE modules (exec_nothing e g v 0))"

end
