(* ===== verification/Exec_Lemmas.thy ===== *)
theory Exec_Lemmas
  imports Lifecycle Guest_Runs Pool_Threads
begin

text \<open>
  Lemmas about executions, for \<open>Exec_Properties\<close>: the names of the callbacks made, the ways an execution can go,
  and, as a locale, what is kept by a whole execution because every run of the guest keeps it, with its two
  instances: the part of the engine no guest reaches, and the invariant no guest can break.
\<close>

section \<open>Lemmas: the trace\<close>

fun call_names :: "exec_event list \<Rightarrow> bytes list" where
  "call_names [] = []"
| "call_names (Deadline d # es) = call_names es"
| "call_names (Call n as # es) = n # call_names es"

lemma call_names_append [simp]: "call_names (es @ fs) = call_names es @ call_names fs"
  by (induction es rule: call_names.induct) simp_all

definition exported :: "wasmtime \<Rightarrow> nat \<Rightarrow> bytes list \<Rightarrow> bytes list" where
  "exported wt pre ns = filter (is_func wt pre) ns"

lemma exported_simps [simp]:
  "exported wt pre [] = []" "exported wt pre (n # ns) = (if is_func wt pre n then [n] else []) @ exported wt pre ns"
  by (simp_all add: exported_def)

lemma names_void [simp]: "call_names (ex_events (ex_void wt pre n as x)) = call_names (ex_events x) @ exported wt pre [n]"
  by (simp add: ex_void_def split: prod.split)

lemma names_call [simp]: "call_names (ex_events (fst (ex_call wt pre n as x))) = call_names (ex_events x) @ exported wt pre [n]"
  by (simp add: ex_call_def split: prod.split)

lemma names_deadline [simp]: "call_names (ex_events (set_deadline d x)) = call_names (ex_events x)"
  by (simp add: set_deadline_def)

lemma events_set_ctx [simp]: "ex_events (ex_set_ctx c x) = ex_events x"
  by (simp add: ex_set_ctx_def)

definition init_names :: "bool \<Rightarrow> nat \<Rightarrow> nat \<Rightarrow> bytes list" where
  "init_names pooled vl pl =
     (if pooled then (if vl > 0 then [''proxy_on_vm_start''] else []) @ (if pl > 0 then [''proxy_on_configure''] else [])
      else [''_initialize'', ''proxy_on_context_create'', ''proxy_on_vm_start'', ''proxy_on_configure''])"

lemma names_init: "call_names (ex_events (exec_init wt pre d pooled vl pl x)) =
    call_names (ex_events x) @ exported wt pre (init_names pooled vl pl)"
  by (simp add: exec_init_def init_names_def Let_def)

lemma names_headers: "call_names (ex_events (fst (exec_headers wt pre d phase x))) =
    call_names (ex_events x) @ exported wt pre [''proxy_on_context_create'', phase_headers_fn phase]"
  by (simp add: exec_headers_def Let_def)

lemma names_callback: "is_func wt pre ''proxy_on_http_call_response'' \<Longrightarrow>
    call_names (ex_events (http_call_callback wt pre ent x)) = call_names (ex_events x) @ [''proxy_on_http_call_response'']"
  by (simp add: http_call_callback_def Let_def)

lemma names_deferred:
  assumes "is_func wt pre ''proxy_on_http_call_response''"
  shows "\<exists>k. call_names (ex_events (fst (deferred_calls wt pre cur x))) =
           call_names (ex_events x) @ replicate k ''proxy_on_http_call_response''"
  using assms
proof (induction wt pre cur x rule: deferred_calls.induct)
  case (1 wt pre cur x)
  show ?case
  proof (cases cur)
    case None
    then show ?thesis by (simp add: deferred_calls.simps)
  next
    case (Some tok)
    show ?thesis
    proof (cases "find (\<lambda>e. hce_token e = tok) (http_calls (ex_ctx x))")
      case None
      then show ?thesis using Some by (simp add: deferred_calls.simps)
    next
      case ent: (Some ent)
      show ?thesis
      proof (cases "local_response_set (ex_ctx (http_call_callback wt pre ent x))")
        case True
        then show ?thesis using Some ent names_callback [OF 1(2)]
          by (intro exI [of _ 1]) (simp add: deferred_calls.simps Let_def)
      next
        case False
        obtain k where "call_names (ex_events (fst (deferred_calls wt pre (next_call tok (http_calls (ex_ctx x)))
            (http_call_callback wt pre ent x)))) = call_names (ex_events (http_call_callback wt pre ent x)) @
            replicate k ''proxy_on_http_call_response''"
          using 1(1) [OF Some ent refl refl False 1(2)] by blast
        then show ?thesis using Some ent False names_callback [OF 1(2)]
          by (intro exI [of _ "Suc k"]) (simp add: deferred_calls.simps Let_def)
      qed
    qed
  qed
qed

lemma names_tail: "call_names (ex_events (exec_tail wt pre x)) =
    call_names (ex_events x) @ exported wt pre [''proxy_on_log'', ''proxy_on_done'', ''proxy_on_delete'']"
  by (simp add: exec_tail_def Let_def)

definition with_request_body :: "exec_env \<Rightarrow> exec \<Rightarrow> exec" where
  "with_request_body xe x =
     (if xe_req xe \<and> xe_has_body xe then
        (case exec_request_body xe of None \<Rightarrow> x | Some (b, _) \<Rightarrow> ex_set_ctx (ex_ctx x\<lparr>request_body := Some b\<rparr>) x)
      else x)"

lemma events_with_body [simp]: "ex_events (with_request_body xe x) = ex_events x"
  by (simp add: with_request_body_def split: option.split prod.split)

text \<open>The body callback of a request: with the body when the module exports the callback.\<close>

lemma exec_body_request:
  assumes "phase = VWASM_PHASE_REQUEST"
  shows "fst (exec_body wt xe pre phase action x) =
    exec_tail wt pre (if is_func wt pre (phase_body_fn phase)
      then fst (ex_call wt pre (phase_body_fn phase)
             [stream_context_id (ex_ctx (with_request_body xe x)),
              of_nat (buf_len (request_body (ex_ctx (with_request_body xe x)))), 1] (with_request_body xe x))
      else x)"
    and "\<exists>st. snd (exec_body wt xe pre phase action x) = Finished (sint action) st"
proof -
  have "phase \<noteq> VWASM_PHASE_RESPONSE" using assms by (simp add: exec_consts)
  then show "fst (exec_body wt xe pre phase action x) =
    exec_tail wt pre (if is_func wt pre (phase_body_fn phase)
      then fst (ex_call wt pre (phase_body_fn phase)
             [stream_context_id (ex_ctx (with_request_body xe x)),
              of_nat (buf_len (request_body (ex_ctx (with_request_body xe x)))), 1] (with_request_body xe x))
      else x)" "\<exists>st. snd (exec_body wt xe pre phase action x) = Finished (sint action) st"
    using assms by (simp_all add: exec_body_def with_request_body_def Let_def)
qed

lemma names_body:
  assumes "phase = VWASM_PHASE_REQUEST"
  shows "call_names (ex_events (fst (exec_body wt xe pre phase action x))) = call_names (ex_events x) @
           exported wt pre [phase_body_fn phase, ''proxy_on_log'', ''proxy_on_done'', ''proxy_on_delete'']"
  by (cases "is_func wt pre (phase_body_fn phase)") (simp_all add: exec_body_request(1) [OF assms] names_tail)

section \<open>Lemmas: the ways an execution can go\<close>

text \<open>The callbacks from the headers on.\<close>

lemma exec_callbacks_cases:
  obtains (failed) x1 where "exec_headers wt pre d phase x = (x1, None)" "exec_callbacks wt xe pre d phase x = (x1, Finished (-1) 0)"
  | (ran) x1 action x2 stopped action' where "exec_headers wt pre d phase x = (x1, Some action)"
      "x2 = x1 \<and> \<not> stopped \<or> is_func wt pre ''proxy_on_http_call_response'' \<and>
        deferred_calls wt pre (Some (hce_token (hd (http_calls (ex_ctx x1))))) x1 = (x2, stopped)"
      "exec_callbacks wt xe pre d phase x =
        (if local_response_set (ex_ctx x2) then (x2, Finished 0 (local_response_code (ex_ctx x2)))
         else if action' = 1 then (ex_set_ctx (ex_ctx x2\<lparr>paused := True\<rparr>) x2, Finished 0 0)
         else exec_body wt xe pre phase action' x2)"
proof -
  obtain x1 r where h: "exec_headers wt pre d phase x = (x1, r)" by fastforce
  show ?thesis
  proof (cases r)
    case None
    then show ?thesis using h failed by (simp add: exec_callbacks_def)
  next
    case (Some action)
    define calls where "calls \<longleftrightarrow> http_calls (ex_ctx x1) \<noteq> [] \<and> is_func wt pre ''proxy_on_http_call_response''"
    obtain x2 stopped where d: "(if calls then deferred_calls wt pre (Some (hce_token (hd (http_calls (ex_ctx x1))))) x1
        else (x1, False)) = (x2, stopped)" by fastforce
    have "exec_callbacks wt xe pre d phase x =
        (let action = (if calls \<and> \<not> stopped then 0 else action) in
         if local_response_set (ex_ctx x2) then (x2, Finished 0 (local_response_code (ex_ctx x2)))
         else if action = 1 then (ex_set_ctx (ex_ctx x2\<lparr>paused := True\<rparr>) x2, Finished 0 0)
         else exec_body wt xe pre phase action x2)"
      unfolding exec_callbacks_def h Some prod.case option.case Let_def [of "_ \<noteq> _ \<and> _"] calls_def [symmetric] d by simp
    moreover have "x2 = x1 \<and> \<not> stopped \<or> is_func wt pre ''proxy_on_http_call_response'' \<and>
        deferred_calls wt pre (Some (hce_token (hd (http_calls (ex_ctx x1))))) x1 = (x2, stopped)"
    proof (cases calls)
      case True
      then show ?thesis using d calls_def by simp
    next
      case False
      then show ?thesis using d by simp
    qed
    ultimately show ?thesis using ran h Some unfolding Let_def by blast
  qed
qed

text \<open>The state in which the callbacks begin.\<close>

definition exec_start :: "vwasm_engine \<Rightarrow> proxy_ctx \<Rightarrow> u64 list \<Rightarrow> (vsl_tag \<times> bytes) list \<Rightarrow> exec" where
  "exec_start e ctx globs log = set_deadline (epoch_deadline_ms e)
     \<lparr>ex_rs = \<lparr>rs_host = \<lparr>hs_ctx = ctx, hs_engine = Some e, hs_log = log\<rparr>, rs_globals = globs\<rparr>, ex_events = []\<rparr>"

definition exec_ready :: "wasmtime \<Rightarrow> vwasm_engine \<Rightarrow> nat \<Rightarrow> bool \<Rightarrow> nat \<Rightarrow> nat \<Rightarrow> bytes \<Rightarrow> u64 list \<Rightarrow> (vsl_tag \<times> bytes) list \<Rightarrow> proxy_ctx \<Rightarrow> exec" where
  "exec_ready wt e pre pooled vl pl mem globs log ctx =
     exec_init wt pre (epoch_deadline_ms e) pooled vl pl
       (exec_start e (resolve_allocator wt pre (resolve_memory wt pre mem ctx)) globs log)"

lemma execute_run:
  assumes "module_name = Some name" "find_module e name = Some idx" "exec_acquire e idx = (e1, pooled)"
    and "exec_context xe e1 v (cstr name) vm_cfg plugin_cfg g = (g1, ctx)" "pre = me_pre (eng_modules e1 ! idx)"
    and "exec_store wt xe (cstr name) pre pooled (eng_pools e1 ! idx) = (Some (mem, globs), log)"
    and "exec_callbacks wt xe pre (epoch_deadline_ms e1) phase
      (exec_ready wt e1 pre (pooled \<noteq> None) (opt_strlen vm_cfg) (opt_strlen plugin_cfg) mem globs log ctx) = (x, out)"
    and "pooled = None \<longrightarrow> wt_store_new wt 0"
  shows "proxy_wasm_execute wt xe e g v module_name phase vm_cfg plugin_cfg status =
    (case out of Finished rv st \<Rightarrow> exec_cleanup xe e1 v (cstr name) g1 idx pooled rv st [] x
               | Deferred action \<Rightarrow> exec_defer xe e1 v (cstr name) g1 pre idx pooled action x)"
  using assms(5-8) unfolding proxy_wasm_execute_def assms(1-4) option.case prod.case Let_def
  by (cases out) (auto simp: exec_ready_def exec_start_def)

lemma execute_cases:
  assumes r_def: "r = proxy_wasm_execute wt xe e g v module_name phase vm_cfg plugin_cfg status"
  obtains (not_run) e1 g1 st where "r = exec_nothing e1 g1 v st"
      "e1 = e \<and> g1 = g \<or> (\<exists>idx name ctx. exec_acquire e idx = (e1, None) \<and>
         exec_context xe e1 v name vm_cfg plugin_cfg g = (g1, ctx))"
  | (no_store) name idx e1 pooled g1 ctx log where
      "module_name = Some name" "find_module e name = Some idx" "exec_acquire e idx = (e1, pooled)"
      "exec_context xe e1 v (cstr name) vm_cfg plugin_cfg g = (g1, ctx)"
      "exec_store wt xe (cstr name) (me_pre (eng_modules e1 ! idx)) pooled (eng_pools e1 ! idx) = (None, log)"
      "r = exec_cleanup xe e1 v (cstr name) g1 idx pooled (-1) 0 [] (exec_start e1 ctx [] log)"
  | (ran) name idx e1 pooled g1 ctx log mem globs pre x out where
      "module_name = Some name" "find_module e name = Some idx" "exec_acquire e idx = (e1, pooled)"
      "exec_context xe e1 v (cstr name) vm_cfg plugin_cfg g = (g1, ctx)" "pre = me_pre (eng_modules e1 ! idx)"
      "exec_store wt xe (cstr name) pre pooled (eng_pools e1 ! idx) = (Some (mem, globs), log)"
      "exec_callbacks wt xe pre (epoch_deadline_ms e1) phase
         (exec_ready wt e1 pre (pooled \<noteq> None) (opt_strlen vm_cfg) (opt_strlen plugin_cfg) mem globs log ctx) = (x, out)"
      "r = (case out of Finished rv st \<Rightarrow> exec_cleanup xe e1 v (cstr name) g1 idx pooled rv st [] x
                      | Deferred action \<Rightarrow> exec_defer xe e1 v (cstr name) g1 pre idx pooled action x)"
      "pooled = None \<longrightarrow> wt_store_new wt 0"
proof -
  consider "module_name = None" | name where "module_name = Some name" "find_module e name = None"
    | name idx where "module_name = Some name" "find_module e name = Some idx"
    by (metis option.exhaust)
  then show ?thesis
  proof cases
    case 1
    then have "r = exec_nothing e g v status" by (simp add: r_def proxy_wasm_execute_def)
    then show ?thesis by (rule not_run) simp
  next
    case 2
    then have "r = exec_nothing e g v 0" by (simp add: r_def proxy_wasm_execute_def)
    then show ?thesis by (rule not_run) simp
  next
    case (3 name idx)
    obtain e1 pooled where a: "exec_acquire e idx = (e1, pooled)" by fastforce
    obtain g1 ctx where c: "exec_context xe e1 v (cstr name) vm_cfg plugin_cfg g = (g1, ctx)" by fastforce
    define pre where "pre = me_pre (eng_modules e1 ! idx)"
    note eqs = proxy_wasm_execute_def 3 option.case a prod.case c Let_def pre_def [symmetric]
    show ?thesis
    proof (cases "pooled = None \<and> \<not> wt_store_new wt 0")
      case True
      then have "r = exec_nothing e1 g1 v 0" unfolding r_def eqs by simp
      then show ?thesis by (rule not_run) (use a c True in blast)
    next
      case False
      obtain so log where st: "exec_store wt xe (cstr name) pre pooled (eng_pools e1 ! idx) = (so, log)" by fastforce
      show ?thesis
      proof (cases so)
        case None
        then have "r = exec_cleanup xe e1 v (cstr name) g1 idx pooled (-1) 0 [] (exec_start e1 ctx [] log)"
          using st False unfolding r_def eqs by (auto simp: exec_start_def)
        then show ?thesis by (rule no_store [OF 3 a c st [unfolded None pre_def]])
      next
        case (Some mg)
        obtain mem globs where mg: "mg = (mem, globs)" by fastforce
        obtain x out where x: "exec_callbacks wt xe pre (epoch_deadline_ms e1) phase
           (exec_ready wt e1 pre (pooled \<noteq> None) (opt_strlen vm_cfg) (opt_strlen plugin_cfg) mem globs log ctx) = (x, out)"
          by fastforce
        have new: "pooled = None \<longrightarrow> wt_store_new wt 0" using False by blast
        show ?thesis
          by (rule ran [OF 3 a c pre_def st [unfolded Some mg] x _ new], unfold r_def)
            (rule execute_run [OF 3 a c pre_def st [unfolded Some mg] x new])
      qed
    qed
  qed
qed

text \<open>All callbacks of a request: the headers callback, then one callback per callout, and then either nothing
  or the rest of the sequence.\<close>

lemma names_callbacks:
  assumes "phase = VWASM_PHASE_REQUEST"
  shows "\<exists>k. call_names (ex_events (fst (exec_callbacks wt xe pre d phase x))) \<in>
    {call_names (ex_events x) @ exported wt pre [''proxy_on_context_create'', phase_headers_fn phase] @
       replicate k ''proxy_on_http_call_response'' @ rest |
     rest. rest = [] \<or> rest = exported wt pre [phase_body_fn phase, ''proxy_on_log'', ''proxy_on_done'', ''proxy_on_delete'']}"
proof (cases rule: exec_callbacks_cases [of wt pre d phase x xe])
  case (failed x1)
  then show ?thesis using names_headers [of wt pre d phase x] by (intro exI [of _ 0]) simp
next
  case (ran x1 action x2 stopped action')
  have n1: "call_names (ex_events x1) = call_names (ex_events x) @ exported wt pre [''proxy_on_context_create'', phase_headers_fn phase]"
    using names_headers [of wt pre d phase x] ran(1) by simp
  obtain k where n2: "call_names (ex_events x2) = call_names (ex_events x1) @ replicate k ''proxy_on_http_call_response''"
    using ran(2)
  proof (elim disjE conjE)
    assume "x2 = x1"
    then show ?thesis using that [of 0] by simp
  next
    assume "is_func wt pre ''proxy_on_http_call_response''"
      "deferred_calls wt pre (Some (hce_token (hd (http_calls (ex_ctx x1))))) x1 = (x2, stopped)"
    then show ?thesis using that names_deferred [of wt pre "Some (hce_token (hd (http_calls (ex_ctx x1))))" x1] by auto
  qed
  show ?thesis unfolding ran(3) using n1 n2 names_body [OF assms, of wt xe pre action' x2]
    by (intro exI [of _ k]) simp
qed

lemma callbacks_request:
  assumes "phase = VWASM_PHASE_REQUEST" "exec_callbacks wt xe pre d phase x = (x', out)"
  shows "\<exists>rv st. out = Finished rv st"
proof (cases rule: exec_callbacks_cases [of wt pre d phase x xe])
  case (failed x1)
  then show ?thesis using assms(2) by simp
next
  case (ran x1 action x2 stopped action')
  obtain st where "snd (exec_body wt xe pre phase action' x2) = Finished (sint action') st"
    using exec_body_request(2) [OF assms(1)] by blast
  then show ?thesis using assms(2) unfolding ran(3) by (auto split: if_splits)
qed

section \<open>Lemmas: the request body\<close>

lemma collect_cb:
  assumes "body_collect_cb cap buf p = (b, r)"
  shows "r = 0 \<and> b = buf @ p \<or> r = -1 \<and> b = buf" "length buf \<le> cap \<Longrightarrow> length b \<le> cap"
  using assms by (auto simp: body_collect_cb_def split: if_splits)

lemma collect_all:
  assumes "vrb_iterate (body_collect_cb cap) ps buf = (buf', r)" "length buf \<le> cap"
  shows "(r = 0 \<and> buf' = buf @ concat ps \<or> r = -1) \<and> length buf' \<le> cap"
  using assms
proof (induction ps arbitrary: buf)
  case (Cons p ps)
  obtain b s where cb: "body_collect_cb cap buf p = (b, s)" by fastforce
  have it: "(if s \<noteq> 0 then (b, s) else vrb_iterate (body_collect_cb cap) ps b) = (buf', r)"
    using Cons(2) by (simp add: cb)
  show ?case using it Cons(1) [of b] Cons(3) collect_cb [OF cb] by (cases "s = 0") auto
qed simp

lemma request_body_all:
  assumes "exec_request_body xe = Some (b, h)"
  shows "b = concat (xe_pieces xe)" "length b \<le> nat (xe_cache xe VWASM_MAX_BODY_CACHE)" "b \<noteq> []"
    "h \<longleftrightarrow> VWASM_BODY_STACK_MAX < nat (xe_cache xe VWASM_MAX_BODY_CACHE)"
proof -
  obtain buf r where it: "vrb_iterate (body_collect_cb (nat (xe_cache xe VWASM_MAX_BODY_CACHE))) (xe_pieces xe) [] = (buf, r)"
    by fastforce
  have b: "buf = b" "r \<ge> 0" "length b > 0" "h = (\<not> nat (xe_cache xe VWASM_MAX_BODY_CACHE) \<le> VWASM_BODY_STACK_MAX)"
    using assms by (auto simp: exec_request_body_def Let_def it split: if_splits)
  show "b = concat (xe_pieces xe)" using collect_all [OF it] b(1,2) by auto
  show "length b \<le> nat (xe_cache xe VWASM_MAX_BODY_CACHE)" using collect_all [OF it] b(1) by simp
  show "b \<noteq> []" "h \<longleftrightarrow> VWASM_BODY_STACK_MAX < nat (xe_cache xe VWASM_MAX_BODY_CACHE)" using b by auto
qed

section \<open>Lemmas: what an execution keeps\<close>

text \<open>Between the runs of the guest the host changes four fields of the context.\<close>

locale exec_invariant =
  fixes L :: nat and P :: "host_state \<Rightarrow> bool"
  assumes run: "(guest_step L body_small)\<^sup>*\<^sup>* st st' \<Longrightarrow> P st \<Longrightarrow> P st'"
    and active: "P st \<Longrightarrow> ent \<in> set (http_calls (hs_ctx st)) \<Longrightarrow> P (st\<lparr>hs_ctx := hs_ctx st\<lparr>active_http_call := Some ent\<rparr>\<rparr>)"
    and idle: "P st \<Longrightarrow> P (st\<lparr>hs_ctx := hs_ctx st\<lparr>active_http_call := None\<rparr>\<rparr>)"
    and pause: "P st \<Longrightarrow> P (st\<lparr>hs_ctx := hs_ctx st\<lparr>paused := True\<rparr>\<rparr>)"
    and body: "P st \<Longrightarrow> length b < 2 ^ 32 \<Longrightarrow> P (st\<lparr>hs_ctx := hs_ctx st\<lparr>request_body := Some b\<rparr>\<rparr>)"
begin

abbreviation holds :: "exec \<Rightarrow> bool" where
  "holds x \<equiv> P (rs_host (ex_rs x))"

lemma keeps_call: "guest_bound L wt \<Longrightarrow> holds x \<Longrightarrow> ex_call wt pre n as x = (x', r) \<Longrightarrow> holds x'"
  using func_reach run unfolding ex_call_def guest_reach_def by (fastforce split: prod.splits)

lemma keeps_fst_call: "guest_bound L wt \<Longrightarrow> holds x \<Longrightarrow> holds (fst (ex_call wt pre n as x))"
  using keeps_call by (metis prod.collapse)

lemma keeps_void: "guest_bound L wt \<Longrightarrow> holds x \<Longrightarrow> holds (ex_void wt pre n as x)"
  using void_reach run unfolding ex_void_def guest_reach_def by (fastforce split: prod.splits)

lemma keeps_deadline: "holds (set_deadline d x) = holds x"
  by (simp add: set_deadline_def)

lemma keeps_init: "guest_bound L wt \<Longrightarrow> holds x \<Longrightarrow> holds (exec_init wt pre d pooled vl pl x)"
  unfolding exec_init_def Let_def by (auto intro!: keeps_fst_call keeps_void simp: keeps_deadline)

lemma keeps_headers: "guest_bound L wt \<Longrightarrow> holds x \<Longrightarrow> exec_headers wt pre d phase x = (x', r) \<Longrightarrow> holds x'"
  unfolding exec_headers_def Let_def by (erule keeps_call [rotated 2]) (simp_all add: keeps_deadline keeps_void)

lemma keeps_tail: "guest_bound L wt \<Longrightarrow> holds x \<Longrightarrow> holds (exec_tail wt pre x)"
  unfolding exec_tail_def Let_def by (intro keeps_fst_call keeps_void)

lemma keeps_callback:
  assumes "guest_bound L wt" "holds x" "ent \<in> set (http_calls (ex_ctx x))"
  shows "holds (http_call_callback wt pre ent x)"
proof -
  define y where "y = ex_set_ctx (ex_ctx (set_deadline VWASM_DEFAULT_EPOCH_DEADLINE_MS x)\<lparr>active_http_call := Some ent\<rparr>)
      (set_deadline VWASM_DEFAULT_EPOCH_DEADLINE_MS x)"
  have "holds y" using active [OF assms(2,3)] by (simp add: y_def ex_set_ctx_def set_deadline_def)
  then show ?thesis
    unfolding http_call_callback_def Let_def y_def [symmetric]
    using idle [OF keeps_void [OF assms(1)]] by (simp add: ex_set_ctx_def)
qed

lemma keeps_deferred:
  assumes "guest_bound L wt" "holds x"
  shows "holds (fst (deferred_calls wt pre cur x))"
  using assms
proof (induction wt pre cur x rule: deferred_calls.induct)
  case (1 wt pre cur x)
  show ?case
  proof (cases cur)
    case None
    then show ?thesis using 1(3) by (simp add: deferred_calls.simps)
  next
    case (Some tok)
    show ?thesis
    proof (cases "find (\<lambda>e. hce_token e = tok) (http_calls (ex_ctx x))")
      case None
      then show ?thesis using Some 1(3) by (simp add: deferred_calls.simps)
    next
      case ent: (Some ent)
      then have "ent \<in> set (http_calls (ex_ctx x))" by (auto simp: find_Some_iff)
      then have h: "holds (http_call_callback wt pre ent x)" by (rule keeps_callback [OF 1(2,3)])
      then show ?thesis using 1(1) [OF Some ent refl refl _ 1(2) h] Some ent
        by (cases "local_response_set (ex_ctx (http_call_callback wt pre ent x))")
          (simp_all add: deferred_calls.simps [of wt pre "Some tok" x] Let_def)
    qed
  qed
qed

lemma keeps_with_body:
  assumes "xe_cache xe VWASM_MAX_BODY_CACHE \<le> int VWASM_MAX_BODY_CACHE" "holds x"
  shows "holds (with_request_body xe x)"
proof (cases "exec_request_body xe")
  case (Some bh)
  then obtain b h where bh: "exec_request_body xe = Some (b, h)" by (cases bh) simp
  have "length b < 2 ^ 32" using request_body_all(2) [OF bh] assms(1) by (simp add: exec_consts)
  then show ?thesis using body [OF assms(2), of b] assms(2) by (simp add: with_request_body_def bh ex_set_ctx_def)
qed (simp add: with_request_body_def assms(2))

lemma exec_body_response:
  assumes "phase \<noteq> VWASM_PHASE_REQUEST"
  shows "fst (exec_body wt xe pre phase action x) = x \<or> fst (exec_body wt xe pre phase action x) = exec_tail wt pre x"
  using assms by (simp add: exec_body_def Let_def)

lemma keeps_body:
  assumes "guest_bound L wt" "xe_cache xe VWASM_MAX_BODY_CACHE \<le> int VWASM_MAX_BODY_CACHE" "holds x"
  shows "holds (fst (exec_body wt xe pre phase action x))"
proof (cases "phase = VWASM_PHASE_REQUEST")
  case True
  have "holds (fst (ex_call wt pre n as (with_request_body xe x)))" for n as
    by (rule keeps_fst_call [OF assms(1) keeps_with_body [OF assms(2,3)]])
  then show ?thesis
    unfolding exec_body_request(1) [OF True] by (auto intro!: keeps_tail [OF assms(1)] simp: assms(3))
next
  case False
  then show ?thesis using exec_body_response [OF False] keeps_tail [OF assms(1,3)] assms(3) by metis
qed

lemma keeps_callbacks:
  assumes "guest_bound L wt" "xe_cache xe VWASM_MAX_BODY_CACHE \<le> int VWASM_MAX_BODY_CACHE" "holds x"
  shows "holds (fst (exec_callbacks wt xe pre d phase x))"
proof (cases rule: exec_callbacks_cases [of wt pre d phase x xe])
  case (failed x1)
  then show ?thesis using keeps_headers [OF assms(1,3)] by simp
next
  case (ran x1 action x2 stopped action')
  have "holds x1" by (rule keeps_headers [OF assms(1,3) ran(1)])
  then have x2: "holds x2" using ran(2) keeps_deferred [OF assms(1)] by (metis fst_conv)
  then have "holds (ex_set_ctx (ex_ctx x2\<lparr>paused := True\<rparr>) x2)" using pause [OF x2] by (simp add: ex_set_ctx_def)
  then show ?thesis unfolding ran(3) using keeps_body [OF assms(1,2) x2] x2 by simp
qed

lemma keeps_ready:
  assumes "guest_bound L wt"
    and "P \<lparr>hs_ctx = resolve_allocator wt pre (resolve_memory wt pre mem ctx), hs_engine = Some e, hs_log = log\<rparr>"
  shows "holds (exec_ready wt e pre pooled vl pl mem globs log ctx)"
  unfolding exec_ready_def by (rule keeps_init [OF assms(1)]) (simp add: exec_start_def keeps_deadline assms(2))

end

text \<open>The first invariant: of the engine a guest reaches only the HTTP pool and the timers.\<close>

definition same_engine :: "vwasm_engine \<Rightarrow> vwasm_engine \<Rightarrow> bool" where
  "same_engine e e' \<longleftrightarrow> eng_pools e' = eng_pools e \<and> warm_instances e' = warm_instances e \<and>
     eng_stats e' = eng_stats e \<and> eng_modules e' = eng_modules e \<and> epoch_deadline_ms e' = epoch_deadline_ms e"

definition engine_frame :: "vwasm_engine \<Rightarrow> host_state \<Rightarrow> bool" where
  "engine_frame e st \<longleftrightarrow> (\<exists>e'. hs_engine st = Some e' \<and> same_engine e e')"

lemma frame_ctx [simp]: "engine_frame e (st\<lparr>hs_ctx := c\<rparr>) = engine_frame e st"
  "engine_frame e (st\<lparr>hs_log := l\<rparr>) = engine_frame e st"
  by (simp_all add: engine_frame_def)

lemma frame_on_ctx: "engine_frame e st \<Longrightarrow> engine_frame e (fst (on_ctx f env st a))"
  by (simp add: on_ctx_def split: prod.split)

lemma frame_log: "engine_frame e st \<Longrightarrow> engine_frame e (fst (log_fun env st a))"
  by (simp add: log_fun_def split: prod.split option.split)

lemma frame_http: "engine_frame e st \<Longrightarrow> engine_frame e (fst (http_fun env st a))"
  by (auto simp: http_fun_def Let_def engine_frame_def same_engine_def)

lemma same_stop_timer: "same_engine e e' \<Longrightarrow> same_engine e (stop_timer i e')"
  by (simp add: stop_timer_def same_engine_def Let_def split: option.split)

lemma same_tick:
  assumes "same_engine e e'"
  shows "\<exists>e''. fst (vwasm_engine_set_tick_period al (Some e') n p) = Some e'' \<and> same_engine e e''"
  using same_stop_timer [OF assms] assms
  by (auto simp: vwasm_engine_set_tick_period_def Let_def same_engine_def split: option.split)

lemma frame_tick:
  assumes "engine_frame e st"
  shows "engine_frame e (fst (tick_fun env st a))"
proof -
  obtain e' where e': "hs_engine st = Some e'" "same_engine e e'" using assms by (auto simp: engine_frame_def)
  obtain e'' r where e'': "vwasm_engine_set_tick_period (he_al env) (Some e') (mod_name (hs_ctx st)) (of_i32 (a 0)) = (Some e'', r)"
    "same_engine e e''" using same_tick [OF e'(2)] by (metis prod.collapse)
  show ?thesis
    using e' e'' by (auto simp: tick_fun_def pw_proxy_set_tick_period_def Let_def engine_frame_def)
qed

lemma import_frame:
  assumes "(name, ks, f) \<in> set proxy_imports" "engine_frame e st"
  shows "engine_frame e (fst (f env st a))"
  using assms(1) unfolding proxy_imports_def
  by (simp only: list.set insert_iff empty_iff prod.inject, elim disjE conjE, simp_all only:)
    (rule frame_on_ctx frame_log frame_http frame_tick assms(2))+

lemma step_frame: "guest_step L ok st st' \<Longrightarrow> engine_frame e st \<Longrightarrow> engine_frame e st'"
  by (erule guest_step.cases) (auto elim!: host_call_import intro: import_frame)

interpretation frame_steps: step_invariant "guest_step L ok" "engine_frame e" for L ok e
  by unfold_locales (rule step_frame)

interpretation frame: exec_invariant L "engine_frame e" for L e
  by unfold_locales (auto intro: frame_steps.run_keeps)

text \<open>The second: what no guest can break.\<close>

interpretation safe: exec_invariant L "guest_inv L" for L
proof
  fix st st' :: host_state and ent :: http_call_entry and b :: bytes
  show "(guest_step L body_small)\<^sup>*\<^sup>* st st' \<Longrightarrow> guest_inv L st \<Longrightarrow> guest_inv L st'" by (rule guest.run_keeps)
  show "guest_inv L (st\<lparr>hs_ctx := hs_ctx st\<lparr>active_http_call := Some ent\<rparr>\<rparr>)"
    if "guest_inv L st" "ent \<in> set (http_calls (hs_ctx st))"
    using that by (auto simp: guest_inv_def host_inv_def body_small_def ctx_inv_defs list_all_iff)
  show "guest_inv L (st\<lparr>hs_ctx := hs_ctx st\<lparr>active_http_call := None\<rparr>\<rparr>)" if "guest_inv L st"
    using that by (simp add: guest_inv_def host_inv_def body_small_def ctx_inv_defs)
  show "guest_inv L (st\<lparr>hs_ctx := hs_ctx st\<lparr>paused := True\<rparr>\<rparr>)" if "guest_inv L st"
    using that by (simp add: guest_inv_def host_inv_def body_small_def)
  show "guest_inv L (st\<lparr>hs_ctx := hs_ctx st\<lparr>request_body := Some b\<rparr>\<rparr>)" if "guest_inv L st" "length b < 2 ^ 32"
    using that by (simp add: guest_inv_def host_inv_def body_small_def ctx_inv_defs small_def buf_len_def)
qed

end
