(* ===== verification/Exec_Properties.thy ===== *)
theory Exec_Properties
  imports Exec_Lemmas
begin

text \<open>
  What is shown of an execution: which callbacks it makes and in which order, that its store is given back once,
  except when no task can be stored for the delivery processor, and what it counts.
\<close>

section \<open>Lemmas\<close>

lemma cleanup_simps [simp]:
  "er_rv (exec_cleanup xe e v name g idx pooled rv st ends x) = rv"
  "er_status (exec_cleanup xe e v name g idx pooled rv st ends x) = st"
  "er_task (exec_cleanup xe e v name g idx pooled rv st ends x) = None"
  "er_events (exec_cleanup xe e v name g idx pooled rv st ends x) = ex_events x"
  "er_fault (exec_cleanup xe e v name g idx pooled rv st ends x) = mem_fault (ex_ctx x)"
  "er_stores (exec_cleanup xe e v name g idx pooled rv st ends x) = close_stores (ex_ctx x) g"
  by (simp_all add: exec_cleanup_def Let_def split: prod.split)

definition end_of :: "nat option \<Rightarrow> store_end" where
  "end_of pooled = (if pooled = None then Store_Deleted else Store_Released)"

lemma snd_end_store [simp]: "snd (exec_end_store idx pooled mem globs e) = end_of pooled"
  by (simp add: exec_end_store_def end_of_def split: option.split)

lemma cleanup_ends [simp]: "er_ends (exec_cleanup xe e v name g idx pooled rv st ends x) = ends @ [end_of pooled]"
  by (cases pooled) (simp_all add: exec_cleanup_def exec_end_store_def end_of_def Let_def)

lemma acquire_fields:
  assumes "exec_acquire e idx = (e1, pooled)"
  shows "eng_modules e1 = eng_modules e" "eng_stats e1 = eng_stats e" "timers_ok e1 = timers_ok e"
    "warm_instances e1 = warm_instances e" "epoch_deadline_ms e1 = epoch_deadline_ms e"
  using assms by (auto simp: exec_acquire_def timers_ok_def split: if_splits option.splits prod.splits)

lemma nothing_simps [simp]:
  "er_ends (exec_nothing e g v st) = []" "er_events (exec_nothing e g v st) = []" "er_task (exec_nothing e g v st) = None"
  "er_fault (exec_nothing e g v st) = False" "er_rv (exec_nothing e g v st) = -1"
  by (simp_all add: exec_nothing_def)

lemma defer_cases:
  obtains (no_task) "exec_defer xe e v name g pre idx pooled a x = exec_cleanup xe e v name g idx pooled (-1) 0 [] x" "\<not> xe_al xe 6"
  | (no_priv) e' x' where "xe_al xe 6" "\<not> xe_priv_task xe" "ex_events x' = ex_events x" "ex_ctx x' = ex_ctx x"
      "exec_defer xe e v name g pre idx pooled a x = exec_cleanup xe e' v name g idx pooled (-1) 0 [end_of pooled] x'"
  | (deferred) "xe_al xe 6" "xe_priv_task xe"
      "er_ends (exec_defer xe e v name g pre idx pooled a x) = [Store_Deferred]"
      "er_task (exec_defer xe e v name g pre idx pooled a x) \<noteq> None"
      "er_events (exec_defer xe e v name g pre idx pooled a x) = ex_events x"
      "er_fault (exec_defer xe e v name g pre idx pooled a x) = mem_fault (ex_ctx x)"
      "er_stores (exec_defer xe e v name g pre idx pooled a x) = close_stores (ex_ctx x) g"
proof -
  consider "\<not> xe_al xe 6" | "xe_al xe 6" "\<not> xe_priv_task xe" | "xe_al xe 6" "xe_priv_task xe" by blast
  then show ?thesis
  proof cases
    case 1
    then show ?thesis using no_task by (simp add: exec_defer_def)
  next
    case 2
    obtain e' en where en: "exec_end_store idx pooled (memory (ex_ctx x)) (rs_globals (ex_rs x)) (ex_engine e x) = (e', en)"
      by fastforce
    then have "en = end_of pooled" using snd_end_store by (metis snd_conv)
    then have "exec_defer xe e v name g pre idx pooled a x = exec_cleanup xe e' v name g idx pooled (-1) 0 [end_of pooled]
        (x\<lparr>ex_rs := (ex_rs x)\<lparr>rs_host := (rs_host (ex_rs x))\<lparr>hs_engine := Some e'\<rparr>\<rparr>\<rparr>)"
      using 2 en by (simp add: exec_defer_def)
    then show ?thesis by (intro no_priv [OF 2, of _ e']) simp_all
  next
    case 3
    show ?thesis by (rule deferred [OF 3]) (simp_all add: exec_defer_def 3 Let_def)
  qed
qed

lemma request_callbacks:
  assumes "r = proxy_wasm_execute wt xe e g v module_name VWASM_PHASE_REQUEST vm_cfg plugin_cfg status"
  shows "er_events r = [] \<or> call_names (er_events r) = [] \<and> er_rv r = -1 \<or>
    (\<exists>name idx pre pooled k rest. module_name = Some name \<and> find_module e name = Some idx \<and>
       pre = me_pre (eng_modules e ! idx) \<and> call_names (er_events r) =
       exported wt pre (init_names pooled (opt_strlen vm_cfg) (opt_strlen plugin_cfg) @
         [''proxy_on_context_create'', ''proxy_on_request_headers'']) @
       replicate k ''proxy_on_http_call_response'' @ rest \<and>
     (rest = [] \<or> rest = exported wt pre [''proxy_on_request_body'', ''proxy_on_log'', ''proxy_on_done'', ''proxy_on_delete'']))"
  using assms
proof (cases rule: execute_cases)
  case (no_store name idx e1 pooled g1 ctx log)
  then show ?thesis by (simp add: exec_start_def set_deadline_def)
next
  case (ran name idx e1 pooled g1 ctx log mem globs pre x out)
  define y where "y = exec_ready wt e1 pre (pooled \<noteq> None) (opt_strlen vm_cfg) (opt_strlen plugin_cfg) mem globs log ctx"
  have y: "call_names (ex_events y) = exported wt pre (init_names (pooled \<noteq> None) (opt_strlen vm_cfg) (opt_strlen plugin_cfg))"
    by (simp add: y_def exec_ready_def names_init exec_start_def set_deadline_def)
  have fns: "phase_headers_fn VWASM_PHASE_REQUEST = ''proxy_on_request_headers''" "phase_body_fn VWASM_PHASE_REQUEST = ''proxy_on_request_body''"
    by (simp_all add: phase_headers_fn_def phase_body_fn_def)
  obtain k rest where x: "call_names (ex_events x) = call_names (ex_events y) @
      exported wt pre [''proxy_on_context_create'', ''proxy_on_request_headers''] @ replicate k ''proxy_on_http_call_response'' @ rest"
    "rest = [] \<or> rest = exported wt pre [''proxy_on_request_body'', ''proxy_on_log'', ''proxy_on_done'', ''proxy_on_delete'']"
    using names_callbacks [OF refl, of wt xe pre "epoch_deadline_ms e1" y] ran(7) unfolding y_def [symmetric] fns by auto
  have "\<exists>rv st. out = Finished rv st" using callbacks_request [OF refl ran(7)] .
  then have ev: "er_events r = ex_events x" using ran(8) by auto
  have "call_names (er_events r) = exported wt pre (init_names (pooled \<noteq> None) (opt_strlen vm_cfg) (opt_strlen plugin_cfg) @
      [''proxy_on_context_create'', ''proxy_on_request_headers'']) @ replicate k ''proxy_on_http_call_response'' @ rest"
    unfolding ev x(1) y exported_def filter_append append_assoc ..
  moreover have "pre = me_pre (eng_modules e ! idx)" using ran(5) acquire_fields(1) [OF ran(3)] by simp
  ultimately show ?thesis using x(2) ran(1,2) by (intro disjI2) (rule exI conjI | assumption)+
qed simp

lemma task_has_store:
  assumes "r = proxy_wasm_execute wt xe e g v module_name phase vm_cfg plugin_cfg status" "er_task r \<noteq> None"
  shows "er_ends r \<noteq> []"
  using assms(1)
proof (cases rule: execute_cases)
  case (not_run e1 g1 st)
  then show ?thesis using assms(2) by simp
next
  case (no_store name idx e1 pooled g1 ctx log)
  then show ?thesis by simp
next
  case (ran name idx e1 pooled g1 ctx log mem globs pre x out)
  show ?thesis
  proof (cases out)
    case (Deferred a)
    then show ?thesis
      by (cases rule: defer_cases [of xe e1 v "cstr name" g1 pre idx pooled a x]) (simp_all add: ran(8))
  qed (simp add: ran(8))
qed

lemma add_stats_simps:
  "calls_total (add_stats rv slow ctx s) = calls_total s + 1"
  "calls_ok_cnt (add_stats rv slow ctx s) = calls_ok_cnt s + of_bool (rv \<ge> 0)"
  "calls_error (add_stats rv slow ctx s) = calls_error s + of_bool (rv < 0)"
  by (simp_all add: add_stats_def Let_def)

lemma end_store_fields:
  "eng_stats (fst (exec_end_store idx pooled mem globs e)) = eng_stats e"
  "timers_ok (fst (exec_end_store idx pooled mem globs e)) = timers_ok e"
  by (simp_all add: exec_end_store_def timers_ok_def split: option.split)

lemma cleanup_engine:
  "er_engine (exec_cleanup xe e v name g idx pooled rv st ends x) =
     fst (exec_end_store idx pooled (memory (ex_ctx x)) (rs_globals (ex_rs x))
       ((ex_engine e x)\<lparr>eng_stats := add_stats rv (xe_elapsed xe > 10) (ex_ctx x) (eng_stats (ex_engine e x))\<rparr>))"
  by (simp add: exec_cleanup_def Let_def split: prod.split)

lemma start_engine [simp]: "ex_engine e (exec_start e ctx globs log) = e" "ex_ctx (exec_start e ctx globs log) = ctx"
  by (simp_all add: ex_engine_def exec_start_def set_deadline_def)

text \<open>The engine after the callbacks, apart from what a guest reaches.\<close>

lemma ran_engine:
  assumes "guest_bound L wt" "xe_cache xe VWASM_MAX_BODY_CACHE \<le> int VWASM_MAX_BODY_CACHE"
    and "exec_callbacks wt xe pre d phase (exec_ready wt e1 pre pooled vl pl mem globs log ctx) = (x, out)"
  shows "same_engine e1 (ex_engine e1 x)"
proof -
  have "engine_frame e1 (rs_host (ex_rs (exec_ready wt e1 pre pooled vl pl mem globs log ctx)))"
    by (rule frame.keeps_ready [OF assms(1)]) (simp add: engine_frame_def same_engine_def)
  then have "engine_frame e1 (rs_host (ex_rs x))" using frame.keeps_callbacks [OF assms(1,2)] assms(3) by (metis fst_conv)
  then show ?thesis by (auto simp: engine_frame_def ex_engine_def)
qed

lemma defer_engine:
  assumes "xe_al xe 6" "xe_priv_task xe"
  shows "eng_stats (er_engine (exec_defer xe e v name g pre idx pooled a x)) =
    (let s = eng_stats (ex_engine e x); s = s\<lparr>calls_total := calls_total s + 1\<rparr>
     in if local_response_set (ex_ctx x) then s\<lparr>local_responses := local_responses s + 1\<rparr> else s)"
    "er_engine (exec_defer xe e v name g pre idx pooled a x) =
      (ex_engine e x)\<lparr>eng_stats := eng_stats (er_engine (exec_defer xe e v name g pre idx pooled a x))\<rparr>"
  using assms by (simp_all add: exec_defer_def Let_def)

section \<open>Examples\<close>

text \<open>A Wasmtime whose modules export every callback and do nothing in them, an engine with two modules and no
  pools, and a client request without a body.\<close>

definition idle_wasmtime :: wasmtime where
  "idle_wasmtime = \<lparr>wt_store_new = (\<lambda>_. True), wt_instantiate = (\<lambda>_ _. Some (''ab'', [])),
     wt_export = (\<lambda>_ name. if name = ''memory'' then Some WASMTIME_EXTERN_MEMORY else Some WASMTIME_EXTERN_FUNC),
     wt_alloc = (\<lambda>_ _ _ m. (None, m)), wt_call = (\<lambda>_ _ _ rs. (rs, Call_Done 0))\<rparr>"

definition two_modules :: vwasm_engine where
  "two_modules = (the (vwasm_engine_new (\<lambda>_. True)))
     \<lparr>eng_modules := [\<lparr>me_name = ''deny'', me_module = 0, me_pre = 0\<rparr>, \<lparr>me_name = ''pass'', me_module = 1, me_pre = 1\<rparr>]\<rparr>"

definition plain_xe :: exec_env where
  "plain_xe = \<lparr>xe_al = (\<lambda>_. True), xe_vsl = True, xe_failure = Inl [], xe_req = True, xe_has_body = False, xe_cache = (\<lambda>_. 0),
     xe_pieces = [], xe_iterate = True, xe_priv_task = True, xe_elapsed = 2\<rparr>"

lemma plain_xe_facts: "xe_priv_task plain_xe" "xe_cache plain_xe VWASM_MAX_BODY_CACHE \<le> int VWASM_MAX_BODY_CACHE"
  by (simp_all add: plain_xe_def exec_consts)

definition no_stores :: global_stores where
  "no_stores = \<lparr>global_shared_data = None, global_queue_store = None, global_metric_store = None\<rparr>"

definition plain_vrt :: vrt_ctx where
  "plain_vrt = \<lparr>http_req = Some \<lparr>hd_method = Some ''GET'', hd_url = Some ''/'', hd_proto = None, hd_status = None,
     hd_lines = [Some ''Host: a''], http_status = 0\<rparr>, http_bereq = None, http_resp = None, http_beresp = None\<rparr>"

section \<open>Properties\<close>



text \<open>C34: when \<open>VRT_priv_task\<close> does not find room, an execution that would have left its store to the
  delivery processor ends it twice: the pooled store is released to two users, or the store is deleted twice.\<close>

theorem lost_task_ends_store_twice:
  assumes "xe_priv_task xe" "er_ends (proxy_wasm_execute wt xe e g v name phase vm_cfg plugin_cfg status) = [Store_Deferred]"
  shows "\<exists>en. en \<noteq> Store_Deferred \<and>
    er_ends (proxy_wasm_execute wt (xe\<lparr>xe_priv_task := False\<rparr>) e g v name phase vm_cfg plugin_cfg status) = [en, en]"
proof -
  let ?xe = "xe\<lparr>xe_priv_task := False\<rparr>"
  have ctx: "exec_context ?xe e1 v' n c1 c2 g' = exec_context xe e1 v' n c1 c2 g'" for e1 v' n c1 c2 g'
    by (simp add: exec_context_def)
  have st: "exec_store wt ?xe n pre pooled poolp = exec_store wt xe n pre pooled poolp" for n pre pooled poolp
    by (auto simp: exec_store_def split: option.split sum.split)
  have body: "exec_request_body ?xe = exec_request_body xe" by (simp add: exec_request_body_def Let_def)
  have eb: "exec_body wt ?xe pre ph a x = exec_body wt xe pre ph a x" for pre ph a x
    unfolding exec_body_def body by simp
  have cb: "exec_callbacks wt ?xe pre d ph x = exec_callbacks wt xe pre d ph x" for pre d ph x
    unfolding exec_callbacks_def eb ..
  obtain r where r: "r = proxy_wasm_execute wt xe e g v name phase vm_cfg plugin_cfg status" by simp
  note ends = assms(2) [folded r]
  from r show ?thesis
  proof (cases rule: execute_cases)
    case (not_run e1 g1 st)
    then show ?thesis using ends by simp
  next
    case (no_store nm idx e1 pooled g1 ctx log)
    then show ?thesis using ends by (simp add: end_of_def split: if_splits)
  next
    case (ran nm idx e1 pooled g1 ctx log mem globs pre x out)
    obtain a where out: "out = Deferred a" using ran(8) ends by (cases out) (auto simp: end_of_def split: if_splits)
    have al: "xe_al xe 6"
      using ran(8) ends unfolding out by (auto simp: exec_defer_def end_of_def split: if_splits)
    have "proxy_wasm_execute wt ?xe e g v name phase vm_cfg plugin_cfg status =
        exec_defer ?xe e1 v (cstr nm) g1 pre idx pooled a x"
      using execute_run [OF ran(1-3) ran(4) [folded ctx] ran(5) ran(6) [folded st] ran(7) [folded cb] ran(9)] out by simp
    then show ?thesis
      by (cases rule: defer_cases [of ?xe e1 v "cstr nm" g1 pre idx pooled a x])
        (use al in \<open>simp_all add: end_of_def\<close>)
  qed
qed

theorem lost_task_ends_store_twice_witness:
  "\<exists>en. en \<noteq> Store_Deferred \<and>
    er_ends (proxy_wasm_execute idle_wasmtime (plain_xe\<lparr>xe_priv_task := False\<rparr>) two_modules no_stores plain_vrt
      (Some ''pass'') VWASM_PHASE_RESPONSE None None 0) = [en, en]"
proof (rule lost_task_ends_store_twice [OF plain_xe_facts(1)])
  show "er_ends (proxy_wasm_execute idle_wasmtime plain_xe two_modules no_stores plain_vrt (Some ''pass'')
     VWASM_PHASE_RESPONSE None None 0) = [Store_Deferred]" by code_simp
qed


lemma idle_bound: "guest_bound 65536 idle_wasmtime"
  by (simp add: guest_bound_def idle_wasmtime_def alloc_limited_def)

lemma execute_counted:
  assumes "guest_bound L wt" "xe_cache xe VWASM_MAX_BODY_CACHE \<le> int VWASM_MAX_BODY_CACHE" "xe_priv_task xe"
    and "r = proxy_wasm_execute wt xe e g v module_name phase vm_cfg plugin_cfg status" "er_ends r \<noteq> []"
  shows "calls_total (eng_stats (er_engine r)) = calls_total (eng_stats e) + 1 \<and>
    calls_ok_cnt (eng_stats (er_engine r)) = calls_ok_cnt (eng_stats e) + of_bool (er_task r = None \<and> er_rv r \<ge> 0) \<and>
    calls_error (eng_stats (er_engine r)) = calls_error (eng_stats e) + of_bool (er_task r = None \<and> er_rv r < 0)"
  using assms(4)
proof (cases rule: execute_cases)
  case (not_run e1 g1 st)
  then show ?thesis using assms(5) by simp
next
  case (no_store name idx e1 pooled g1 ctx log)
  show ?thesis by (simp add: no_store(6) cleanup_engine end_store_fields add_stats_simps acquire_fields(2) [OF no_store(3)])
next
  case (ran name idx e1 pooled g1 ctx log mem globs pre x out)
  have same: "eng_stats (ex_engine e1 x) = eng_stats e"
    using ran_engine [OF assms(1,2) ran(7)] acquire_fields(2) [OF ran(3)] by (simp add: same_engine_def)
  note clean = cleanup_engine end_store_fields add_stats_simps same
  show ?thesis
  proof (cases out)
    case (Finished rv st)
    then show ?thesis by (simp add: ran(8) clean)
  next
    case (Deferred a)
    then show ?thesis
      by (cases rule: defer_cases [of xe e1 v "cstr name" g1 pre idx pooled a x])
        (simp_all add: ran(8) clean assms(3) defer_engine(1) Let_def)
  qed
qed

text \<open>C23: the statistics of executions. An execution that had a store is counted once in total, and once as
  a success (it did not return a negative value) or as an error, unless the delivery processor will do that.\<close>

theorem execute_counts:
  assumes "guest_bound L wt" "xe_cache xe VWASM_MAX_BODY_CACHE \<le> int VWASM_MAX_BODY_CACHE" "xe_priv_task xe"
    and "r = proxy_wasm_execute wt xe e g v module_name phase vm_cfg plugin_cfg status" "er_ends r \<noteq> []"
  shows "calls_total (eng_stats (er_engine r)) = calls_total (eng_stats e) + 1 \<and>
    calls_ok_cnt (eng_stats (er_engine r)) = calls_ok_cnt (eng_stats e) + of_bool (er_task r = None \<and> er_rv r \<ge> 0) \<and>
    calls_error (eng_stats (er_engine r)) = calls_error (eng_stats e) + of_bool (er_task r = None \<and> er_rv r < 0)"
  by (rule execute_counted [OF assms])

theorem execute_counts_witness:
  "calls_ok_cnt (eng_stats (er_engine (proxy_wasm_execute idle_wasmtime plain_xe two_modules no_stores plain_vrt
     (Some ''pass'') VWASM_PHASE_REQUEST None None 0))) = calls_ok_cnt (eng_stats two_modules) + 1"
proof -
  define r where "r = proxy_wasm_execute idle_wasmtime plain_xe two_modules no_stores plain_vrt (Some ''pass'')
     VWASM_PHASE_REQUEST None None 0"
  have "er_ends r = [Store_Deleted] \<and> er_task r = None \<and> er_rv r \<ge> 0" unfolding r_def by code_simp
  then show ?thesis using execute_counts [OF idle_bound plain_xe_facts(2,1) r_def] unfolding r_def [symmetric] by simp
qed

end
