(* ===== verification/Exec_Safety.thy ===== *)
theory Exec_Safety
  imports Exec_Properties
begin

text \<open>
  What survives the execution of an arbitrary module, and of a chain of them: the host never writes outside a
  guest's memory, the shared stores and the timers keep their invariants, the pools keep their shape and
  every slot taken for an execution is free again after it.
\<close>

section \<open>The invariant of the world between executions\<close>

definition stores_ok :: "global_stores \<Rightarrow> bool" where
  "stores_ok g \<longleftrightarrow> pred_option sd_wf (global_shared_data g) \<and> pred_option qs_reach (global_queue_store g) \<and>
     pred_option metrics_ok (global_metric_store g)"

definition vrt_small :: "vrt_ctx \<Rightarrow> bool" where
  "vrt_small v \<longleftrightarrow> pred_option http_small (http_req v) \<and> pred_option http_small (http_resp v) \<and>
     pred_option http_small (http_beresp v)"

definition slot_small :: "nat \<Rightarrow> pooled_store \<Rightarrow> bool" where
  "slot_small L ps \<longleftrightarrow> pred_option (\<lambda>st. length (ws_memory st) \<le> L) (ps_store ps)"

definition pool_ok :: "nat \<Rightarrow> store_pool \<Rightarrow> bool" where
  "pool_ok L pool \<longleftrightarrow> pool_shape pool \<and> list_all (slot_small L) (sp_objects pool)"

definition pools_ok :: "nat \<Rightarrow> vwasm_engine \<Rightarrow> bool" where
  "pools_ok L e \<longleftrightarrow> length (eng_pools e) = MAX_MODULES \<and> list_all (pred_option (pool_ok L)) (eng_pools e)"

definition world_ok :: "nat \<Rightarrow> vwasm_engine \<Rightarrow> global_stores \<Rightarrow> vrt_ctx \<Rightarrow> bool" where
  "world_ok L e g v \<longleftrightarrow> timers_ok e \<and> pools_ok L e \<and> stores_ok g \<and> vrt_small v"

section \<open>Lemmas: pools\<close>

lemma list_all_update: "list_all P xs \<Longrightarrow> P y \<Longrightarrow> list_all P (xs[i := y])"
  by (auto simp: list_all_iff dest: set_update_subset_insert [THEN subsetD])

lemma restore_length: "length (fst (vwasm_warm_instance_restore w mem)) \<le> length mem"
  by (auto simp: vwasm_warm_instance_restore_def split: option.splits)

lemma taken_small: "slot_small L ps \<Longrightarrow> slot_small L (taken w d ps)"
  by (cases "ps_store ps") (auto simp: slot_small_def taken_def Let_def restore_store_def intro: order_trans [OF restore_length])

lemma acquire_ok:
  assumes "pool_ok L pool" "vwasm_store_pool_acquire w d (Some pool) = (p, r)"
  obtains pool' where "p = Some pool'" "pool_ok L pool'" "sp_capacity pool' = sp_capacity pool"
    "\<And>s. r = Some s \<Longrightarrow> s < sp_capacity pool \<and> \<not> sp_in_use pool ! s \<and> sp_in_use pool' = (sp_in_use pool)[s := True] \<and>
      sp_slots pool' ! s = Some s"
    "r = None \<Longrightarrow> sp_in_use pool' = sp_in_use pool"
proof -
  have shape: "pool_shape pool" and small: "list_all (slot_small L) (sp_objects pool)"
    using assms(1) by (simp_all add: pool_ok_def)
  show ?thesis
    using shape
  proof (cases rule: slot_acquire_cases [of pool w d])
    case (taken idx)
    let ?q = "pool\<lparr>sp_scan_hint := sp_scan_hint pool + 1, sp_in_use := (sp_in_use pool)[idx := True]\<rparr>"
    have full: "sp_slots pool ! idx = Some idx"
      using slot_store_cases [OF shape taken(1)] taken(2) by (metis available_def)
    have "slot_store ?q idx \<noteq> None" using taken(2) by (simp add: available_def)
    moreover have "pool_shape ?q" using shape by (simp add: pool_shape_def)
    ultimately have "pool_shape (take_slot w d idx ?q)" using taken(1) by (auto intro!: take_slot_shape)
    moreover have "slot_small L (sp_objects pool ! idx)" using small taken(1) shape by (simp add: pool_shape_def list_all_length)
    then have "list_all (slot_small L) (sp_objects (take_slot w d idx ?q))"
      using small by (simp add: take_slot_object full list_all_update taken_small)
    ultimately have ok: "pool_ok L (take_slot w d idx ?q)" by (simp add: pool_ok_def)
    have r: "p = Some (take_slot w d idx ?q)" "r = Some idx" using taken(3) assms(2) by simp_all
    show ?thesis
      by (rule that [OF r(1) ok]) (use taken(1,2) r(2) full in \<open>simp_all add: available_def\<close>)
  next
    case none
    then have r: "p = Some (pool\<lparr>sp_scan_hint := sp_scan_hint pool + 1, sp_fallbacks := sp_fallbacks pool + 1\<rparr>)" "r = None"
      using assms(2) by simp_all
    show ?thesis by (rule that [OF r(1)]) (use shape small r(2) in \<open>simp_all add: pool_ok_def pool_shape_def\<close>)
  qed
qed

lemma release_ok:
  assumes "pool_ok L pool" "s < sp_capacity pool" "length mem \<le> L" "sp_slots pool ! s = Some s"
  shows "\<exists>pool'. vwasm_store_pool_release (Some (pool_put_back s mem globs pool)) (Some s) = Some pool' \<and> pool_ok L pool' \<and>
    sp_in_use pool' = (sp_in_use pool)[s := False]"
proof -
  have shape: "pool_shape pool" and small: "list_all (slot_small L) (sp_objects pool)"
    using assms(1) by (simp_all add: pool_ok_def)
  have slot: "unat (ps_slot_idx (sp_objects pool ! s)) = s" "ps_store (sp_objects pool ! s) \<noteq> None" "s < length (sp_objects pool)"
    using slot_store_cases [OF shape assms(2)] assms(2,4) shape by (auto simp: pool_shape_def)
  define ps where "ps = (sp_objects pool ! s)\<lparr>ps_store :=
    map_option (\<lambda>st. st\<lparr>ws_memory := mem, ws_globals := globs, ws_data := False\<rparr>) (ps_store (sp_objects pool ! s))\<rparr>"
  let ?p = "pool\<lparr>sp_objects := (sp_objects pool)[s := ps], sp_in_use := (sp_in_use pool)[s := False], sp_releases := sp_releases pool + 1\<rparr>"
  have eq: "vwasm_store_pool_release (Some (pool_put_back s mem globs pool)) (Some s) = Some ?p"
    using slot by (simp add: vwasm_store_pool_release_def pool_put_back_def Let_def ps_def option.map_comp comp_def)
  have "pool_shape (pool\<lparr>sp_objects := (sp_objects pool)[s := ps]\<rparr>)"
    by (rule pool_shape_object [OF shape]) (use slot in \<open>simp_all add: ps_def\<close>)
  moreover have "slot_small L ps" using assms(3) by (cases "ps_store (sp_objects pool ! s)") (simp_all add: ps_def slot_small_def)
  ultimately have "pool_ok L ?p" using small by (auto simp: pool_ok_def pool_shape_def intro: list_all_update)
  then show ?thesis using eq by auto
qed

section \<open>Lemmas: the start of an execution\<close>

lemma new_shared_wf: "vwasm_shared_data_new al ok = Some sd \<Longrightarrow> sd_wf sd"
  by (auto simp: vwasm_shared_data_new_def sd_wf_def VWASM_SHARED_DATA_BUCKETS_def split: if_splits)

lemma get_shared_ok:
  assumes "stores_ok g"
  shows "\<exists>sd. vwasm_proxy_wasm_get_shared_data al l g = (g\<lparr>global_shared_data := sd\<rparr>, sd) \<and> pred_option sd_wf sd"
proof (cases "global_shared_data g")
  case None
  then show ?thesis using new_shared_wf by (auto simp: vwasm_proxy_wasm_get_shared_data_def Let_def pred_option_def)
next
  case (Some sd)
  then show ?thesis using assms by (simp add: vwasm_proxy_wasm_get_shared_data_def stores_ok_def Let_def)
qed

lemma get_queue_ok:
  assumes "stores_ok g"
  shows "\<exists>qs. vwasm_proxy_wasm_get_queue_store al l g = (g\<lparr>global_queue_store := qs\<rparr>, qs) \<and> pred_option qs_reach qs"
proof (cases "global_queue_store g")
  case None
  then show ?thesis using qs_reach.qs_new by (auto simp: vwasm_proxy_wasm_get_queue_store_def Let_def pred_option_def)
next
  case (Some sd)
  then show ?thesis using assms by (simp add: vwasm_proxy_wasm_get_queue_store_def stores_ok_def Let_def)
qed

lemma get_metric_ok:
  assumes "stores_ok g"
  shows "\<exists>ms. vwasm_proxy_wasm_get_metric_store al g = (g\<lparr>global_metric_store := ms\<rparr>, ms) \<and> pred_option metrics_ok ms"
proof (cases "global_metric_store g")
  case None
  then show ?thesis by (simp add: vwasm_proxy_wasm_get_metric_store_def Let_def metrics_ok_def)
next
  case (Some sd)
  then show ?thesis using assms by (simp add: vwasm_proxy_wasm_get_metric_store_def stores_ok_def Let_def)
qed

lemma open_stores_ok:
  assumes "stores_ok g" "open_stores al g ctx = (g', ctx')"
  shows "stores_ok g' \<and> ctx' = ctx\<lparr>shared_data_p := global_shared_data g', queue_store_p := global_queue_store g',
    metric_store_p := global_metric_store g'\<rparr>"
proof -
  obtain sd where 1: "vwasm_proxy_wasm_get_shared_data al (al 1) g = (g\<lparr>global_shared_data := sd\<rparr>, sd)" "pred_option sd_wf sd"
    using get_shared_ok [OF assms(1)] by blast
  have ok1: "stores_ok (g\<lparr>global_shared_data := sd\<rparr>)" using assms(1) 1(2) by (simp add: stores_ok_def)
  obtain qs where 2: "vwasm_proxy_wasm_get_queue_store (\<lambda>k. al (2 + k)) (al 3) (g\<lparr>global_shared_data := sd\<rparr>) =
      (g\<lparr>global_shared_data := sd, global_queue_store := qs\<rparr>, qs)" "pred_option qs_reach qs"
    using get_queue_ok [OF ok1] by blast
  have ok2: "stores_ok (g\<lparr>global_shared_data := sd, global_queue_store := qs\<rparr>)" using ok1 2(2) by (simp add: stores_ok_def)
  obtain ms where 3: "vwasm_proxy_wasm_get_metric_store (\<lambda>k. al (4 + k)) (g\<lparr>global_shared_data := sd, global_queue_store := qs\<rparr>) =
      (g\<lparr>global_shared_data := sd, global_queue_store := qs, global_metric_store := ms\<rparr>, ms)" "pred_option metrics_ok ms"
    using get_metric_ok [OF ok2] by blast
  note eq = assms(2) [unfolded open_stores_def 1(1) prod.case 2(1) 3(1), symmetric]
  show ?thesis using eq ok2 3(2) by (simp add: stores_ok_def)
qed

lemma context_ok:
  assumes "stores_ok g" "vrt_small v" "small vm_cfg" "small plugin_cfg"
    and "exec_context xe e v name vm_cfg plugin_cfg g = (g1, ctx)"
  shows "stores_ok g1" "ctx_inv L ctx" "modified_body ctx = None"
proof -
  have cfg: "small (map_option cstr c)" if "small c" for c
    using that length_cstr_le order.strict_trans1 by (cases c) (fastforce simp: small_def buf_len_def)+
  obtain g' c where c: "open_stores (xe_al xe) g ((pctx_zero [] (\<lambda>_ m. (None, m)))
      \<lparr>vrt := Some v, engine_set := True, root_context_id := 1, stream_context_id := 2, mod_name := Some name,
       vm_config := map_option cstr vm_cfg, plugin_config := map_option cstr plugin_cfg\<rparr>) = (g', c)" by fastforce
  have g: "g1 = g'" and ctx: "ctx = c\<lparr>http_call_max := eng_http_call_max e, http_timeout_ms := eng_http_timeout_ms e,
      allowed_upstreams := eng_allowed_upstreams e, wasm_ctx := True\<rparr>"
    using assms(5) [unfolded exec_context_def c prod.case] by simp_all
  note o = open_stores_ok [OF assms(1) c]
  show "stores_ok g1" using o g by simp
  show "ctx_inv L ctx" using o assms(2) cfg [OF assms(3)] cfg [OF assms(4)]
    by (simp add: ctx ctx_inv_defs pctx_zero_def trailers_ok_def alloc_limited_def stores_ok_def vrt_small_def small_def buf_len_def)
  show "modified_body ctx = None" using o by (simp add: ctx pctx_zero_def)
qed

lemma resolve_ok:
  assumes "guest_bound L wt" "ctx_inv L ctx" "length mem \<le> L"
  shows "ctx_inv L (resolve_allocator wt pre (resolve_memory wt pre mem ctx))"
    "modified_body (resolve_allocator wt pre (resolve_memory wt pre mem ctx)) = modified_body ctx"
  using assms by (auto simp: resolve_allocator_def resolve_memory_def ctx_inv_defs guest_bound_def Let_def)

section \<open>Lemmas: the slot of an execution\<close>

definition pool_flags :: "vwasm_engine \<Rightarrow> bool list option list" where
  "pool_flags e = map (map_option sp_in_use) (eng_pools e)"

lemma flags_same:
  assumes "ps ! idx = Some pool" "sp_in_use q = sp_in_use pool"
  shows "map (map_option sp_in_use) (ps[idx := Some q]) = map (map_option sp_in_use) ps"
proof -
  have "(map (map_option sp_in_use) ps)[idx := map_option sp_in_use (ps ! idx)] = map (map_option sp_in_use) ps"
    by (cases "idx < length ps") (simp_all add: map_update [symmetric] list_update_beyond)
  then show ?thesis using assms by (simp add: map_update)
qed

text \<open>A slot taken: its flag is the only one that changed, and it was clear.\<close>

definition slot_taken :: "nat \<Rightarrow> vwasm_engine \<Rightarrow> nat \<Rightarrow> nat \<Rightarrow> vwasm_engine \<Rightarrow> bool" where
  "slot_taken L e idx s e1 \<longleftrightarrow> (\<exists>pool pool'. idx < length (eng_pools e) \<and> eng_pools e ! idx = Some pool \<and>
     eng_pools e1 = (eng_pools e)[idx := Some pool'] \<and> pool_ok L pool' \<and> s < sp_capacity pool' \<and> sp_slots pool' ! s = Some s \<and>
     sp_in_use pool' = (sp_in_use pool)[s := True] \<and> \<not> sp_in_use pool ! s)"

lemma exec_acquire_ok:
  assumes "pools_ok L e" "exec_acquire e idx = (e1, pooled)"
  shows "pools_ok L e1" "pooled = None \<Longrightarrow> pool_flags e1 = pool_flags e" "pooled = Some s \<Longrightarrow> slot_taken L e idx s e1"
proof -
  have "pools_ok L e1 \<and> (pooled = None \<longrightarrow> pool_flags e1 = pool_flags e) \<and> (pooled = Some s \<longrightarrow> slot_taken L e idx s e1)"
  proof (cases "idx < MAX_MODULES \<and> eng_pools e ! idx \<noteq> None")
    case False
    then have "e1 = e" "pooled = None" using assms(2) by (auto simp: exec_acquire_def split: if_splits)
    then show ?thesis using assms(1) by simp
  next
    case True
    then obtain pool where pool: "idx < MAX_MODULES" "eng_pools e ! idx = Some pool" by auto
    have len: "idx < length (eng_pools e)" and ok: "pool_ok L pool"
      using assms(1) pool by (auto simp: pools_ok_def list_all_length)
    have upd: "pools_ok L (e\<lparr>eng_pools := (eng_pools e)[idx := Some q]\<rparr>)" if "pool_ok L q" for q
      using assms(1) that by (auto simp: pools_ok_def intro: list_all_update)
    have fl: "pool_flags (e\<lparr>eng_pools := (eng_pools e)[idx := Some q]\<rparr>) = pool_flags e" if "sp_in_use q = sp_in_use pool" for q
      using flags_same [OF pool(2) that] by (simp add: pool_flags_def)
    show ?thesis
    proof (cases "has_initialize (warm_instances e ! idx)")
      case True
      then have e1: "e1 = e\<lparr>eng_pools := (eng_pools e)[idx := Some (pool\<lparr>sp_fallbacks := sp_fallbacks pool + 1\<rparr>)]\<rparr>" "pooled = None"
        using assms(2) pool by (simp_all add: exec_acquire_def)
      have "pool_ok L (pool\<lparr>sp_fallbacks := sp_fallbacks pool + 1\<rparr>)" using ok by (simp add: pool_ok_def)
      then show ?thesis using upd fl [of "pool\<lparr>sp_fallbacks := sp_fallbacks pool + 1\<rparr>"] e1 by simp
    next
      case False
      let ?w = "map_option ((!) (warm_instances e)) (sp_warm_ref pool)"
      obtain p r where pr: "vwasm_store_pool_acquire ?w (vwasm_engine_get_epoch_deadline_ms (Some e)) (Some pool) = (p, r)" by fastforce
      have e1: "e1 = e\<lparr>eng_pools := (eng_pools e)[idx := p]\<rparr>" "pooled = r"
        using assms(2) pool False pr by (simp_all add: exec_acquire_def)
      show ?thesis
      proof (rule acquire_ok [OF ok pr])
        fix pool'
        assume p': "p = Some pool'" "pool_ok L pool'" "sp_capacity pool' = sp_capacity pool"
          and some: "\<And>s. r = Some s \<Longrightarrow> s < sp_capacity pool \<and> \<not> sp_in_use pool ! s \<and>
            sp_in_use pool' = (sp_in_use pool)[s := True] \<and> sp_slots pool' ! s = Some s"
          and none: "r = None \<Longrightarrow> sp_in_use pool' = sp_in_use pool"
        have "slot_taken L e idx s e1" if "r = Some s"
          unfolding slot_taken_def using len pool(2) e1(1) p' some [OF that] by auto
        then show ?thesis using upd [OF p'(2)] fl [of pool'] none e1 p'(1) by simp
      qed
    qed
  qed
  then show "pools_ok L e1" "pooled = None \<Longrightarrow> pool_flags e1 = pool_flags e" "pooled = Some s \<Longrightarrow> slot_taken L e idx s e1"
    by simp_all
qed

text \<open>Between the two an execution holds the slot, if it has one.\<close>

definition held :: "nat \<Rightarrow> vwasm_engine \<Rightarrow> nat \<Rightarrow> nat option \<Rightarrow> vwasm_engine \<Rightarrow> bool" where
  "held L e idx pooled e1 \<longleftrightarrow> pools_ok L e \<and> pools_ok L e1 \<and>
     (case pooled of None \<Rightarrow> pool_flags e1 = pool_flags e | Some s \<Rightarrow> slot_taken L e idx s e1)"

lemma acquire_held: "pools_ok L e \<Longrightarrow> exec_acquire e idx = (e1, pooled) \<Longrightarrow> held L e idx pooled e1"
  by (cases pooled) (simp_all add: held_def exec_acquire_ok)

lemma held_pools: "held L e idx pooled e1 \<Longrightarrow> eng_pools e2 = eng_pools e1 \<Longrightarrow> held L e idx pooled e2"
  by (simp add: held_def pools_ok_def pool_flags_def slot_taken_def split: option.splits)

text \<open>Giving it back.\<close>

lemma end_store_ok:
  assumes "held L e idx pooled e1" "length mem \<le> L"
  shows "pools_ok L (fst (exec_end_store idx pooled mem globs e1)) \<and>
    pool_flags (fst (exec_end_store idx pooled mem globs e1)) = pool_flags e"
proof (cases pooled)
  case None
  then show ?thesis using assms by (simp add: exec_end_store_def held_def)
next
  case (Some s)
  obtain pool pool' where t: "idx < length (eng_pools e)" "eng_pools e ! idx = Some pool"
    "eng_pools e1 = (eng_pools e)[idx := Some pool']" "pool_ok L pool'" "s < sp_capacity pool'" "sp_slots pool' ! s = Some s"
    "sp_in_use pool' = (sp_in_use pool)[s := True]" "\<not> sp_in_use pool ! s"
    using assms(1) Some by (auto simp: held_def slot_taken_def)
  obtain q where q: "vwasm_store_pool_release (Some (pool_put_back s mem globs pool')) (Some s) = Some q" "pool_ok L q"
    "sp_in_use q = (sp_in_use pool')[s := False]"
    using release_ok [OF t(4,5) assms(2) t(6)] by blast
  have "sp_in_use q = sp_in_use pool" using t(7,8) q(3) list_update_id [of "sp_in_use pool" s] by simp
  moreover have "fst (exec_end_store idx pooled mem globs e1) = e1\<lparr>eng_pools := (eng_pools e)[idx := Some q]\<rparr>"
    using t(1,3) q(1) Some by (simp add: exec_end_store_def)
  moreover have "pools_ok L e" using assms(1) by (simp add: held_def)
  ultimately show ?thesis
    using q(2) flags_same [OF t(2), of q] by (auto simp: pools_ok_def pool_flags_def intro: list_all_update)
qed

section \<open>Lemmas: executions\<close>

lemma timers_stats [simp]: "timers_ok (e\<lparr>eng_stats := s\<rparr>) = timers_ok e" "eng_pools (e\<lparr>eng_stats := s\<rparr>) = eng_pools e"
  by (simp_all add: timers_ok_def)

lemma close_stores_ok: "ctx_inv L ctx \<Longrightarrow> stores_ok (close_stores ctx g)"
  by (simp add: close_stores_def stores_ok_def ctx_inv_def stores_inv_def)

lemma ex_vrt_small: "ctx_inv L (ex_ctx x) \<Longrightarrow> vrt_small v \<Longrightarrow> vrt_small (ex_vrt v x)"
  by (cases "vrt (ex_ctx x)") (simp_all add: ex_vrt_def vrt_small_def ctx_inv_def sizes_inv_def)

text \<open>The end of an execution whose state satisfies the invariant no guest can break.\<close>

lemma cleanup_world:
  assumes "guest_inv L (rs_host (ex_rs x))" "same_engine e1 (ex_engine e1 x)" "timers_ok (ex_engine e1 x)"
    and "pools_ok L e" "exec_acquire e idx = (e1, pooled)" "vrt_small v"
  shows "world_ok L (er_engine (exec_cleanup xe e1 v name g idx pooled rv st ends x))
           (er_stores (exec_cleanup xe e1 v name g idx pooled rv st ends x)) (er_vrt (exec_cleanup xe e1 v name g idx pooled rv st ends x))"
    "\<not> er_fault (exec_cleanup xe e1 v name g idx pooled rv st ends x)"
    "pool_flags (er_engine (exec_cleanup xe e1 v name g idx pooled rv st ends x)) = pool_flags e"
proof -
  have inv: "ctx_inv L (ex_ctx x)" using assms(1) by (simp add: guest_inv_def host_inv_def)
  have mem: "length (memory (ex_ctx x)) \<le> L" "\<not> mem_fault (ex_ctx x)" using inv by (simp_all add: ctx_inv_def mem_inv_def)
  let ?e' = "(ex_engine e1 x)\<lparr>eng_stats := add_stats rv (xe_elapsed xe > 10) (ex_ctx x) (eng_stats (ex_engine e1 x))\<rparr>"
  have pools: "eng_pools ?e' = eng_pools e1" using assms(2) by (simp add: same_engine_def)
  note en = end_store_ok [OF held_pools [OF acquire_held [OF assms(4,5)] pools] mem(1), THEN conjunct1]
    end_store_ok [OF held_pools [OF acquire_held [OF assms(4,5)] pools] mem(1), THEN conjunct2]
  have vrt: "er_vrt (exec_cleanup xe e1 v name g idx pooled rv st ends x) = ex_vrt v x"
    by (simp add: exec_cleanup_def Let_def split: prod.split)
  show "world_ok L (er_engine (exec_cleanup xe e1 v name g idx pooled rv st ends x))
      (er_stores (exec_cleanup xe e1 v name g idx pooled rv st ends x)) (er_vrt (exec_cleanup xe e1 v name g idx pooled rv st ends x))"
    using en(1) assms(3) close_stores_ok [OF inv] ex_vrt_small [OF inv assms(6)]
    by (simp add: world_ok_def cleanup_engine vrt end_store_fields)
  show "\<not> er_fault (exec_cleanup xe e1 v name g idx pooled rv st ends x)" using mem(2) by simp
  show "pool_flags (er_engine (exec_cleanup xe e1 v name g idx pooled rv st ends x)) = pool_flags e"
    using en(2) by (simp add: cleanup_engine)
qed

text \<open>The store an execution begins with is within the limit.\<close>

lemma exec_store_ok:
  assumes "guest_bound L wt" "pools_ok L e" "exec_acquire e idx = (e1, pooled)"
    and "exec_store wt xe name pre pooled (eng_pools e1 ! idx) = (Some (mem, globs), log)"
  shows "length mem \<le> L"
proof (cases pooled)
  case None
  then show ?thesis using assms(1,4) unfolding exec_store_def guest_bound_def by (fastforce split: option.splits)
next
  case (Some s)
  obtain pool' where t: "idx < length (eng_pools e)" "eng_pools e1 = (eng_pools e)[idx := Some pool']" "pool_ok L pool'"
    "s < sp_capacity pool'"
    using exec_acquire_ok(3) [OF assms(2,3) Some] by (auto simp: slot_taken_def)
  have "slot_small L (sp_objects pool' ! s)" using t(3,4) by (simp add: pool_ok_def pool_shape_def list_all_length)
  then show ?thesis using assms(4) t(1,2) Some by (auto simp: exec_store_def slot_small_def)
qed

lemma ran_inv:
  assumes "guest_bound L wt" "L < 2 ^ 32 - 1" "xe_cache xe VWASM_MAX_BODY_CACHE \<le> int VWASM_MAX_BODY_CACHE"
    and "ctx_inv L ctx" "modified_body ctx = None" "length mem \<le> L" "timers_ok e1"
    and "exec_callbacks wt xe pre d phase (exec_ready wt e1 pre pooled vl pl mem globs log ctx) = (x, out)"
  shows "guest_inv L (rs_host (ex_rs x))" "timers_ok (ex_engine e1 x)"
proof -
  have "guest_inv L \<lparr>hs_ctx = resolve_allocator wt pre (resolve_memory wt pre mem ctx), hs_engine = Some e1, hs_log = log\<rparr>"
    using resolve_ok [OF assms(1,4,6)] assms(2,5,7) by (simp add: guest_inv_def host_inv_def body_small_def small_def buf_len_def)
  then have "guest_inv L (rs_host (ex_rs (exec_ready wt e1 pre pooled vl pl mem globs log ctx)))"
    by (rule safe.keeps_ready [OF assms(1)])
  then show inv: "guest_inv L (rs_host (ex_rs x))" using safe.keeps_callbacks [OF assms(1,3)] assms(8) by (metis fst_conv)
  have "engine_frame e1 (rs_host (ex_rs (exec_ready wt e1 pre pooled vl pl mem globs log ctx)))"
    by (rule frame.keeps_ready [OF assms(1)]) (simp add: engine_frame_def same_engine_def)
  then have "engine_frame e1 (rs_host (ex_rs x))" using frame.keeps_callbacks [OF assms(1,3)] assms(8) by (metis fst_conv)
  then show "timers_ok (ex_engine e1 x)" using inv by (auto simp: engine_frame_def ex_engine_def guest_inv_def host_inv_def)
qed

text \<open>An execution left to the delivery processor holds its slot, and its context is sound.\<close>

definition task_ok :: "nat \<Rightarrow> vdp_wasm_task \<Rightarrow> bool" where
  "task_ok L t \<longleftrightarrow> vt_store t \<and> ctx_inv L (vt_ctx t) \<and> small (modified_body (vt_ctx t))"

lemma deferred_world:
  assumes "xe_al xe 6" "xe_priv_task xe" "guest_inv L (rs_host (ex_rs x))" "same_engine e1 (ex_engine e1 x)" "timers_ok (ex_engine e1 x)"
    and "pools_ok L e" "exec_acquire e idx = (e1, pooled)" "vrt_small v"
    and r_def: "r = exec_defer xe e1 v name g pre idx pooled a x"
  shows "world_ok L (er_engine r) (er_stores r) (er_vrt r) \<and> \<not> er_fault r \<and>
    (case er_task r of None \<Rightarrow> pool_flags (er_engine r) = pool_flags e
     | Some t \<Rightarrow> held L e (vt_pool_idx t) (vt_pooled t) (er_engine r) \<and> task_ok L t)"
proof -
  have inv: "ctx_inv L (ex_ctx x)" using assms(3) by (simp add: guest_inv_def host_inv_def)
  have pools: "eng_pools (ex_engine e1 x) = eng_pools e1" using assms(4) by (simp add: same_engine_def)
  have "pools_ok L e1" using exec_acquire_ok(1) [OF assms(6,7)] .
  then have "world_ok L (er_engine r) (er_stores r) (er_vrt r)"
    using assms(1,2,5) pools close_stores_ok [OF inv] ex_vrt_small [OF inv assms(8)]
    by (simp add: r_def exec_defer_def Let_def world_ok_def pools_ok_def)
  moreover have "held L e idx pooled (er_engine r)"
    by (rule held_pools [OF acquire_held [OF assms(6,7)]]) (use assms(1,2) pools in \<open>simp add: r_def exec_defer_def Let_def\<close>)
  moreover have "er_task r = Some \<lparr>vt_store = True, vt_pre = pre, vt_ctx = ex_ctx x, vt_globals = rs_globals (ex_rs x),
      vt_body_fn = Some (phase_body_fn VWASM_PHASE_RESPONSE), vt_pooled = pooled, vt_pool_idx = idx\<rparr>"
    "er_fault r = mem_fault (ex_ctx x)"
    using assms(1,2) by (simp_all add: r_def exec_defer_def Let_def)
  moreover have "small (modified_body (ex_ctx x))" using assms(3) by (simp add: guest_inv_def body_small_def)
  ultimately show ?thesis using inv by (simp add: ctx_inv_def mem_inv_def task_ok_def)
qed

text \<open>A whole execution keeps the world; unless its body is left to the delivery processor, its slot is free
  again at the end.\<close>

lemma execute_world:
  assumes gb: "guest_bound L wt" and L: "L < 2 ^ 32 - 1" and cache: "xe_cache xe VWASM_MAX_BODY_CACHE \<le> int VWASM_MAX_BODY_CACHE"
    and priv: "xe_priv_task xe" and cfg: "small vm_cfg" "small plugin_cfg" and world: "world_ok L e g v"
    and r: "r = proxy_wasm_execute wt xe e g v module_name phase vm_cfg plugin_cfg status"
  shows "world_ok L (er_engine r) (er_stores r) (er_vrt r) \<and> \<not> er_fault r \<and>
    (case er_task r of None \<Rightarrow> pool_flags (er_engine r) = pool_flags e
     | Some t \<Rightarrow> held L e (vt_pool_idx t) (vt_pooled t) (er_engine r) \<and> task_ok L t)"
proof -
  have w: "timers_ok e" "pools_ok L e" "stores_ok g" "vrt_small v" using world by (simp_all add: world_ok_def)
  from r show ?thesis
  proof (cases rule: execute_cases)
    case (not_run e1 g1 st)
    have "timers_ok e1 \<and> pools_ok L e1 \<and> stores_ok g1 \<and> pool_flags e1 = pool_flags e"
      using not_run(2) w context_ok(1) [OF w(3,4) cfg] acquire_fields(3) exec_acquire_ok(1,2) [OF w(2)] by blast
    then show ?thesis using not_run(1) w(4) by (simp add: world_ok_def exec_nothing_def)
  next
    case (no_store name idx e1 pooled g1 ctx log)
    note c = context_ok [OF w(3,4) cfg no_store(4)]
    have "guest_inv L (rs_host (ex_rs (exec_start e1 ctx [] log)))"
      using c(2,3) L acquire_fields(3) [OF no_store(3)] w(1)
      by (simp add: guest_inv_def host_inv_def body_small_def small_def buf_len_def exec_start_def set_deadline_def)
    from cleanup_world [OF this _ _ w(2) no_store(3) w(4)] show ?thesis
      unfolding no_store(6) using acquire_fields(3) [OF no_store(3)] w(1) by (simp add: same_engine_def)
  next
    case (ran name idx e1 pooled g1 ctx log mem globs pre x out)
    note c = context_ok [OF w(3,4) cfg ran(4)]
    have t1: "timers_ok e1" using acquire_fields(3) [OF ran(3)] w(1) by simp
    have mem: "length mem \<le> L" by (rule exec_store_ok [OF gb w(2) ran(3,6)])
    note inv = ran_inv [OF gb L cache c(2,3) mem t1 ran(7)]
    note same = ran_engine [OF gb cache ran(7)]
    note clean = cleanup_world [OF inv(1) same inv(2) w(2) ran(3) w(4)]
    show ?thesis
    proof (cases out)
      case (Finished rv st)
      then show ?thesis using clean by (simp add: ran(8))
    next
      case (Deferred a)
      have er: "r = exec_defer xe e1 v (cstr name) g1 pre idx pooled a x" using Deferred ran(8) by simp
      show ?thesis
      proof (cases "xe_al xe 6")
        case True
        then show ?thesis using deferred_world [OF True priv inv(1) same inv(2) w(2) ran(3) w(4) er] by blast
      next
        case False
        then show ?thesis using clean by (simp add: er exec_defer_def)
      qed
    qed
  qed
qed

lemma request_no_task:
  assumes "r = proxy_wasm_execute wt xe e g v module_name VWASM_PHASE_REQUEST vm_cfg plugin_cfg status" "xe_priv_task xe"
  shows "er_task r = None"
  using assms(1)
proof (cases rule: execute_cases)
  case (ran name idx e1 pooled g1 ctx log mem globs pre x out)
  then show ?thesis using callbacks_request [OF refl ran(7)] by auto
qed simp_all

section \<open>Chains\<close>

lemma exec_then_simps [simp]:
  "er_engine (exec_then r s) = er_engine s" "er_stores (exec_then r s) = er_stores s" "er_vrt (exec_then r s) = er_vrt s"
  "er_rv (exec_then r s) = er_rv s" "er_status (exec_then r s) = er_status s"
  "er_fault (exec_then r s) \<longleftrightarrow> er_fault r \<or> er_fault s" "er_events (exec_then r s) = er_events r @ er_events s"
  "er_ends (exec_then r s) = er_ends r @ er_ends s"
  "er_task (exec_then r s) = (case er_task s of None \<Rightarrow> er_task r | Some t \<Rightarrow> Some t)"
  by (simp_all add: exec_then_def)

definition runs_ok :: "nat \<Rightarrow> (nat \<Rightarrow> wasmtime \<times> exec_env) \<Rightarrow> bool" where
  "runs_ok L xes \<longleftrightarrow> (\<forall>k. guest_bound L (fst (xes k)) \<and> xe_priv_task (snd (xes k)) \<and>
     xe_cache (snd (xes k)) VWASM_MAX_BODY_CACHE \<le> int VWASM_MAX_BODY_CACHE)"

definition result_ok :: "nat \<Rightarrow> exec_result \<Rightarrow> bool" where
  "result_ok L r \<longleftrightarrow> world_ok L (er_engine r) (er_stores r) (er_vrt r) \<and> \<not> er_fault r"

lemma chain_step:
  assumes "runs_ok L xes" "L < 2 ^ 32 - 1" "result_ok L r"
    and s: "s = exec_then r (proxy_wasm_execute (fst (xes k)) (snd (xes k)) (er_engine r) (er_stores r) (er_vrt r) m phase None None st)"
  shows "result_ok L s" "phase = VWASM_PHASE_REQUEST \<Longrightarrow> pool_flags (er_engine s) = pool_flags (er_engine r)"
proof -
  have k: "guest_bound L (fst (xes k))" "xe_priv_task (snd (xes k))"
    "xe_cache (snd (xes k)) VWASM_MAX_BODY_CACHE \<le> int VWASM_MAX_BODY_CACHE" using assms(1) by (simp_all add: runs_ok_def)
  obtain t where t: "t = proxy_wasm_execute (fst (xes k)) (snd (xes k)) (er_engine r) (er_stores r) (er_vrt r) m phase None None st"
    by simp
  have none: "small None" by (simp add: small_def buf_len_def)
  note w = execute_world [OF k(1) assms(2) k(3,2) none none _ t]
  show "result_ok L s" using w assms(3) by (simp add: result_ok_def s t [symmetric])
  show "pool_flags (er_engine s) = pool_flags (er_engine r)" if "phase = VWASM_PHASE_REQUEST"
    using w assms(3) request_no_task [OF t [unfolded that] k(2)] by (simp add: result_ok_def s t [symmetric])
qed

lemma chain_ok:
  assumes "runs_ok L xes" "L < 2 ^ 32 - 1" "result_ok L r"
  shows "result_ok L (chain_loop xes k phase ms r) \<and>
    (phase = VWASM_PHASE_REQUEST \<longrightarrow> pool_flags (er_engine (chain_loop xes k phase ms r)) = pool_flags (er_engine r))"
  using assms(3)
proof (induction ms arbitrary: k r)
  case Nil
  then show ?case by (simp add: result_ok_def)
next
  case (Cons m ms)
  obtain s where s: "s = exec_then r (proxy_wasm_execute (fst (xes k)) (snd (xes k)) (er_engine r) (er_stores r) (er_vrt r) m phase
      None None (er_status r))" by simp
  note st = chain_step [OF assms(1,2) Cons.prems s]
  have "chain_loop xes k phase (m # ms) r = (if er_rv s \<noteq> 0 then s else chain_loop xes (k + 1) phase ms s)"
    unfolding s by (simp only: chain_loop.simps Let_def)
  then show ?case using st Cons.IH [OF st(1), of "k + 1"] by auto
qed

section \<open>Properties\<close>

lemma plain_world: "world_ok 65536 two_modules no_stores plain_vrt"
  by (simp add: world_ok_def timers_ok_def pools_ok_def stores_ok_def vrt_small_def two_modules_def vwasm_engine_new_def
    no_stores_def plain_vrt_def http_small_def list_all_length small_def buf_len_def MAX_MODULES_def)





end
