(* ===== verification/Vdp.thy ===== *)
theory Vdp
  imports Exec_Safety
begin

text \<open>
  The delivery processors of \<^verbatim>\<open>src/vdp_wasm.c\<close>: what happens to an execution that was left behind for the
  response body. Each chunk Varnish delivers is shown to the module and passed on, possibly rewritten; at the end
  the life cycle is completed and the store given back. The second processor does the same with a chain of tasks.

  Varnish's next processor is the parameter \<open>down\<close>, the value \<open>VDP_bytes\<close> returns; what it is called with is
  recorded in \<open>dl_out\<close>. A chunk is a pointer, the bytes from there on, and a length.
\<close>

section \<open>State\<close>

datatype vdp_action = VDP_NULL | VDP_FLUSH | VDP_END

type_synonym chunk = "vdp_action \<times> bytes option \<times> int"

record delivery =
  dl_engine :: vwasm_engine
  dl_stores :: global_stores
  dl_log :: "(vsl_tag \<times> bytes) list"
  dl_out :: "chunk list"
  dl_events :: "exec_event list"
  dl_ends :: "store_end list"

text \<open>The context of a task points to the global stores; a call into the guest works on what they hold by then,
  and leaves them changed.\<close>

definition attach :: "delivery \<Rightarrow> vdp_wasm_task \<Rightarrow> exec" where
  "attach d task =
     \<lparr>ex_rs = \<lparr>rs_host = \<lparr>hs_ctx = (vt_ctx task)\<lparr>shared_data_p := global_shared_data (dl_stores d),
                             queue_store_p := global_queue_store (dl_stores d),
                             metric_store_p := global_metric_store (dl_stores d)\<rparr>,
                         hs_engine = Some (dl_engine d), hs_log = dl_log d\<rparr>,
              rs_globals = vt_globals task\<rparr>,
      ex_events = dl_events d\<rparr>"

definition detach :: "exec \<Rightarrow> delivery \<Rightarrow> vdp_wasm_task \<Rightarrow> delivery \<times> vdp_wasm_task" where
  "detach x d task =
     (d\<lparr>dl_engine := ex_engine (dl_engine d) x, dl_stores := close_stores (ex_ctx x) (dl_stores d),
        dl_log := hs_log (rs_host (ex_rs x)), dl_events := ex_events x\<rparr>,
      task\<lparr>vt_ctx := ex_ctx x, vt_globals := rs_globals (ex_rs x)\<rparr>)"

text \<open>A context of Varnish with nothing but the log.\<close>

definition tmp_ctx :: vrt_ctx where
  "tmp_ctx = \<lparr>http_req = None, http_bereq = None, http_resp = None, http_beresp = None\<rparr>"

definition vwasm_engine_reset_epoch_deadline :: "vwasm_engine \<Rightarrow> exec \<Rightarrow> exec" where
  "vwasm_engine_reset_epoch_deadline e x = set_deadline (epoch_deadline_ms e) x"

section \<open>One module\<close>

text \<open>Giving the store of a task back.\<close>

definition task_release :: "delivery \<Rightarrow> vdp_wasm_task \<Rightarrow> delivery" where
  "task_release d task =
     (case exec_end_store (vt_pool_idx task) (vt_pooled task) (memory (vt_ctx task)) (vt_globals task) (dl_engine d) of
        (e, en) \<Rightarrow> d\<lparr>dl_engine := e, dl_ends := dl_ends d @ [en]\<rparr>)"

definition vdp_wasm_task_fini :: "delivery \<Rightarrow> vdp_wasm_task option \<Rightarrow> delivery" where
  "vdp_wasm_task_fini d p =
     (case p of
        None \<Rightarrow> d
      | Some task \<Rightarrow>
          if vt_store task
          then task_release d (task\<lparr>vt_ctx := vwasm_proxy_ctx_cleanup False False (vt_ctx task)\<rparr>)
          else d)"

text \<open>The return value and the task: \<open>task_priv\<close> may be NULL, or hold NULL.\<close>

definition vdp_wasm_init :: "vdp_wasm_task option option \<Rightarrow> int \<times> vdp_wasm_task option" where
  "vdp_wasm_init task_priv =
     (case task_priv of
        None \<Rightarrow> (1, None)
      | Some None \<Rightarrow> (1, None)
      | Some (Some task) \<Rightarrow> (0, Some task))"

definition vdp_bytes :: "(vdp_action \<Rightarrow> bytes option \<Rightarrow> int \<Rightarrow> int) \<Rightarrow> vdp_action \<Rightarrow> bytes option \<Rightarrow> int \<Rightarrow> delivery \<Rightarrow> delivery \<times> int" where
  "vdp_bytes down act ptr len d = (d\<lparr>dl_out := dl_out d @ [(act, ptr, len)]\<rparr>, down act ptr len)"

text \<open>What a host function sees of a chunk.\<close>

definition visible_chunk :: "bytes option \<Rightarrow> int \<Rightarrow> bytes option" where
  "visible_chunk ptr len = (case ptr of Some p \<Rightarrow> if len > 0 then Some (take (nat len) p) else None | None \<Rightarrow> None)"

definition chunk_callback :: "wasmtime \<Rightarrow> vdp_action \<Rightarrow> bytes option \<Rightarrow> int \<Rightarrow> delivery \<Rightarrow> vdp_wasm_task \<Rightarrow> delivery \<times> vdp_wasm_task" where
  "chunk_callback wt act ptr len d task =
     (let x = attach d task;
          ctx = (ex_ctx x)\<lparr>vrt := Some tmp_ctx, modified_body := None, body_modified := False,
                  response_body := visible_chunk ptr len\<rparr>;
          args = [stream_context_id ctx, of_int (if len > 0 then len else 0), if act = VDP_END then 1 else 0];
          x = vwasm_engine_reset_epoch_deadline (dl_engine d) (ex_set_ctx ctx x);
          x = (case vt_body_fn task of None \<Rightarrow> x | Some f \<Rightarrow> fst (ex_call wt (vt_pre task) f args x));
          x = ex_set_ctx ((ex_ctx x)\<lparr>response_body := None, vrt := None\<rparr>) x
      in detach x d task)"

definition vdp_wasm_bytes ::
  "wasmtime \<Rightarrow> (vdp_action \<Rightarrow> bytes option \<Rightarrow> int \<Rightarrow> int) \<Rightarrow> chunk \<Rightarrow> delivery \<Rightarrow> vdp_wasm_task
   \<Rightarrow> (delivery \<times> vdp_wasm_task) \<times> int" where
  "vdp_wasm_bytes wt down c d task =
     (case c of (act, ptr, len) \<Rightarrow>
        (let end_of_stream = (act = VDP_END);
             (d, task) = (if visible_chunk ptr len \<noteq> None \<or> end_of_stream then chunk_callback wt act ptr len d task else (d, task))
         in if body_modified (vt_ctx task) then
              (let out_ptr = modified_body (vt_ctx task);
                   (d, rv) = vdp_bytes down act out_ptr (int (buf_len out_ptr)) d
               in ((d, task\<lparr>vt_ctx := (vt_ctx task)\<lparr>modified_body := None, body_modified := False\<rparr>\<rparr>), rv))
            else
              (case vdp_bytes down act ptr len d of (d, rv) \<Rightarrow> ((d, task), rv))))"

text \<open>The end: the remaining callbacks, the statistics, the log of a slow execution and the store. \<open>elapsed\<close> is
  the time since the execution began, \<open>vsl\<close> whether the processor has a log.\<close>

definition vdp_wasm_fini :: "wasmtime \<Rightarrow> int \<Rightarrow> bool \<Rightarrow> delivery \<Rightarrow> vdp_wasm_task option \<Rightarrow> delivery \<times> vdp_wasm_task option" where
  "vdp_wasm_fini wt elapsed vsl d priv =
     (case priv of
        None \<Rightarrow> (d, None)
      | Some task \<Rightarrow>
          (let x = attach d task;
               x = ex_set_ctx ((ex_ctx x)\<lparr>vrt := Some tmp_ctx\<rparr>) x;
               x = vwasm_engine_reset_epoch_deadline (dl_engine d) x;
               x = exec_tail wt (vt_pre task) x;
               x = ex_set_ctx ((ex_ctx x)\<lparr>vrt := None\<rparr>) x;
               (d, task) = detach x d task;
               e = dl_engine d;
               s = eng_stats e;
               s = s\<lparr>calls_ok_cnt := calls_ok_cnt s + 1\<rparr>;
               s = (if elapsed > 10 then s\<lparr>calls_timeout := calls_timeout s + 1\<rparr> else s);
               d = d\<lparr>dl_engine := e\<lparr>eng_stats := s\<rparr>,
                     dl_log := dl_log d @
                       (if elapsed > 10 \<and> vsl
                        then [(SLT_VCL_Log, ''vmod-wasm: '' @ (case mod_name (vt_ctx task) of None \<Rightarrow> ''(null)'' | Some n \<Rightarrow> n) @ '' VDP execution took '' @
                                            dec (nat elapsed) @ ''ms'')]
                        else [])\<rparr>;
               d = task_release d (task\<lparr>vt_ctx := vwasm_proxy_ctx_cleanup False False (vt_ctx task)\<rparr>)
           in (d, Some (task\<lparr>vt_ctx := vwasm_proxy_ctx_cleanup False False (vt_ctx task), vt_store := False\<rparr>))))"

section \<open>A chain of modules\<close>

definition VDP_WASM_CHAIN_MAX :: nat where
  "VDP_WASM_CHAIN_MAX = 16"

record vdp_wasm_chain_task =
  ct_tasks :: "vdp_wasm_task list"

definition vdp_wasm_chain_task_free :: "delivery \<Rightarrow> vdp_wasm_chain_task option \<Rightarrow> delivery" where
  "vdp_wasm_chain_task_free d priv =
     (case priv of
        None \<Rightarrow> d
      | Some ct \<Rightarrow> fold (\<lambda>task d. if vt_store task then task_release d task else d) (ct_tasks ct) d)"

definition vdp_wasm_chain_init :: "vdp_wasm_chain_task option option \<Rightarrow> int \<times> vdp_wasm_chain_task option" where
  "vdp_wasm_chain_init task_priv =
     (case task_priv of
        None \<Rightarrow> (-1, None)
      | Some None \<Rightarrow> (-1, None)
      | Some (Some ct) \<Rightarrow> (0, Some ct))"

text \<open>One task of the chain: the chunk it is given and the one it hands on. The pointer \<open>trap\<close> is declared
  outside the loop, and a call that does not trap leaves it alone: \<open>stale\<close> is that it points to a trap already
  deleted, and \<open>bad\<close> that one was deleted twice.\<close>

definition chain_step ::
  "wasmtime \<Rightarrow> vdp_action \<Rightarrow> vdp_wasm_task \<Rightarrow> delivery \<times> bytes option \<times> int \<times> bool \<times> bool
   \<Rightarrow> vdp_wasm_task \<times> delivery \<times> bytes option \<times> int \<times> bool \<times> bool" where
  "chain_step wt act task st =
     (case st of (d, current_data, current_len, stale, bad) \<Rightarrow>
        (case vt_body_fn task of
           None \<Rightarrow> (task, st)
         | Some f \<Rightarrow>
             if \<not> vt_store task then (task, st)
             else
               (let x = attach d task;
                    ctx = (ex_ctx x)\<lparr>response_body := map_option (take (nat current_len)) current_data\<rparr>
                in if \<not> is_func wt (vt_pre task) f then (task\<lparr>vt_ctx := (vt_ctx task)\<lparr>response_body := None\<rparr>\<rparr>, st)
                   else
                     (let args = [stream_context_id ctx, of_int current_len, if act = VDP_END then 1 else 0];
                          x = ex_set_ctx ctx x;
                          trapped = (snd (wt_call wt (vt_pre task) f args (ex_rs x)) = Call_Trap);
                          x = fst (ex_call wt (vt_pre task) f args x);
                          ctx = ex_ctx x;
                          (current_data, current_len) =
                            (if body_modified ctx then (modified_body ctx, int (buf_len (modified_body ctx)))
                             else (current_data, current_len));
                          x = ex_set_ctx (ctx\<lparr>body_modified := False, response_body := None\<rparr>) x;
                          (d, task) = detach x d task
                      in (task, d, current_data, current_len, stale \<or> trapped, bad \<or> stale \<and> \<not> trapped)))))"

fun chain_tasks ::
  "wasmtime \<Rightarrow> vdp_action \<Rightarrow> vdp_wasm_task list \<Rightarrow> delivery \<times> bytes option \<times> int \<times> bool \<times> bool
   \<Rightarrow> vdp_wasm_task list \<times> delivery \<times> bytes option \<times> int \<times> bool \<times> bool" where
  "chain_tasks wt act [] st = ([], st)"
| "chain_tasks wt act (task # tasks) st =
     (case chain_step wt act task st of
        (task, st) \<Rightarrow> (case chain_tasks wt act tasks st of (tasks, st) \<Rightarrow> (task # tasks, st)))"

text \<open>The chain, the return value, and whether a trap was deleted twice.\<close>

definition vdp_wasm_chain_bytes ::
  "wasmtime \<Rightarrow> (vdp_action \<Rightarrow> bytes option \<Rightarrow> int \<Rightarrow> int) \<Rightarrow> chunk \<Rightarrow> delivery \<Rightarrow> vdp_wasm_chain_task
   \<Rightarrow> (delivery \<times> vdp_wasm_chain_task) \<times> int \<times> bool" where
  "vdp_wasm_chain_bytes wt down c d ct =
     (case c of (act, ptr, len) \<Rightarrow>
        if ptr = None \<or> len \<le> 0 then
          (case vdp_bytes down act ptr len d of (d, rv) \<Rightarrow> ((d, ct), rv, False))
        else
          (case chain_tasks wt act (ct_tasks ct) (d, ptr, len, False, False) of
             (tasks, d, current_data, current_len, _, bad) \<Rightarrow>
               (case vdp_bytes down act current_data current_len d of
                  (d, rv) \<Rightarrow> ((d, ct\<lparr>ct_tasks := tasks\<rparr>), rv, bad))))"

text \<open>The stores stay with the task, which \<^const>\<open>vdp_wasm_chain_task_free\<close> releases.\<close>

definition chain_fini_task :: "wasmtime \<Rightarrow> vdp_wasm_task \<Rightarrow> delivery \<Rightarrow> delivery \<times> vdp_wasm_task" where
  "chain_fini_task wt task d =
     (if vt_store task then detach (exec_tail wt (vt_pre task) (attach d task)) d task else (d, task))"

fun chain_fini_tasks :: "wasmtime \<Rightarrow> vdp_wasm_task list \<Rightarrow> delivery \<Rightarrow> delivery \<times> vdp_wasm_task list" where
  "chain_fini_tasks wt [] d = (d, [])"
| "chain_fini_tasks wt (task # tasks) d =
     (case chain_fini_task wt task d of
        (d, task) \<Rightarrow> (case chain_fini_tasks wt tasks d of (d, tasks) \<Rightarrow> (d, task # tasks)))"

definition vdp_wasm_chain_fini :: "wasmtime \<Rightarrow> delivery \<Rightarrow> vdp_wasm_chain_task option \<Rightarrow> delivery \<times> vdp_wasm_chain_task option" where
  "vdp_wasm_chain_fini wt d priv =
     (case priv of
        None \<Rightarrow> (d, None)
      | Some ct \<Rightarrow> (case chain_fini_tasks wt (ct_tasks ct) d of (d, tasks) \<Rightarrow> (d, Some (ct\<lparr>ct_tasks := tasks\<rparr>))))"

end
