(* ===== verification/Vdp_Properties.thy ===== *)
theory Vdp_Properties
  imports Vdp
begin

text \<open>
  What the delivery processor guarantees: the calls to the next processor follow those to it one by one, whatever
  the module does, and the execution left behind is brought to its end exactly once, whether the processor runs or
  not.
\<close>

section \<open>Delivering a body\<close>

fun deliver :: "wasmtime \<Rightarrow> (vdp_action \<Rightarrow> bytes option \<Rightarrow> int \<Rightarrow> int) \<Rightarrow> chunk list \<Rightarrow> delivery \<times> vdp_wasm_task \<Rightarrow> delivery \<times> vdp_wasm_task"
where
  "deliver wt down [] s = s"
| "deliver wt down (c # cs) s = deliver wt down cs (fst (vdp_wasm_bytes wt down c (fst s) (snd s)))"

text \<open>The whole life of a task: the processor gets the chunks \<open>cs\<close> and is closed, or it never runs; then Varnish
  frees the task.\<close>

definition delivered ::
  "wasmtime \<Rightarrow> (vdp_action \<Rightarrow> bytes option \<Rightarrow> int \<Rightarrow> int) \<Rightarrow> int \<Rightarrow> bool \<Rightarrow> chunk list option \<Rightarrow> delivery \<Rightarrow> vdp_wasm_task \<Rightarrow> delivery" where
  "delivered wt down elapsed vsl body d t =
     (case body of
        None \<Rightarrow> vdp_wasm_task_fini d (Some t)
      | Some cs \<Rightarrow>
          (case deliver wt down cs (d, t) of
             (d, t) \<Rightarrow> (case vdp_wasm_fini wt elapsed vsl d (Some t) of (d, p) \<Rightarrow> vdp_wasm_task_fini d p)))"

section \<open>Lemmas: the invariant of a task\<close>

definition deliv_ok :: "nat \<Rightarrow> vwasm_engine \<Rightarrow> delivery \<Rightarrow> vdp_wasm_task \<Rightarrow> bool" where
  "deliv_ok L e0 d t \<longleftrightarrow> L < 2 ^ 32 - 1 \<and> task_ok L t \<and> held L e0 (vt_pool_idx t) (vt_pooled t) (dl_engine d) \<and>
     timers_ok (dl_engine d) \<and> stores_ok (dl_stores d)"

definition run_ok :: "nat \<Rightarrow> delivery \<Rightarrow> exec \<Rightarrow> bool" where
  "run_ok L d x \<longleftrightarrow> guest_inv L (rs_host (ex_rs x)) \<and> engine_frame (dl_engine d) (rs_host (ex_rs x))"

lemma small_none [simp]: "small None"
  by (simp add: small_def buf_len_def)

lemma attach_ok: "deliv_ok L e0 d t \<Longrightarrow> run_ok L d (attach d t)"
  by (simp add: deliv_ok_def run_ok_def attach_def guest_inv_def host_inv_def body_small_def task_ok_def ctx_inv_defs
    stores_ok_def engine_frame_def same_engine_def)

lemma run_call: "guest_bound L wt \<Longrightarrow> run_ok L d x \<Longrightarrow> run_ok L d (fst (ex_call wt pre f as x))"
  by (simp add: run_ok_def safe.keeps_fst_call frame.keeps_fst_call)

lemma run_tail: "guest_bound L wt \<Longrightarrow> run_ok L d x \<Longrightarrow> run_ok L d (exec_tail wt pre x)"
  by (simp add: run_ok_def safe.keeps_tail frame.keeps_tail)

lemma run_deadline [simp]: "run_ok L d (vwasm_engine_reset_epoch_deadline e x) = run_ok L d x"
  by (simp add: run_ok_def vwasm_engine_reset_epoch_deadline_def set_deadline_def)

lemma ex_set_ctx_simps [simp]: "ex_ctx (ex_set_ctx c x) = c" "ex_events (ex_set_ctx c x) = ex_events x"
  "rs_globals (ex_rs (ex_set_ctx c x)) = rs_globals (ex_rs x)" "hs_engine (rs_host (ex_rs (ex_set_ctx c x))) = hs_engine (rs_host (ex_rs x))"
  by (simp_all add: ex_set_ctx_def)

lemma run_set_ctx:
  assumes "run_ok L d x" "ctx_inv L (ex_ctx x) \<Longrightarrow> ctx_inv L c" "small (modified_body (ex_ctx x)) \<Longrightarrow> small (modified_body c)"
  shows "run_ok L d (ex_set_ctx c x)"
  using assms by (simp add: run_ok_def guest_inv_def host_inv_def body_small_def ex_set_ctx_def)

text \<open>After a call the task is as sound as before, and only the timers of the engine may have changed.\<close>

lemma detach_ok:
  assumes "deliv_ok L e0 d t" "run_ok L d x" "detach x d t = (d', t')"
  shows "deliv_ok L e0 d' t'" "eng_stats (dl_engine d') = eng_stats (dl_engine d)" "dl_out d' = dl_out d" "dl_ends d' = dl_ends d"
    "vt_ctx t' = ex_ctx x" "vt_pooled t' = vt_pooled t"
proof -
  have eq: "d' = d\<lparr>dl_engine := ex_engine (dl_engine d) x, dl_stores := close_stores (ex_ctx x) (dl_stores d),
        dl_log := hs_log (rs_host (ex_rs x)), dl_events := ex_events x\<rparr>"
    "t' = t\<lparr>vt_ctx := ex_ctx x, vt_globals := rs_globals (ex_rs x)\<rparr>" using assms(3) by (simp_all add: detach_def)
  have en: "same_engine (dl_engine d) (ex_engine (dl_engine d) x)" "timers_ok (ex_engine (dl_engine d) x)"
    using assms(2) by (auto simp: run_ok_def engine_frame_def ex_engine_def guest_inv_def host_inv_def)
  have inv: "ctx_inv L (ex_ctx x)" "small (modified_body (ex_ctx x))"
    using assms(2) by (simp_all add: run_ok_def guest_inv_def host_inv_def body_small_def)
  have "held L e0 (vt_pool_idx t) (vt_pooled t) (ex_engine (dl_engine d) x)"
    using held_pools [of L e0 "vt_pool_idx t" "vt_pooled t" "dl_engine d" "ex_engine (dl_engine d) x"] assms(1) en(1)
    by (simp add: deliv_ok_def same_engine_def)
  then show "deliv_ok L e0 d' t'" using assms(1) en(2) inv close_stores_ok [OF inv(1)] by (simp add: eq deliv_ok_def task_ok_def)
  show "eng_stats (dl_engine d') = eng_stats (dl_engine d)" using en(1) by (simp add: eq same_engine_def)
  show "dl_out d' = dl_out d" "dl_ends d' = dl_ends d" "vt_ctx t' = ex_ctx x" "vt_pooled t' = vt_pooled t" by (simp_all add: eq)
qed

lemma callback_ok:
  assumes "guest_bound L wt" "deliv_ok L e0 d t" "small (visible_chunk ptr len)" "chunk_callback wt act ptr len d t = (d', t')"
  shows "deliv_ok L e0 d' t'" "eng_stats (dl_engine d') = eng_stats (dl_engine d)" "dl_ends d' = dl_ends d" "vt_pooled t' = vt_pooled t"
proof -
  let ?c = "(ex_ctx (attach d t))\<lparr>vrt := Some tmp_ctx, modified_body := None, body_modified := False,
      response_body := visible_chunk ptr len\<rparr>"
  let ?x = "vwasm_engine_reset_epoch_deadline (dl_engine d) (ex_set_ctx ?c (attach d t))"
  let ?as = "[stream_context_id ?c, of_int (if len > 0 then len else 0), if act = VDP_END then 1 else 0]"
  define y where "y = (case vt_body_fn t of None \<Rightarrow> ?x | Some f \<Rightarrow> fst (ex_call wt (vt_pre t) f ?as ?x))"
  have "run_ok L d ?x"
    using run_set_ctx [OF attach_ok [OF assms(2)], of ?c] assms(3) by (simp add: ctx_inv_defs tmp_ctx_def)
  then have "run_ok L d y" using run_call [OF assms(1)] by (simp add: y_def split: option.split)
  then have z: "run_ok L d (ex_set_ctx ((ex_ctx y)\<lparr>response_body := None, vrt := None\<rparr>) y)"
    by (rule run_set_ctx) (simp_all add: ctx_inv_defs)
  have "detach (ex_set_ctx ((ex_ctx y)\<lparr>response_body := None, vrt := None\<rparr>) y) d t = (d', t')"
    using assms(4) by (simp add: chunk_callback_def Let_def y_def)
  note this = detach_ok [OF assms(2) z this]
  then show "deliv_ok L e0 d' t'" "eng_stats (dl_engine d') = eng_stats (dl_engine d)" "dl_ends d' = dl_ends d" "vt_pooled t' = vt_pooled t"
    by simp_all
qed

text \<open>One chunk: exactly one call to the next processor.\<close>

lemma callback_out: "chunk_callback wt act ptr len d t = (d', t') \<Longrightarrow> dl_out d' = dl_out d"
  by (auto simp: chunk_callback_def detach_def Let_def)

lemma bytes_cases:
  obtains d1 t1 where "(d1, t1) = (if visible_chunk ptr len \<noteq> None \<or> act = VDP_END then chunk_callback wt act ptr len d t else (d, t))"
    "dl_out d1 = dl_out d"
    "fst (vdp_wasm_bytes wt down (act, ptr, len) d t) =
      (if body_modified (vt_ctx t1)
       then (d1\<lparr>dl_out := dl_out d @ [(act, modified_body (vt_ctx t1), int (buf_len (modified_body (vt_ctx t1))))]\<rparr>,
             t1\<lparr>vt_ctx := (vt_ctx t1)\<lparr>modified_body := None, body_modified := False\<rparr>\<rparr>)
       else (d1\<lparr>dl_out := dl_out d @ [(act, ptr, len)]\<rparr>, t1))"
proof -
  obtain d1 t1 where 1: "(d1, t1) = (if visible_chunk ptr len \<noteq> None \<or> act = VDP_END then chunk_callback wt act ptr len d t else (d, t))"
    by (metis prod.collapse)
  have out: "dl_out d1 = dl_out d" using 1 callback_out [of wt act ptr len d t d1 t1] by (auto split: if_splits)
  show ?thesis
    by (rule that [OF 1 out], unfold vdp_wasm_bytes_def prod.case Let_def 1 [symmetric]) (simp add: vdp_bytes_def out)
qed

lemma body_ctx_inv: "ctx_inv L (c\<lparr>modified_body := b, body_modified := f\<rparr>) = ctx_inv L c"
  by (simp add: ctx_inv_defs)

lemma bytes_ok:
  assumes "guest_bound L wt" "deliv_ok L e0 d t" "small (visible_chunk ptr len)"
    and "fst (vdp_wasm_bytes wt down (act, ptr, len) d t) = (d', t')"
  shows "deliv_ok L e0 d' t' \<and> eng_stats (dl_engine d') = eng_stats (dl_engine d) \<and> dl_ends d' = dl_ends d \<and> vt_pooled t' = vt_pooled t"
proof (rule bytes_cases [of ptr len act wt d t down])
  fix d1 t1
  assume 1: "(d1, t1) = (if visible_chunk ptr len \<noteq> None \<or> act = VDP_END then chunk_callback wt act ptr len d t else (d, t))"
    and r: "fst (vdp_wasm_bytes wt down (act, ptr, len) d t) =
      (if body_modified (vt_ctx t1)
       then (d1\<lparr>dl_out := dl_out d @ [(act, modified_body (vt_ctx t1), int (buf_len (modified_body (vt_ctx t1))))]\<rparr>,
             t1\<lparr>vt_ctx := (vt_ctx t1)\<lparr>modified_body := None, body_modified := False\<rparr>\<rparr>)
       else (d1\<lparr>dl_out := dl_out d @ [(act, ptr, len)]\<rparr>, t1))"
  have "deliv_ok L e0 d1 t1 \<and> eng_stats (dl_engine d1) = eng_stats (dl_engine d) \<and> dl_ends d1 = dl_ends d \<and> vt_pooled t1 = vt_pooled t"
    using 1 callback_ok [OF assms(1-3), of act d1 t1] assms(2) by (simp split: if_splits)
  then show ?thesis using r assms(4) body_ctx_inv
    by (cases "body_modified (vt_ctx t1)") (auto simp: deliv_ok_def task_ok_def)
qed

definition chunk_small :: "chunk \<Rightarrow> bool" where
  "chunk_small c = (case c of (_, ptr, len) \<Rightarrow> small (visible_chunk ptr len))"

lemma deliver_ok:
  assumes "guest_bound L wt" "deliv_ok L e0 d t" "list_all chunk_small cs" "deliver wt down cs (d, t) = (d', t')"
  shows "deliv_ok L e0 d' t' \<and> eng_stats (dl_engine d') = eng_stats (dl_engine d) \<and> dl_ends d' = dl_ends d \<and> vt_pooled t' = vt_pooled t"
  using assms(2-4)
proof (induction cs arbitrary: d t)
  case (Cons c cs)
  obtain act ptr len where c: "c = (act, ptr, len)" using prod_cases3 by blast
  obtain d1 t1 where 1: "fst (vdp_wasm_bytes wt down (act, ptr, len) d t) = (d1, t1)" by fastforce
  note b = bytes_ok [OF assms(1) Cons.prems(1) _ 1]
  show ?case using Cons.IH [of d1 t1] b Cons.prems 1 c by (simp add: chunk_small_def)
qed simp

section \<open>Lemmas: the end of a task\<close>

lemma release_task_ok:
  assumes "deliv_ok L e0 d t"
  shows "pools_ok L (dl_engine (task_release d t)) \<and> pool_flags (dl_engine (task_release d t)) = pool_flags e0 \<and>
    timers_ok (dl_engine (task_release d t)) \<and> eng_stats (dl_engine (task_release d t)) = eng_stats (dl_engine d) \<and>
    dl_ends (task_release d t) = dl_ends d @ [end_of (vt_pooled t)] \<and> dl_stores (task_release d t) = dl_stores d"
proof -
  have "length (memory (vt_ctx t)) \<le> L" "held L e0 (vt_pool_idx t) (vt_pooled t) (dl_engine d)" "timers_ok (dl_engine d)"
    using assms by (simp_all add: deliv_ok_def task_ok_def ctx_inv_def mem_inv_def)
  then show ?thesis
    using end_store_ok [of L e0 "vt_pool_idx t" "vt_pooled t" "dl_engine d" "memory (vt_ctx t)" "vt_globals t"]
    by (simp add: task_release_def split_beta end_store_fields snd_end_store)
qed

lemma cleanup_ctx_inv: "ctx_inv L ctx \<Longrightarrow> ctx_inv L (vwasm_proxy_ctx_cleanup a b ctx)"
  "small (modified_body ctx) \<Longrightarrow> small (modified_body (vwasm_proxy_ctx_cleanup a b ctx))"
  by (auto simp: vwasm_proxy_ctx_cleanup_def vwasm_trailer_map_cleanup_def Let_def ctx_inv_defs trailers_ok_def)

lemma cleanup_task_ok: "deliv_ok L e0 d t \<Longrightarrow> deliv_ok L e0 d (t\<lparr>vt_ctx := vwasm_proxy_ctx_cleanup a b (vt_ctx t)\<rparr>)"
  by (simp add: deliv_ok_def task_ok_def cleanup_ctx_inv)

text \<open>What is left when a task has ended.\<close>

definition ended :: "nat \<Rightarrow> vwasm_engine \<Rightarrow> delivery \<Rightarrow> vdp_wasm_task \<Rightarrow> delivery \<Rightarrow> bool" where
  "ended L e0 d t d' \<longleftrightarrow> pools_ok L (dl_engine d') \<and> timers_ok (dl_engine d') \<and> stores_ok (dl_stores d') \<and>
     pool_flags (dl_engine d') = pool_flags e0 \<and> dl_ends d' = dl_ends d @ [end_of (vt_pooled t)]"

lemma task_fini_ok:
  assumes "deliv_ok L e0 d t"
  shows "ended L e0 d t (vdp_wasm_task_fini d (Some t))"
    "eng_stats (dl_engine (vdp_wasm_task_fini d (Some t))) = eng_stats (dl_engine d)"
proof -
  have "vt_store t" "stores_ok (dl_stores d)" using assms by (simp_all add: deliv_ok_def task_ok_def)
  then show "ended L e0 d t (vdp_wasm_task_fini d (Some t))"
    "eng_stats (dl_engine (vdp_wasm_task_fini d (Some t))) = eng_stats (dl_engine d)"
    using release_task_ok [OF cleanup_task_ok [OF assms], of False False]
    by (simp_all add: vdp_wasm_task_fini_def ended_def)
qed

lemma fini_ok:
  assumes "guest_bound L wt" "deliv_ok L e0 d t" "vdp_wasm_fini wt elapsed vsl d (Some t) = (d', p)"
  shows "ended L e0 d t d'" "calls_ok_cnt (eng_stats (dl_engine d')) = calls_ok_cnt (eng_stats (dl_engine d)) + 1"
    "\<exists>t'. p = Some t' \<and> \<not> vt_store t'"
proof -
  let ?x = "vwasm_engine_reset_epoch_deadline (dl_engine d) (ex_set_ctx ((ex_ctx (attach d t))\<lparr>vrt := Some tmp_ctx\<rparr>) (attach d t))"
  define y where "y = exec_tail wt (vt_pre t) ?x"
  define z where "z = ex_set_ctx ((ex_ctx y)\<lparr>vrt := None\<rparr>) y"
  have "run_ok L d ?x" using run_set_ctx [OF attach_ok [OF assms(2)]] by (simp add: ctx_inv_defs tmp_ctx_def)
  then have "run_ok L d y" unfolding y_def by (rule run_tail [OF assms(1)])
  then have "run_ok L d z" unfolding z_def by (rule run_set_ctx) (simp_all add: ctx_inv_defs)
  moreover obtain d1 t1 where 1: "detach z d t = (d1, t1)" by fastforce
  ultimately have d1: "deliv_ok L e0 d1 t1" "eng_stats (dl_engine d1) = eng_stats (dl_engine d)" "dl_ends d1 = dl_ends d"
    "vt_pooled t1 = vt_pooled t" using detach_ok [OF assms(2)] by blast+
  obtain s l where d': "d' = task_release (d1\<lparr>dl_engine := (dl_engine d1)\<lparr>eng_stats := s\<rparr>, dl_log := l\<rparr>)
        (t1\<lparr>vt_ctx := vwasm_proxy_ctx_cleanup False False (vt_ctx t1)\<rparr>)"
    and p: "p = Some (t1\<lparr>vt_ctx := vwasm_proxy_ctx_cleanup False False (vt_ctx t1), vt_store := False\<rparr>)"
    and s: "calls_ok_cnt s = calls_ok_cnt (eng_stats (dl_engine d1)) + 1"
  proof (rule that)
    show "d' = task_release (d1\<lparr>dl_engine := (dl_engine d1)\<lparr>eng_stats := (if elapsed > 10
        then (eng_stats (dl_engine d1))\<lparr>calls_ok_cnt := calls_ok_cnt (eng_stats (dl_engine d1)) + 1,
          calls_timeout := calls_timeout (eng_stats (dl_engine d1)) + 1\<rparr>
        else (eng_stats (dl_engine d1))\<lparr>calls_ok_cnt := calls_ok_cnt (eng_stats (dl_engine d1)) + 1\<rparr>)\<rparr>,
        dl_log := dl_log d1 @ (if elapsed > 10 \<and> vsl
          then [(SLT_VCL_Log, ''vmod-wasm: '' @ (case mod_name (vt_ctx t1) of None \<Rightarrow> ''(null)'' | Some n \<Rightarrow> n) @
            '' VDP execution took '' @ dec (nat elapsed) @ ''ms'')] else [])\<rparr>)
        (t1\<lparr>vt_ctx := vwasm_proxy_ctx_cleanup False False (vt_ctx t1)\<rparr>)"
      using assms(3) 1 by (simp add: vdp_wasm_fini_def Let_def y_def z_def split: if_splits)
    show "p = Some (t1\<lparr>vt_ctx := vwasm_proxy_ctx_cleanup False False (vt_ctx t1), vt_store := False\<rparr>)"
      using assms(3) 1 by (simp add: vdp_wasm_fini_def Let_def y_def z_def split: if_splits)
  qed simp
  have ok: "deliv_ok L e0 (d1\<lparr>dl_engine := (dl_engine d1)\<lparr>eng_stats := s\<rparr>, dl_log := l\<rparr>) t1"
    using d1(1) held_pools [of L e0 _ _ "dl_engine d1" "(dl_engine d1)\<lparr>eng_stats := s\<rparr>"] by (simp add: deliv_ok_def)
  then have "stores_ok (dl_stores d1)" by (simp add: deliv_ok_def)
  with release_task_ok [OF cleanup_task_ok [OF ok], of False False] d1
  show "ended L e0 d t d'" "calls_ok_cnt (eng_stats (dl_engine d')) = calls_ok_cnt (eng_stats (dl_engine d)) + 1"
    by (simp_all add: d' ended_def s)
  show "\<exists>t'. p = Some t' \<and> \<not> vt_store t'" by (simp add: p)
qed

lemma delivered_ok:
  assumes "guest_bound L wt" "deliv_ok L e0 d t" "pred_option (list_all chunk_small) body" "d' = delivered wt down elapsed vsl body d t"
  shows "ended L e0 d t d' \<and> calls_ok_cnt (eng_stats (dl_engine d')) = calls_ok_cnt (eng_stats (dl_engine d)) + of_bool (body \<noteq> None)"
proof (cases body)
  case None
  then show ?thesis using task_fini_ok [OF assms(2)] by (simp add: assms(4) delivered_def)
next
  case (Some cs)
  obtain d1 t1 where 1: "deliver wt down cs (d, t) = (d1, t1)" by fastforce
  obtain d2 p where 2: "vdp_wasm_fini wt elapsed vsl d1 (Some t1) = (d2, p)" by fastforce
  note b = deliver_ok [OF assms(1,2) _ 1]
  have b: "deliv_ok L e0 d1 t1" "eng_stats (dl_engine d1) = eng_stats (dl_engine d)" "dl_ends d1 = dl_ends d" "vt_pooled t1 = vt_pooled t"
    using b assms(3) Some by simp_all
  note f = fini_ok [OF assms(1) b(1) 2]
  obtain t2 where "p = Some t2" "\<not> vt_store t2" using f(3) by blast
  then have "d' = d2" using Some 1 2 by (simp add: assms(4) delivered_def vdp_wasm_task_fini_def)
  then show ?thesis using f(1,2) b Some by (simp add: ended_def)
qed

section \<open>Properties\<close>

text \<open>How a delivery begins after an execution.\<close>

definition after_execution :: "exec_result \<Rightarrow> delivery" where
  "after_execution r = \<lparr>dl_engine = er_engine r, dl_stores = er_stores r, dl_log = er_log r, dl_out = [],
     dl_events = er_events r, dl_ends = []\<rparr>"

text \<open>C3: an execution left to the delivery processor is completed exactly once. However many chunks of the body
  are delivered, and also when the processor never runs because \<open>resp.filters\<close> does not name it, after the task is
  freed its store has been deleted or returned to its pool once, the pools are marked as before the execution
  began, no invariant of the engine or of the shared stores is broken, and the execution is counted as a
  success if and only if the processor ran.\<close>

theorem delivery_completes:
  assumes "guest_bound L wt" "L < 2 ^ 32 - 1" "xe_cache xe VWASM_MAX_BODY_CACHE \<le> int VWASM_MAX_BODY_CACHE"
    and "xe_priv_task xe" "small vm_cfg" "small plugin_cfg" "world_ok L e g v"
    and "r = proxy_wasm_execute wt xe e g v module_name phase vm_cfg plugin_cfg status" "er_task r = Some t"
    and "pred_option (list_all chunk_small) body" "d = delivered wt down elapsed vsl body (after_execution r) t"
  shows "dl_ends d = [end_of (vt_pooled t)] \<and> pool_flags (dl_engine d) = pool_flags e \<and>
    pools_ok L (dl_engine d) \<and> timers_ok (dl_engine d) \<and> stores_ok (dl_stores d) \<and>
    calls_total (eng_stats (er_engine r)) = calls_total (eng_stats e) + 1 \<and>
    calls_ok_cnt (eng_stats (dl_engine d)) = calls_ok_cnt (eng_stats e) + of_bool (body \<noteq> None)"
proof -
  note w = execute_world [OF assms(1-8)]
  have "deliv_ok L e (after_execution r) t"
    using w assms(2,9) by (simp add: deliv_ok_def after_execution_def world_ok_def)
  note d = delivered_ok [OF assms(1) this assms(10,11)]
  have "er_ends r \<noteq> []" using task_has_store [OF assms(8)] assms(9) by simp
  then show ?thesis using d execute_counted [OF assms(1,3,4,8)] assms(9) by (simp add: ended_def after_execution_def)
qed

theorem delivery_completes_witness:
  "\<exists>t. er_task (proxy_wasm_execute idle_wasmtime plain_xe two_modules no_stores plain_vrt (Some ''pass'')
      VWASM_PHASE_RESPONSE None None 0) = Some t \<and>
    dl_ends (delivered idle_wasmtime (\<lambda>_ _ _. 0) 3 True (Some [(VDP_NULL, Some ''ab'', 2), (VDP_END, None, 0)])
      (after_execution (proxy_wasm_execute idle_wasmtime plain_xe two_modules no_stores plain_vrt (Some ''pass'')
        VWASM_PHASE_RESPONSE None None 0)) t) = [Store_Deleted]"
proof -
  define r where "r = proxy_wasm_execute idle_wasmtime plain_xe two_modules no_stores plain_vrt (Some ''pass'')
     VWASM_PHASE_RESPONSE None None 0"
  have "map_option vt_pooled (er_task r) = Some None" unfolding r_def by code_simp
  then obtain t where t: "er_task r = Some t" "vt_pooled t = None" by auto
  have "pred_option (list_all chunk_small) (Some [(VDP_NULL, Some ''ab'', 2), (VDP_END, None, 0)])"
    by (simp add: chunk_small_def visible_chunk_def small_def buf_len_def)
  from delivery_completes [OF idle_bound _ plain_xe_facts(2,1) small_none small_none plain_world r_def t(1) this refl]
  show ?thesis unfolding r_def [symmetric] using t by (auto simp: end_of_def)
qed


text \<open>A Wasmtime whose modules never write to the body.\<close>

definition leaves_body :: "wasmtime \<Rightarrow> bool" where
  "leaves_body wt \<longleftrightarrow> (\<forall>pre f as rs. \<not> body_modified (hs_ctx (rs_host rs)) \<longrightarrow>
     \<not> body_modified (hs_ctx (rs_host (fst (wt_call wt pre f as rs)))))"

lemma call_leaves_body:
  assumes "leaves_body wt" "\<not> body_modified (ex_ctx x)"
  shows "\<not> body_modified (ex_ctx (fst (ex_call wt pre f as x)))"
proof -
  have "\<not> body_modified (hs_ctx (rs_host (fst (wt_call wt pre f as (ex_rs x)))))" using assms by (auto simp: leaves_body_def)
  then show ?thesis using assms(2)
    by (auto simp: ex_call_def call_wasm_func_def split: option.split prod.split call_outcome.split)
qed

lemma callback_leaves_body:
  assumes "leaves_body wt" "chunk_callback wt act ptr len d t = (d', t')"
  shows "\<not> body_modified (vt_ctx t')"
proof -
  have "\<not> body_modified (ex_ctx (case vt_body_fn t of None \<Rightarrow> x | Some f \<Rightarrow> fst (ex_call wt (vt_pre t) f as x)))"
    if "\<not> body_modified (ex_ctx x)" for x as
    using call_leaves_body [OF assms(1) that] that by (simp split: option.split)
  then show ?thesis
    using assms(2) by (auto simp: chunk_callback_def Let_def detach_def vwasm_engine_reset_epoch_deadline_def set_deadline_def ex_set_ctx_def)
qed

lemma bytes_leaves_body:
  assumes "leaves_body wt" "\<not> body_modified (vt_ctx t)" "fst (vdp_wasm_bytes wt down c d t) = (d', t')"
  shows "\<not> body_modified (vt_ctx t') \<and> dl_out d' = dl_out d @ [c]"
proof -
  obtain act ptr len where c: "c = (act, ptr, len)" using prod_cases3 by blast
  show ?thesis
  proof (rule bytes_cases [of ptr len act wt d t down])
    fix d1 t1
    assume 1: "(d1, t1) = (if visible_chunk ptr len \<noteq> None \<or> act = VDP_END then chunk_callback wt act ptr len d t else (d, t))"
      and r: "fst (vdp_wasm_bytes wt down (act, ptr, len) d t) =
        (if body_modified (vt_ctx t1)
         then (d1\<lparr>dl_out := dl_out d @ [(act, modified_body (vt_ctx t1), int (buf_len (modified_body (vt_ctx t1))))]\<rparr>,
               t1\<lparr>vt_ctx := (vt_ctx t1)\<lparr>modified_body := None, body_modified := False\<rparr>\<rparr>)
         else (d1\<lparr>dl_out := dl_out d @ [(act, ptr, len)]\<rparr>, t1))"
    have "\<not> body_modified (vt_ctx t1)"
      using 1 callback_leaves_body [OF assms(1), of act ptr len d t d1 t1] assms(2) by (simp split: if_splits)
    then show ?thesis using r assms(3) by (auto simp: c)
  qed
qed

text \<open>A module that does not write to the response body lets it pass: every chunk reaches the next processor as
  it was.\<close>

theorem delivery_passes:
  assumes "leaves_body wt" "\<not> body_modified (vt_ctx t)"
  shows "dl_out (fst (deliver wt down cs (d, t))) = dl_out d @ cs"
  using assms(2)
proof (induction cs arbitrary: d t)
  case (Cons c cs)
  obtain d2 t2 where 2: "fst (vdp_wasm_bytes wt down c d t) = (d2, t2)" by fastforce
  show ?case using bytes_leaves_body [OF assms(1) Cons.prems 2] Cons.IH [of t2 d2] 2 by simp
qed simp

theorem delivery_passes_witness:
  "\<exists>t. er_task (proxy_wasm_execute idle_wasmtime plain_xe two_modules no_stores plain_vrt (Some ''pass'')
      VWASM_PHASE_RESPONSE None None 0) = Some t \<and>
    dl_out (fst (deliver idle_wasmtime (\<lambda>_ _ _. 0) [(VDP_NULL, Some ''ab'', 2), (VDP_END, None, 0)]
      (after_execution (exec_nothing two_modules no_stores plain_vrt 0), t))) = [(VDP_NULL, Some ''ab'', 2), (VDP_END, None, 0)]"
proof -
  define r where "r = proxy_wasm_execute idle_wasmtime plain_xe two_modules no_stores plain_vrt (Some ''pass'')
     VWASM_PHASE_RESPONSE None None 0"
  have "map_option (\<lambda>t. body_modified (vt_ctx t)) (er_task r) = Some False" unfolding r_def by code_simp
  then obtain t where t: "er_task r = Some t" "\<not> body_modified (vt_ctx t)" by auto
  have "leaves_body idle_wasmtime" by (simp add: leaves_body_def idle_wasmtime_def)
  note p = delivery_passes [OF this t(2), where d = "after_execution (exec_nothing two_modules no_stores plain_vrt 0)"]
  have "dl_out (after_execution (exec_nothing two_modules no_stores plain_vrt 0)) = []" by (simp add: after_execution_def)
  then show ?thesis unfolding r_def [symmetric] using t(1) p by (metis append_Nil)
qed

end
