(* ===== verification/Host_Functions.thy ===== *)
theory Host_Functions
  imports Lifecycle
begin

text \<open>
  The functions of \<^verbatim>\<open>src/host_functions.c\<close>: the six simple host functions of the namespace \<open>env\<close>, the WASI stubs
  of the namespace \<open>wasi_snapshot_preview1\<close>, their registration, and \<open>vwasm_engine_call\<close>, the call of one exported
  function with these host functions at hand. All of them get a \<open>struct vwasm_host_ctx\<close>, a smaller context than the
  proxy-wasm functions'. Clocks, random numbers, Varnish and Wasmtime are parameters.
\<close>

section \<open>State\<close>

text \<open>\<open>hc_fault\<close> is the ghost of an access outside the guest's memory.\<close>

record vwasm_host_ctx =
  hc_vrt :: "vrt_ctx option"
  hc_wasm_ctx :: bool
  hc_memory :: bytes
  hc_memory_valid :: bool
  hc_fault :: bool

record simple_state =
  ss_ctx :: vwasm_host_ctx
  ss_log :: "(vsl_tag \<times> bytes) list"
  ss_stderr :: bytes

text \<open>The allocator, Varnish, whether there is a log buffer, what \<open>clock_gettime\<close> reports for the two clocks, and
  what the \<open>k\<close>-th call of \<open>getrandom\<close> for \<open>n\<close> bytes delivers.\<close>

record simple_env =
  se_al :: malloc
  se_vn :: varnish
  se_client_ip :: "bytes option"
  se_vsl :: bool
  se_clock :: "nat \<Rightarrow> (u64 \<times> u64) option"
  se_random :: "nat \<Rightarrow> nat \<Rightarrow> bytes option"

text \<open>What a callback leaves: one 32-bit result, none, or a trap.\<close>

datatype simple_result = Result u32 | No_Result | Trapped bytes

type_synonym simple_fun = "simple_env \<Rightarrow> simple_state \<Rightarrow> (nat \<Rightarrow> u32) \<Rightarrow> simple_state \<times> simple_result"

section \<open>Memory\<close>

definition validate_mem_region :: "vwasm_host_ctx \<Rightarrow> u32 \<Rightarrow> u32 \<Rightarrow> bool" where
  "validate_mem_region hctx ptr len =
     (if \<not> hc_memory_valid hctx \<or> sint ptr < 0 \<or> sint len < 0 then False
      else if nat (sint ptr) + nat (sint len) > length (hc_memory hctx) then False
      else True)"

definition mem_ptr :: "vwasm_host_ctx \<Rightarrow> u32 \<Rightarrow> int" where
  "mem_ptr hctx offset = sint offset"

text \<open>\<open>memcpy\<close> into the linear memory, to the distance \<open>p\<close> from its base.\<close>

definition hc_store :: "int \<Rightarrow> bytes \<Rightarrow> vwasm_host_ctx \<Rightarrow> vwasm_host_ctx" where
  "hc_store p bs hctx =
     (if 0 \<le> p \<and> nat p + length bs \<le> length (hc_memory hctx)
      then hctx\<lparr>hc_memory := put (nat p) bs (hc_memory hctx)\<rparr>
      else hctx\<lparr>hc_fault := True\<rparr>)"

definition read_wasm_string :: "malloc \<Rightarrow> nat \<Rightarrow> vwasm_host_ctx \<Rightarrow> u32 \<Rightarrow> u32 \<Rightarrow> bytes option" where
  "read_wasm_string al k hctx ptr len =
     (if \<not> validate_mem_region hctx ptr len then None
      else if \<not> al k then None
      else Some (chunk (nat (mem_ptr hctx ptr)) (nat (sint len)) (hc_memory hctx)))"

text \<open>The length is cut to 32 bits, and a negative number of bytes to copy becomes a huge one.\<close>

definition write_to_wasm_buf :: "vwasm_host_ctx \<Rightarrow> u32 \<Rightarrow> u32 \<Rightarrow> bytes option \<Rightarrow> vwasm_host_ctx \<times> u32" where
  "write_to_wasm_buf hctx buf_ptr blen str =
     (case str of
        None \<Rightarrow> (hctx, -1)
      | Some s \<Rightarrow>
          (let slen = of_nat (length (cstr s)) :: u32 in
           if sint blen > 0 \<and> validate_mem_region hctx buf_ptr blen then
             (let copy_len = (if sint slen < sint blen then slen else blen);
                  n = unat (scast copy_len :: u64)
              in (if n \<le> length (cstr s) then hc_store (mem_ptr hctx buf_ptr) (take n (cstr s)) hctx
                  else hctx\<lparr>hc_fault := True\<rparr>, slen))
           else (hctx, slen)))"

section \<open>The simple host functions\<close>

text \<open>The line of a header: the name, case aside, and a colon; the value is what follows, without the blanks.\<close>

fun find_request_header :: "bytes \<Rightarrow> bytes option list \<Rightarrow> bytes option" where
  "find_request_header hdr_name [] = None"
| "find_request_header hdr_name (None # hds) = find_request_header hdr_name hds"
| "find_request_header hdr_name (Some b # hds) =
     (let nlen = length (cstr hdr_name) in
      if length (cstr b) > nlen \<and> cstr b ! nlen = CHR '':'' \<and> strncaseeq nlen (cstr b) (cstr hdr_name)
      then Some (skip_blanks (drop (nlen + 1) (cstr b)))
      else find_request_header hdr_name hds)"

definition set_hctx :: "simple_state \<Rightarrow> vwasm_host_ctx \<Rightarrow> simple_state" where
  "set_hctx st hctx = st\<lparr>ss_ctx := hctx\<rparr>"

definition host_get_request_header :: simple_fun where
  "host_get_request_header env st args =
     (let hctx = (ss_ctx st)\<lparr>hc_wasm_ctx := True\<rparr>; st = set_hctx st hctx in
      case hc_vrt hctx of
        None \<Rightarrow> (st, Result (-1))
      | Some vctx \<Rightarrow>
          (case http_req vctx of
             None \<Rightarrow> (st, Result (-1))
           | Some hp \<Rightarrow>
               (case read_wasm_string (se_al env) 0 hctx (args 0) (args 1) of
                  None \<Rightarrow> (st, Result (-1))
                | Some hdr_name \<Rightarrow>
                    (case find_request_header hdr_name (hd_lines hp) of
                       None \<Rightarrow> (st, Result (-1))
                     | Some hdr_val \<Rightarrow>
                         (case write_to_wasm_buf hctx (args 2) (args 3) (Some hdr_val) of
                            (hctx, r) \<Rightarrow> (set_hctx st hctx, Result r))))))"

definition host_get_request_url :: simple_fun where
  "host_get_request_url env st args =
     (let hctx = (ss_ctx st)\<lparr>hc_wasm_ctx := True\<rparr>; st = set_hctx st hctx in
      case hc_vrt hctx of
        None \<Rightarrow> (st, Result (-1))
      | Some vctx \<Rightarrow>
          (case http_req vctx of
             None \<Rightarrow> (st, Result (-1))
           | Some hp \<Rightarrow>
               (case hd_url hp of
                  None \<Rightarrow> (st, Result (-1))
                | Some url \<Rightarrow>
                    (case write_to_wasm_buf hctx (args 0) (args 1) (Some url) of
                       (hctx, r) \<Rightarrow> (set_hctx st hctx, Result r)))))"

definition host_get_request_method :: simple_fun where
  "host_get_request_method env st args =
     (let hctx = (ss_ctx st)\<lparr>hc_wasm_ctx := True\<rparr>; st = set_hctx st hctx in
      case hc_vrt hctx of
        None \<Rightarrow> (st, Result (-1))
      | Some vctx \<Rightarrow>
          (case http_req vctx of
             None \<Rightarrow> (st, Result (-1))
           | Some hp \<Rightarrow>
               (case hd_method hp of
                  None \<Rightarrow> (st, Result (-1))
                | Some method \<Rightarrow>
                    (case write_to_wasm_buf hctx (args 0) (args 1) (Some method) of
                       (hctx, r) \<Rightarrow> (set_hctx st hctx, Result r)))))"

definition host_get_client_ip :: simple_fun where
  "host_get_client_ip env st args =
     (let hctx = (ss_ctx st)\<lparr>hc_wasm_ctx := True\<rparr>; st = set_hctx st hctx in
      case hc_vrt hctx of
        None \<Rightarrow> (st, Result (-1))
      | Some vctx \<Rightarrow>
          (case se_client_ip env of
             None \<Rightarrow> (st, Result (-1))
           | Some ip_str \<Rightarrow>
               (case write_to_wasm_buf hctx (args 0) (args 1) (Some ip_str) of
                  (hctx, r) \<Rightarrow> (set_hctx st hctx, Result r))))"

text \<open>Despite its name this appends a line to the headers of the request.\<close>

definition host_set_response_header :: simple_fun where
  "host_set_response_header env st args =
     (let hctx = (ss_ctx st)\<lparr>hc_wasm_ctx := True\<rparr>; st = set_hctx st hctx in
      case hc_vrt hctx of
        None \<Rightarrow> (st, Result (-1))
      | Some vctx \<Rightarrow>
          (case http_req vctx of
             None \<Rightarrow> (st, Result (-1))
           | Some hp \<Rightarrow>
               (case read_wasm_string (se_al env) 0 hctx (args 0) (args 1) of
                  None \<Rightarrow> (st, Result (-1))
                | Some name \<Rightarrow>
                    (case read_wasm_string (se_al env) 1 hctx (args 2) (args 3) of
                       None \<Rightarrow> (st, Result (-1))
                     | Some val \<Rightarrow>
                         if v_ws (se_vn env) 0
                         then (set_hctx st (hctx\<lparr>hc_vrt := Some (vctx\<lparr>http_req :=
                                 Some (v_SetHeader (se_vn env) hp (cstr name @ '': '' @ cstr val))\<rparr>)\<rparr>), Result 0)
                         else (st, Result (-1))))))"

definition host_log_msg :: simple_fun where
  "host_log_msg env st args =
     (let hctx = (ss_ctx st)\<lparr>hc_wasm_ctx := True\<rparr>; st = set_hctx st hctx in
      if hc_vrt hctx = None \<or> \<not> se_vsl env then (st, No_Result)
      else
        (let level = sint (args 0) in
         case read_wasm_string (se_al env) 0 hctx (args 1) (args 2) of
           None \<Rightarrow> (st, No_Result)
         | Some msg \<Rightarrow>
             (st\<lparr>ss_log := ss_log st @
                [(if level = 0 then SLT_Debug else if level = 1 then SLT_VCL_Log else SLT_Error,
                  ''wasm: '' @ cstr msg)]\<rparr>, No_Result)))"

section \<open>WASI\<close>

definition WASI_ERRNO_SUCCESS :: u32 where "WASI_ERRNO_SUCCESS = 0"
definition WASI_ERRNO_BADF :: u32 where "WASI_ERRNO_BADF = 8"
definition WASI_ERRNO_INVAL :: u32 where "WASI_ERRNO_INVAL = 28"
definition WASI_ERRNO_IO :: u32 where "WASI_ERRNO_IO = 29"
definition WASI_CLOCKID_REALTIME :: int where "WASI_CLOCKID_REALTIME = 0"
definition WASI_CLOCKID_MONOTONIC :: int where "WASI_CLOCKID_MONOTONIC = 1"

lemma unat_next_less: "unat n - unat (i + 1) < unat n - unat i" if "i < n" for n i :: u32
  using inc_below(1) [OF that] that by (simp add: word_less_nat_alt)

text \<open>The loop over the vectors: the bytes written, the 32-bit total, and whether a vector was out of bounds. The
  vectors were checked to lie in memory, but not their buffers. A read outside memory would be a fault.\<close>

function fd_write_loop :: "bytes \<Rightarrow> u32 \<Rightarrow> u32 \<Rightarrow> u32 \<Rightarrow> bytes \<Rightarrow> u32 \<Rightarrow> bytes \<times> u32 \<times> bool" where
  "fd_write_loop mem iovs_ptr iovs_len i out tot =
     (if i < iovs_len then
        (let iov_base = iovs_ptr + i * 8;
             buf_offset = get32 (chunk (unat iov_base) 4 mem);
             blen = get32 (chunk (unat iov_base + 4) 4 mem)
         in if blen = 0 then fd_write_loop mem iovs_ptr iovs_len (i + 1) out tot
            else if unat (ucast buf_offset + ucast blen :: u64) > length mem then (out, tot, False)
            else fd_write_loop mem iovs_ptr iovs_len (i + 1) (out @ chunk (unat buf_offset) (unat blen) mem) (tot + blen))
      else (out, tot, True))"
  by pat_completeness auto

termination
  by (relation "measure (\<lambda>(mem, p, n, i, out, tot). unat n - unat i)") (simp_all add: unat_next_less)

text \<open>The test of \<open>nwritten_ptr\<close> is made in 32 bits.\<close>

definition wasi_fd_write :: simple_fun where
  "wasi_fd_write env st args =
     (let hctx = ss_ctx st in
      if \<not> hc_memory_valid hctx then (st, Result WASI_ERRNO_BADF)
      else
        (let msz = length (hc_memory hctx);
             fd = sint (args 0); iovs_ptr = args 1; iovs_len = args 2; nwritten_ptr = args 3
         in if fd \<noteq> 1 \<and> fd \<noteq> 2 then (st, Result WASI_ERRNO_BADF)
            else if nwritten_ptr + 4 > (of_nat msz :: u32) then (st, Result WASI_ERRNO_INVAL)
            else if unat (ucast iovs_ptr + ucast iovs_len * 8 :: u64) > msz then (st, Result WASI_ERRNO_INVAL)
            else
              (case fd_write_loop (hc_memory hctx) iovs_ptr iovs_len 0 (ss_stderr st) 0 of
                 (out, total_written, False) \<Rightarrow> (st\<lparr>ss_stderr := out\<rparr>, Result WASI_ERRNO_INVAL)
               | (out, total_written, True) \<Rightarrow>
                   (set_hctx (st\<lparr>ss_stderr := out\<rparr>) (hc_store (int (unat nwritten_ptr)) (put32 total_written) hctx),
                    Result WASI_ERRNO_SUCCESS))))"

definition wasi_clock_time_get :: simple_fun where
  "wasi_clock_time_get env st args =
     (let hctx = ss_ctx st in
      if \<not> hc_memory_valid hctx then (st, Result WASI_ERRNO_INVAL)
      else
        (let msz = length (hc_memory hctx); clock_id = sint (args 0); time_ptr = args 2 in
         if clock_id \<noteq> WASI_CLOCKID_REALTIME \<and> clock_id \<noteq> WASI_CLOCKID_MONOTONIC then (st, Result WASI_ERRNO_INVAL)
         else if time_ptr + 8 > (of_nat msz :: u32) then (st, Result WASI_ERRNO_INVAL)
         else
           (case se_clock env (nat clock_id) of
              None \<Rightarrow> (st, Result WASI_ERRNO_INVAL)
            | Some (tv_sec, tv_nsec) \<Rightarrow>
                (set_hctx st (hc_store (int (unat time_ptr)) (put64 (tv_sec * 1000000000 + tv_nsec)) hctx),
                 Result WASI_ERRNO_SUCCESS))))"

text \<open>The loop around \<open>getrandom\<close> goes on as long as the system call delivers; \<open>fuel\<close> bounds the number of calls.
  \<open>None\<close> is that it ran out, the Boolean whether no call failed.\<close>

fun random_loop :: "nat \<Rightarrow> (nat \<Rightarrow> nat \<Rightarrow> bytes option) \<Rightarrow> nat \<Rightarrow> int \<Rightarrow> nat \<Rightarrow> nat \<Rightarrow> vwasm_host_ctx \<Rightarrow> (vwasm_host_ctx \<times> bool) option"
where
  "random_loop 0 getrandom k p blen filled hctx = (if filled < blen then None else Some (hctx, True))"
| "random_loop (Suc fuel) getrandom k p blen filled hctx =
     (if filled < blen then
        (case getrandom k (blen - filled) of
           None \<Rightarrow> Some (hctx, False)
         | Some bs \<Rightarrow>
             random_loop fuel getrandom (k + 1) p blen (filled + length bs) (hc_store (p + int filled) bs hctx))
      else Some (hctx, True))"

text \<open>One call per byte is enough when each delivers at least one.\<close>

definition wasi_random_get :: simple_fun where
  "wasi_random_get env st args =
     (let hctx = ss_ctx st in
      if \<not> hc_memory_valid hctx then (st, Result WASI_ERRNO_INVAL)
      else
        (let msz = length (hc_memory hctx); buf_ptr = args 0; blen = args 1 in
         if unat (ucast buf_ptr + ucast blen :: u64) > msz then (st, Result WASI_ERRNO_INVAL)
         else
           (case random_loop (unat blen) (se_random env) 0 (int (unat buf_ptr)) (unat blen) 0 hctx of
              None \<Rightarrow> (st, No_Result)
            | Some (hctx, False) \<Rightarrow> (set_hctx st hctx, Result WASI_ERRNO_IO)
            | Some (hctx, True) \<Rightarrow> (set_hctx st hctx, Result WASI_ERRNO_SUCCESS))))"

text \<open>Both sizes functions: two zeros, each where its pointer, in 32 bits, passes the test.\<close>

definition write_zero :: "u32 \<Rightarrow> vwasm_host_ctx \<Rightarrow> vwasm_host_ctx" where
  "write_zero p hctx =
     (if unat (p + 4) \<le> length (hc_memory hctx) then hc_store (int (unat p)) (put32 0) hctx else hctx)"

definition wasi_environ_sizes_get :: simple_fun where
  "wasi_environ_sizes_get env st args =
     (let hctx = ss_ctx st in
      (if hc_memory_valid hctx
       then set_hctx st (write_zero (args 1) (write_zero (args 0) (hctx\<lparr>hc_wasm_ctx := True\<rparr>)))
       else st, Result 0))"

definition wasi_environ_get :: simple_fun where
  "wasi_environ_get env st args = (st, Result 0)"

definition wasi_args_sizes_get :: simple_fun where
  "wasi_args_sizes_get env st args =
     (let hctx = ss_ctx st in
      (if hc_memory_valid hctx
       then set_hctx st (write_zero (args 1) (write_zero (args 0) (hctx\<lparr>hc_wasm_ctx := True\<rparr>)))
       else st, Result 0))"

definition wasi_args_get :: simple_fun where
  "wasi_args_get env st args = (st, Result 0)"

definition wasi_proc_exit :: simple_fun where
  "wasi_proc_exit env st args = (st, Trapped ''wasi proc_exit called'')"

section \<open>Registration\<close>

text \<open>The engine has one linker for all callbacks; \<open>Inl\<close> are those of this file, \<open>Inr\<close> the proxy-wasm functions. As in
  \<^const>\<open>pw_define_func\<close>, \<open>ok\<close> is whether the type could be allocated.\<close>

type_synonym callback = "simple_fun + host_fun"

definition define_func_4_1 :: "bool \<Rightarrow> callback linker \<Rightarrow> bytes \<Rightarrow> simple_fun \<Rightarrow> callback linker \<times> int" where
  "define_func_4_1 ok l name cb =
     (if \<not> ok then (l, -1)
      else case linker_define l ''env'' name [WASM_I32, WASM_I32, WASM_I32, WASM_I32] 1 (Inl cb) of
             None \<Rightarrow> (l, -1)
           | Some l \<Rightarrow> (l, 0))"

definition define_func_2_1 :: "bool \<Rightarrow> callback linker \<Rightarrow> bytes \<Rightarrow> simple_fun \<Rightarrow> callback linker \<times> int" where
  "define_func_2_1 ok l name cb =
     (if \<not> ok then (l, -1)
      else case linker_define l ''env'' name [WASM_I32, WASM_I32] 1 (Inl cb) of
             None \<Rightarrow> (l, -1)
           | Some l \<Rightarrow> (l, 0))"

definition define_func_3_0 :: "bool \<Rightarrow> callback linker \<Rightarrow> bytes \<Rightarrow> simple_fun \<Rightarrow> callback linker \<times> int" where
  "define_func_3_0 ok l name cb =
     (if \<not> ok then (l, -1)
      else case linker_define l ''env'' name [WASM_I32, WASM_I32, WASM_I32] 0 (Inl cb) of
             None \<Rightarrow> (l, -1)
           | Some l \<Rightarrow> (l, 0))"

definition wasi_define_func :: "bool \<Rightarrow> callback linker \<Rightarrow> bytes \<Rightarrow> nat \<Rightarrow> nat \<Rightarrow> simple_fun \<Rightarrow> callback linker \<times> int" where
  "wasi_define_func ok l name nparams nres cb =
     (if \<not> ok then (l, -1)
      else case linker_define l ''wasi_snapshot_preview1'' name (i32s nparams) nres (Inl cb) of
             None \<Rightarrow> (l, -1)
           | Some l \<Rightarrow> (l, 0))"

text \<open>\<open>if (... != 0) return (-1);\<close> and on.\<close>

definition defined_then :: "'l \<times> int \<Rightarrow> ('l \<Rightarrow> 'l \<times> int) \<Rightarrow> 'l \<times> int" where
  "defined_then p f = (case p of (l, r) \<Rightarrow> if r \<noteq> 0 then (l, -1) else f l)"

definition vwasm_host_define_imports :: "(nat \<Rightarrow> bool) \<Rightarrow> callback linker \<Rightarrow> callback linker \<times> int" where
  "vwasm_host_define_imports ok l =
     defined_then (define_func_4_1 (ok 0) l ''get_request_header'' host_get_request_header) (\<lambda>l.
     defined_then (define_func_2_1 (ok 1) l ''get_request_url'' host_get_request_url) (\<lambda>l.
     defined_then (define_func_2_1 (ok 2) l ''get_request_method'' host_get_request_method) (\<lambda>l.
     defined_then (define_func_2_1 (ok 3) l ''get_client_ip'' host_get_client_ip) (\<lambda>l.
     defined_then (define_func_4_1 (ok 4) l ''set_response_header'' host_set_response_header) (\<lambda>l.
     defined_then (define_func_3_0 (ok 5) l ''log_msg'' host_log_msg) (\<lambda>l. (l, 0)))))))"

definition vwasm_host_define_wasi :: "(nat \<Rightarrow> bool) \<Rightarrow> callback linker \<Rightarrow> callback linker \<times> int" where
  "vwasm_host_define_wasi ok l =
     defined_then (wasi_define_func (ok 0) l ''fd_write'' 4 1 wasi_fd_write) (\<lambda>l.
     defined_then (wasi_define_func (ok 1) l ''clock_time_get'' 3 1 wasi_clock_time_get) (\<lambda>l.
     defined_then (wasi_define_func (ok 2) l ''random_get'' 2 1 wasi_random_get) (\<lambda>l.
     defined_then (wasi_define_func (ok 3) l ''environ_sizes_get'' 2 1 wasi_environ_sizes_get) (\<lambda>l.
     defined_then (wasi_define_func (ok 4) l ''environ_get'' 2 1 wasi_environ_get) (\<lambda>l.
     defined_then (wasi_define_func (ok 5) l ''args_sizes_get'' 2 1 wasi_args_sizes_get) (\<lambda>l.
     defined_then (wasi_define_func (ok 6) l ''args_get'' 2 1 wasi_args_get) (\<lambda>l.
     defined_then (wasi_define_func (ok 7) l ''proc_exit'' 1 0 wasi_proc_exit) (\<lambda>l. (l, 0)))))))))"

text \<open>The linker an engine is created with.\<close>

definition engine_linker :: "(nat \<Rightarrow> bool) \<Rightarrow> (nat \<Rightarrow> bool) \<Rightarrow> (nat \<Rightarrow> bool) \<Rightarrow> callback linker \<times> int" where
  "engine_linker ok_host ok_wasi ok_proxy =
     defined_then (vwasm_host_define_imports ok_host []) (\<lambda>l.
     defined_then (vwasm_host_define_wasi ok_wasi l) (\<lambda>l.
     defined_then (define_all ok_proxy 0 (map (\<lambda>(name, ks, f). (name, ks, Inr f)) proxy_imports) l) (\<lambda>l. (l, 0))))"

section \<open>Calling an exported function\<close>

datatype simple_outcome = Returned u32 | Call_Failed bytes | Call_Trapped bytes

record simple_call =
  sc_rv :: int
  sc_result :: int
  sc_state :: simple_state
  sc_stores :: "store_end list"

text \<open>\<open>call\<close> is what Wasmtime does in a call of an exported function, \<open>failure\<close> the message of an instantiation that
  failed, as an error or as a trap, \<open>result\<close> what the caller's variable held. \<open>sc_stores\<close> records what became of the
  store, if there was one.\<close>

definition vwasm_engine_call ::
  "wasmtime \<Rightarrow> (nat \<Rightarrow> bytes \<Rightarrow> simple_state \<Rightarrow> simple_state \<times> simple_outcome) \<Rightarrow> bytes + bytes \<Rightarrow> bool \<Rightarrow> vwasm_engine option
   \<Rightarrow> vrt_ctx option \<Rightarrow> bytes option \<Rightarrow> bytes option \<Rightarrow> int \<Rightarrow> simple_call" where
  "vwasm_engine_call wt call failure vsl engine vctx module_name func_name result =
     (let host_ctx = \<lparr>hc_vrt = vctx, hc_wasm_ctx = False, hc_memory = [], hc_memory_valid = False, hc_fault = False\<rparr>;
          st = \<lparr>ss_ctx = host_ctx, ss_log = [], ss_stderr = []\<rparr>;
          log_ok = (vctx \<noteq> None \<and> vsl);
          return = (\<lambda>rv result st ends. \<lparr>sc_rv = rv, sc_result = result, sc_state = st, sc_stores = ends\<rparr>)
      in case (engine, module_name, func_name) of
           (Some e, Some name, Some func) \<Rightarrow>
             (case find_module e name of
                None \<Rightarrow> return (-1) result st []
              | Some idx \<Rightarrow>
                  (let pre = me_pre (eng_modules e ! idx);
                       fail = (\<lambda>st log. return (-1) result (st\<lparr>ss_log := ss_log st @ log\<rparr>) [Store_Deleted])
                   in if \<not> wt_store_new wt 0 then return (-1) result st []
                      else
                        (case wt_instantiate wt pre 0 of
                           None \<Rightarrow>
                             (case failure of
                                Inl msg \<Rightarrow> fail st (log_error log_ok (Some msg) (cstr name) (cstr func))
                              | Inr msg \<Rightarrow> fail st (log_trap log_ok msg (cstr name) (cstr func)))
                         | Some (mem, _) \<Rightarrow>
                             (let st = set_hctx st (if wt_export wt pre ''memory'' = Some WASMTIME_EXTERN_MEMORY
                                                    then host_ctx\<lparr>hc_memory := mem, hc_memory_valid := True\<rparr>
                                                    else host_ctx\<lparr>hc_memory := mem\<rparr>)
                              in case wt_export wt pre (cstr func) of
                                   None \<Rightarrow> fail st []
                                 | Some kind \<Rightarrow>
                                     if kind \<noteq> WASMTIME_EXTERN_FUNC then fail st []
                                     else
                                       (case call pre (cstr func) st of
                                          (st, Call_Failed msg) \<Rightarrow> fail st (log_error log_ok (Some msg) (cstr name) (cstr func))
                                        | (st, Call_Trapped msg) \<Rightarrow> fail st (log_trap log_ok msg (cstr name) (cstr func))
                                        | (st, Returned r) \<Rightarrow>
                                            return 0 (sint r)
                                              (if log_ok
                                               then st\<lparr>ss_log := ss_log st @
                                                      [(SLT_Debug, ''wasm: '' @ cstr name @ ''.'' @ cstr func @
                                                         '' ok (epoch-guarded, '' @ dec (unat (epoch_deadline_ms e)) @ ''ms deadline)'')]\<rparr>
                                               else st) [Store_Deleted])))))
         | _ \<Rightarrow> return (-1) result st [])"

section \<open>The two contexts\<close>

text \<open>Both kinds of callback are in the linker, but a callback takes the data pointer of the store for a pointer to its
  own kind of context. The first three members of the two structures are pointers; here they are, by position.
  Every simple host function stores Wasmtime's context in the second one.\<close>

definition host_ctx_layout :: "bytes list" where
  "host_ctx_layout = [''vrt_ctx'', ''wasm_ctx'']"

definition proxy_ctx_layout :: "bytes list" where
  "proxy_ctx_layout = [''vrt_ctx'', ''engine'', ''wasm_ctx'']"

text \<open>A structure as its words; \<open>hctx->wasm_ctx = ctx\<close> on it, and reading the member \<open>engine\<close> of a proxy context.\<close>

definition store_member :: "bytes list \<Rightarrow> bytes \<Rightarrow> u64 \<Rightarrow> u64 list \<Rightarrow> u64 list" where
  "store_member layout m w words = (case find_index (\<lambda>f. f = m) layout of None \<Rightarrow> words | Some i \<Rightarrow> words[i := w])"

definition load_member :: "bytes list \<Rightarrow> bytes \<Rightarrow> u64 list \<Rightarrow> u64 option" where
  "load_member layout m words =
     (case find_index (\<lambda>f. f = m) layout of None \<Rightarrow> None | Some i \<Rightarrow> if i < length words then Some (words ! i) else None)"

definition host_prologue :: "u64 \<Rightarrow> u64 list \<Rightarrow> u64 list" where
  "host_prologue ctx data = store_member host_ctx_layout ''wasm_ctx'' ctx data"

end
