(* ===== verification/Simple_Host.thy ===== *)
theory Simple_Host
  imports Host_Functions Guest_Runs
begin

text \<open>
  Properties of the simple host functions, the WASI stubs and \<open>vwasm_engine_call\<close>: which calls stay inside the
  guest's memory and which do not, what the functions deliver, that filling a buffer with random bytes ends, and
  that the three groups of callbacks fit into one linker but not onto one context.
\<close>

section \<open>Lemmas: memory\<close>

lemma store_ok: "0 \<le> p \<Longrightarrow> nat p + length bs \<le> length (hc_memory c) \<Longrightarrow> hc_store p bs c = c\<lparr>hc_memory := put (nat p) bs (hc_memory c)\<rparr>"
  by (simp add: hc_store_def)

lemma validate_iff: "validate_mem_region c p n \<longleftrightarrow>
    hc_memory_valid c \<and> 0 \<le> sint p \<and> 0 \<le> sint n \<and> nat (sint p) + nat (sint n) \<le> length (hc_memory c)"
  by (auto simp: validate_mem_region_def)

lemma sint_nonneg:
  assumes "0 \<le> sint w"
  shows "sint w = int (unat (w :: u32))"
proof -
  have "sint w < 2 ^ 31" using sint_lt [of w] by simp
  then have "take_bit 32 (sint w) = sint w" using assms by (simp add: take_bit_int_eq_self)
  then show ?thesis by (simp add: uint_sint)
qed

lemma sint_of_small:
  assumes "n < 2 ^ 31"
  shows "sint (of_nat n :: u32) = int n"
  using assms by (simp add: sint_uint unsigned_of_nat signed_take_bit_int_eq_self take_bit_nat_eq_self)

lemma unat_scast_small:
  assumes "sint (m :: u32) = int k"
  shows "unat (scast m :: u64) = k"
proof -
  have "k < 2 ^ 31" using sint_lt [of m] assms by simp
  then show ?thesis by (simp add: scast_eq assms unsigned_of_nat take_bit_nat_eq_self)
qed

text \<open>A string below 2 GiB is delivered as far as it fits.\<close>

lemma write_buf_cases:
  assumes "length s < 2 ^ 31" "nul_free s"
  obtains (skipped) "\<not> (sint n > 0 \<and> validate_mem_region c p n)" "write_to_wasm_buf c p n (Some s) = (c, of_nat (length s))"
  | (stored) "sint n > 0" "validate_mem_region c p n"
      "write_to_wasm_buf c p n (Some s) =
         (c\<lparr>hc_memory := put (unat p) (take (unat n) s) (hc_memory c)\<rparr>, of_nat (length s))"
proof (cases "sint n > 0 \<and> validate_mem_region c p n")
  case False
  show ?thesis by (rule skipped [OF False]) (use False assms in \<open>auto simp: write_to_wasm_buf_def Let_def cstr_id\<close>)
next
  case True
  then have v: "hc_memory_valid c" "0 \<le> sint p" "nat (sint p) + nat (sint n) \<le> length (hc_memory c)" "sint n > 0"
    by (auto simp: validate_iff)
  have len: "sint (of_nat (length s) :: u32) = int (length s)" using assms(1) by (rule sint_of_small)
  obtain N P where NP: "unat n = N" "unat p = P" by simp
  have n: "sint n = int N" "sint p = int P" using sint_nonneg [of n] sint_nonneg [of p] v NP by simp_all
  define m where "m = (if sint (of_nat (length s) :: u32) < sint n then of_nat (length s) else n)"
  define k where "k = min (length s) N"
  have "sint m = int k" using len n by (simp add: m_def k_def min_def)
  then have sc: "unat (scast m :: u64) = k" by (rule unat_scast_small)
  have "write_to_wasm_buf c p n (Some s) = (hc_store (sint p) (take k s) c, of_nat (length s))"
    unfolding write_to_wasm_buf_def option.case Let_def cstr_id [OF assms(2)] m_def [symmetric] sc
    using True by (simp add: mem_ptr_def k_def)
  also have "hc_store (sint p) (take k s) c = c\<lparr>hc_memory := put (unat p) (take (unat n) s) (hc_memory c)\<rparr>"
    using v n NP by (simp add: store_ok k_def min_def)
  finally show ?thesis using stored True by blast
qed

lemma write_buf_cstr: "write_to_wasm_buf c p n (Some (cstr s)) = write_to_wasm_buf c p n (Some s)"
  unfolding write_to_wasm_buf_def option.case cstr_idem ..

section \<open>The invariant\<close>

text \<open>The strings of a request are below 2 GiB, and so is every line a guest with less than 1 GiB can append.\<close>

definition http_short :: "http \<Rightarrow> bool" where
  "http_short hp \<longleftrightarrow> pred_option (\<lambda>s. length s < 2 ^ 31) (hd_url hp) \<and> pred_option (\<lambda>s. length s < 2 ^ 31) (hd_method hp) \<and>
     list_all (pred_option (\<lambda>s. length s < 2 ^ 31)) (hd_lines hp)"

definition ctx_ok :: "nat \<Rightarrow> vwasm_host_ctx \<Rightarrow> bool" where
  "ctx_ok L c \<longleftrightarrow> L \<le> 2 ^ 30 - 2 \<and> \<not> hc_fault c \<and> length (hc_memory c) \<le> L \<and>
     pred_option (\<lambda>v. pred_option http_short (http_req v)) (hc_vrt c)"

definition env_short :: "simple_env \<Rightarrow> bool" where
  "env_short env \<longleftrightarrow> pred_option (\<lambda>s. length s < 2 ^ 31) (se_client_ip env) \<and>
     (\<forall>hp l. http_short hp \<and> length l < 2 ^ 31 \<longrightarrow> http_short (v_SetHeader (se_vn env) hp l)) \<and>
     (\<forall>k n bs. se_random env k n = Some bs \<longrightarrow> 0 < length bs \<and> length bs \<le> n)"

lemma write_ok:
  assumes "ctx_ok L c" "length s < 2 ^ 31" "write_to_wasm_buf c p n (Some s) = (c', r)"
  shows "ctx_ok L c'"
proof -
  have s: "length (cstr s) < 2 ^ 31" "nul_free (cstr s)" using assms(2) length_cstr_le [of s] by simp_all
  show ?thesis
  proof (rule write_buf_cases [OF s, of n c p])
    assume "write_to_wasm_buf c p n (Some (cstr s)) = (c, of_nat (length (cstr s)))"
    then show ?thesis using assms(1,3) by (simp add: write_buf_cstr)
  next
    assume n: "0 < sint n" and v: "validate_mem_region c p n"
      and w: "write_to_wasm_buf c p n (Some (cstr s)) =
        (c\<lparr>hc_memory := put (unat p) (take (unat n) (cstr s)) (hc_memory c)\<rparr>, of_nat (length (cstr s)))"
    have "unat p + unat n \<le> length (hc_memory c)" using v n sint_nonneg [of p] sint_nonneg [of n] by (simp add: validate_iff)
    then show ?thesis using assms(1,3) w by (auto simp: write_buf_cstr ctx_ok_def chunk_simps)
  qed
qed

lemma read_wasm_string_length: "read_wasm_string al k c p n = Some s \<Longrightarrow> length s \<le> length (hc_memory c)"
  by (auto simp: read_wasm_string_def chunk_def split: if_splits)

lemma find_header_length:
  assumes "list_all (pred_option (\<lambda>s. length s < 2 ^ 31)) hds" "find_request_header n hds = Some v"
  shows "length v < 2 ^ 31"
  using assms
proof (induction n hds rule: find_request_header.induct)
  case (3 n b hds)
  have "length (skip_blanks (drop k (cstr b))) \<le> length b" for k
    using length_cstr_le [of b] length_dropWhile_le [of is_blank "drop k (cstr b)"] by (simp add: skip_blanks_def)
  then have "length (skip_blanks (drop k (cstr b))) < 2 ^ 31" for k
    using 3(2) order.strict_trans1 by fastforce
  then show ?case using 3 by (auto simp: Let_def split: if_splits)
qed simp_all

lemma ctx_ok_wasm [simp]: "ctx_ok L (c\<lparr>hc_wasm_ctx := b\<rparr>) = ctx_ok L c"
  by (simp add: ctx_ok_def)

lemma set_hctx_simps [simp]: "ss_ctx (set_hctx st c) = c" "set_hctx (set_hctx st c) d = set_hctx st d"
  by (simp_all add: set_hctx_def)

section \<open>Lemmas: the simple host functions\<close>

text \<open>A function leaves the context alone, writes one short string, or appends one short line.\<close>

definition answered :: "vwasm_host_ctx \<Rightarrow> vwasm_host_ctx \<Rightarrow> bool" where
  "answered c c' \<longleftrightarrow> c' = c \<or> (\<exists>p n s r. length s < 2 ^ 31 \<and> write_to_wasm_buf c p n (Some s) = (c', r))"

lemma answered_ok: "answered c c' \<Longrightarrow> ctx_ok L c \<Longrightarrow> ctx_ok L c'"
  using write_ok by (auto simp: answered_def)

lemma answeredI: "length s < 2 ^ 31 \<Longrightarrow> answered c (fst (write_to_wasm_buf c p n (Some s)))"
  unfolding answered_def by (metis prod.collapse)

abbreviation called :: "simple_state \<Rightarrow> vwasm_host_ctx" where
  "called st \<equiv> (ss_ctx st)\<lparr>hc_wasm_ctx := True\<rparr>"

lemma case_write: "ss_ctx (fst (case write_to_wasm_buf c p n s of (c, r) \<Rightarrow> (set_hctx st c, Result r))) =
    fst (write_to_wasm_buf c p n s)"
  by (simp split: prod.split)

lemma ctx_ok_http:
  assumes "ctx_ok L c" "hc_vrt c = Some v" "http_req v = Some hp"
  shows "http_short hp"
  using assms by (simp add: ctx_ok_def)

lemma get_header_ok:
  assumes "ctx_ok L (ss_ctx st)"
  shows "answered (called st) (ss_ctx (fst (host_get_request_header env st a)))"
proof -
  have "length s < 2 ^ 31" if "hc_vrt (ss_ctx st) = Some v" "http_req v = Some hp" "find_request_header n (hd_lines hp) = Some s"
    for v hp n s
    using ctx_ok_http [OF assms that(1,2)] find_header_length that(3) by (auto simp: http_short_def)
  then show ?thesis
    by (simp add: host_get_request_header_def Let_def case_write answered_def [of c c for c] answeredI split: option.split)
qed

lemma get_url_ok:
  assumes "ctx_ok L (ss_ctx st)"
  shows "answered (called st) (ss_ctx (fst (host_get_request_url env st a)))"
proof -
  have "length s < 2 ^ 31" if "hc_vrt (ss_ctx st) = Some v" "http_req v = Some hp" "hd_url hp = Some s" for v hp s
    using ctx_ok_http [OF assms that(1,2)] that(3) by (simp add: http_short_def)
  then show ?thesis
    by (simp add: host_get_request_url_def Let_def case_write answered_def [of c c for c] answeredI split: option.split)
qed

lemma get_method_ok:
  assumes "ctx_ok L (ss_ctx st)"
  shows "answered (called st) (ss_ctx (fst (host_get_request_method env st a)))"
proof -
  have "length s < 2 ^ 31" if "hc_vrt (ss_ctx st) = Some v" "http_req v = Some hp" "hd_method hp = Some s" for v hp s
    using ctx_ok_http [OF assms that(1,2)] that(3) by (simp add: http_short_def)
  then show ?thesis
    by (simp add: host_get_request_method_def Let_def case_write answered_def [of c c for c] answeredI split: option.split)
qed

lemma get_ip_ok:
  assumes "env_short env"
  shows "answered (called st) (ss_ctx (fst (host_get_client_ip env st a)))"
proof -
  have "length s < 2 ^ 31" if "se_client_ip env = Some s" for s using assms that by (simp add: env_short_def)
  then show ?thesis
    by (simp add: host_get_client_ip_def Let_def case_write answered_def [of c c for c] answeredI split: option.split)
qed

lemma log_msg_ok: "ss_ctx (fst (host_log_msg env st a)) = called st"
  by (simp add: host_log_msg_def Let_def split: option.split)

lemma set_header_ok:
  assumes "env_short env" "ctx_ok L (ss_ctx st)"
  shows "ctx_ok L (ss_ctx (fst (host_set_response_header env st a)))"
proof (cases "hc_vrt (ss_ctx st)")
  case None
  then show ?thesis using assms(2) by (simp add: host_set_response_header_def Let_def)
next
  case vc: (Some vc)
  show ?thesis
  proof (cases "http_req vc")
    case None
    then show ?thesis using assms(2) vc by (simp add: host_set_response_header_def Let_def)
  next
    case hp: (Some hp)
    show ?thesis
    proof (cases "read_wasm_string (se_al env) 0 (called st) (a 0) (a 1)")
      case None
      then show ?thesis using assms(2) vc hp by (simp add: host_set_response_header_def Let_def)
    next
      case n: (Some n)
      show ?thesis
      proof (cases "read_wasm_string (se_al env) 1 (called st) (a 2) (a 3)")
        case None
        then show ?thesis using assms(2) vc hp n by (simp add: host_set_response_header_def Let_def)
      next
        case v: (Some v)
        have "length (cstr n) \<le> L" "length (cstr v) \<le> L" "L \<le> 2 ^ 30 - 2"
          using read_wasm_string_length [OF n] read_wasm_string_length [OF v] length_cstr_le [of n] length_cstr_le [of v] assms(2)
          by (auto simp: ctx_ok_def)
        then have "http_short (v_SetHeader (se_vn env) hp (cstr n @ '': '' @ cstr v))"
          using ctx_ok_http [OF assms(2) vc hp] assms(1) by (simp add: env_short_def)
        then have "ctx_ok L ((called st)\<lparr>hc_vrt := Some (vc\<lparr>http_req :=
            Some (v_SetHeader (se_vn env) hp (cstr n @ '': '' @ cstr v))\<rparr>)\<rparr>)"
          using assms(2) by (simp add: ctx_ok_def)
        then show ?thesis using assms(2) vc hp n v by (simp add: host_set_response_header_def Let_def)
      qed
    qed
  qed
qed

section \<open>Lemmas: the WASI stubs\<close>

text \<open>Adding a small number to a pointer in 32 bits: right, unless it wraps.\<close>

lemma pointer_add:
  fixes p :: u32
  assumes "k < 2 ^ 31" "unat p < 2 ^ 32 - k"
  shows "unat (p + of_nat k) = unat p + k"
proof -
  have "unat (of_nat k :: u32) = k" using assms(1) by (simp add: unsigned_of_nat take_bit_nat_eq_self)
  then show ?thesis using assms(2) by (simp add: unat_word_ariths)
qed

lemma pointer_wraps:
  fixes p :: u32
  assumes "0 < k" "k < 2 ^ 31" "2 ^ 32 - k \<le> unat p"
  shows "unat (p + of_nat k) < k"
proof -
  have k: "unat (of_nat k :: u32) = k" using assms(2) by (simp add: unsigned_of_nat take_bit_nat_eq_self)
  have "unat p < 2 ^ 32" using unsigned_less [of p, where 'a = nat] by simp
  then have "unat p + k - 2 ^ 32 < k" "unat p + k \<ge> 2 ^ 32" "unat p + k < 2 * 2 ^ 32" using assms by auto
  then have "(unat p + k) mod 2 ^ 32 < k" by (simp add: mod_if)
  then show ?thesis using k by (simp add: unat_word_ariths)
qed

lemma write_zero_ok:
  assumes "unat p < 2 ^ 32 - 4"
  shows "hc_fault (write_zero p c) = hc_fault c" "length (hc_memory (write_zero p c)) = length (hc_memory c)"
    "hc_vrt (write_zero p c) = hc_vrt c"
  using pointer_add [of 4 p] assms by (auto simp: write_zero_def store_ok chunk_simps)

lemma write_zero_fault:
  assumes "2 ^ 32 - 4 \<le> unat p" "3 \<le> length (hc_memory c)" "length (hc_memory c) < 2 ^ 32"
  shows "hc_fault (write_zero p c)" "hc_memory (write_zero p c) = hc_memory c"
  using pointer_wraps [of 4 p] assms by (auto simp: write_zero_def hc_store_def)

lemma write_zero_keeps: "hc_fault c \<Longrightarrow> hc_fault (write_zero p c)"
  "length (hc_memory (write_zero p c)) = length (hc_memory c)"
  by (auto simp: write_zero_def hc_store_def chunk_simps)

text \<open>The loop ends when every call delivers something, and writes inside the buffer only.\<close>

lemma random_loop_ends:
  assumes "\<forall>k n bs. getrandom k n = Some bs \<longrightarrow> 0 < length bs \<and> length bs \<le> n"
    and "filled \<le> n" "n - filled \<le> fuel" "P + n \<le> length (hc_memory c)"
  shows "\<exists>bs b. random_loop fuel getrandom k (int P) n filled c = Some (c\<lparr>hc_memory := put (P + filled) bs (hc_memory c)\<rparr>, b) \<and>
    filled + length bs \<le> n \<and> (b \<longrightarrow> filled + length bs = n)"
  using assms(2-4)
proof (induction fuel arbitrary: k filled c)
  case 0
  then show ?case by (intro exI [of _ "[]"] exI [of _ True]) (simp add: put_def)
next
  case (Suc fuel)
  show ?case
  proof (cases "filled < n")
    case False
    then show ?thesis using Suc.prems(1) by (intro exI [of _ "[]"] exI [of _ True]) (simp add: put_def)
  next
    case True
    show ?thesis
    proof (cases "getrandom k (n - filled)")
      case None
      then show ?thesis using True by (intro exI [of _ "[]"] exI [of _ False]) (simp add: put_def)
    next
      case (Some bs)
      have law: "0 < length bs \<and> length bs \<le> n - filled" using assms(1) Some by blast
      define d where "d = c\<lparr>hc_memory := put (P + filled) bs (hc_memory c)\<rparr>"
      have room: "P + filled + length bs \<le> length (hc_memory c)" using law Suc.prems by linarith
      have st: "hc_store (int P + int filled) bs c = d"
        using room by (simp add: hc_store_def d_def nat_add_distrib)
      have d: "P + n \<le> length (hc_memory d)" using room Suc.prems by (simp add: d_def chunk_simps)
      have n: "filled + length bs \<le> n" "n - (filled + length bs) \<le> fuel" using law Suc.prems by linarith+
      obtain bs' b where r: "random_loop fuel getrandom (k + 1) (int P) n (filled + length bs) d =
          Some (d\<lparr>hc_memory := put (P + (filled + length bs)) bs' (hc_memory d)\<rparr>, b)"
        "filled + length bs + length bs' \<le> n" "b \<longrightarrow> filled + length bs + length bs' = n"
        using Suc.IH [OF n d] by blast
      have "put (P + (filled + length bs)) bs' (put (P + filled) bs (hc_memory c)) = put (P + filled) (bs @ bs') (hc_memory c)"
        using r(2) Suc.prems by (simp add: put_def ac_simps)
      then have "random_loop (Suc fuel) getrandom k (int P) n filled c =
          Some (c\<lparr>hc_memory := put (P + filled) (bs @ bs') (hc_memory c)\<rparr>, b)"
        using True Some st r(1) by (simp add: d_def)
      then show ?thesis using r(2,3) by (intro exI [of _ "bs @ bs'"] exI [of _ b]) (auto simp: add.assoc simp del: random_loop.simps)
    qed
  qed
qed

lemma fd_write_fault:
  assumes "hc_memory_valid (ss_ctx st)" "\<not> hc_fault (ss_ctx st)" "3 \<le> length (hc_memory (ss_ctx st))" "length (hc_memory (ss_ctx st)) < 2 ^ 32"
  shows "hc_fault (ss_ctx (fst (wasi_fd_write env st a))) \<longleftrightarrow>
    snd (wasi_fd_write env st a) = Result WASI_ERRNO_SUCCESS \<and> 2 ^ 32 - 4 \<le> unat (a 3)"
proof -
  let ?c = "ss_ctx st" let ?n = "length (hc_memory (ss_ctx st))"
  obtain out tot ok where l: "fd_write_loop (hc_memory ?c) (a 1) (a 2) 0 (ss_stderr st) 0 = (out, tot, ok)" using prod_cases3 by blast
  have m: "unat (of_nat ?n :: u32) = ?n" using assms(4) by (simp add: unsigned_of_nat take_bit_nat_eq_self)
  have "hc_fault (hc_store (int (unat (a 3))) (put32 tot) ?c) \<longleftrightarrow> 2 ^ 32 - 4 \<le> unat (a 3)"
    if "\<not> a 3 + 4 > (of_nat ?n :: u32)"
  proof (cases "unat (a 3) < 2 ^ 32 - 4")
    case True
    then have "unat (a 3) + 4 \<le> ?n" using that pointer_add [of 4 "a 3"] m by (simp add: word_less_nat_alt not_less)
    then show ?thesis using True assms(2) by (simp add: hc_store_def)
  next
    case False
    then show ?thesis using assms(4) by (simp add: hc_store_def)
  qed
  then show ?thesis using assms(1,2) l
    by (auto simp: wasi_fd_write_def Let_def WASI_ERRNO_SUCCESS_def WASI_ERRNO_BADF_def WASI_ERRNO_INVAL_def split: bool.split)
qed

lemma clock_fault:
  assumes "hc_memory_valid (ss_ctx st)" "\<not> hc_fault (ss_ctx st)" "7 \<le> length (hc_memory (ss_ctx st))" "length (hc_memory (ss_ctx st)) < 2 ^ 32"
  shows "hc_fault (ss_ctx (fst (wasi_clock_time_get env st a))) \<longleftrightarrow>
    snd (wasi_clock_time_get env st a) = Result WASI_ERRNO_SUCCESS \<and> 2 ^ 32 - 8 \<le> unat (a 2)"
proof -
  let ?c = "ss_ctx st" let ?n = "length (hc_memory (ss_ctx st))"
  have m: "unat (of_nat ?n :: u32) = ?n" using assms(4) by (simp add: unsigned_of_nat take_bit_nat_eq_self)
  have "hc_fault (hc_store (int (unat (a 2))) (put64 t) ?c) \<longleftrightarrow> 2 ^ 32 - 8 \<le> unat (a 2)"
    if "\<not> a 2 + 8 > (of_nat ?n :: u32)" for t
  proof (cases "unat (a 2) < 2 ^ 32 - 8")
    case True
    then have "unat (a 2) + 8 \<le> ?n" using that pointer_add [of 8 "a 2"] m by (simp add: word_less_nat_alt not_less)
    then show ?thesis using True assms(2) by (simp add: hc_store_def)
  next
    case False
    then show ?thesis using assms(4) by (simp add: hc_store_def)
  qed
  then show ?thesis using assms(1,2)
    by (auto simp: wasi_clock_time_get_def Let_def WASI_ERRNO_SUCCESS_def WASI_ERRNO_INVAL_def split: option.split prod.split)
qed

lemma sizes_fault:
  assumes "hc_memory_valid (ss_ctx st)" "\<not> hc_fault (ss_ctx st)" "3 \<le> length (hc_memory (ss_ctx st))" "length (hc_memory (ss_ctx st)) < 2 ^ 32"
  shows "hc_fault (ss_ctx (fst (wasi_environ_sizes_get env st a))) \<longleftrightarrow> 2 ^ 32 - 4 \<le> unat (a 0) \<or> 2 ^ 32 - 4 \<le> unat (a 1)"
proof -
  let ?c = "(ss_ctx st)\<lparr>hc_wasm_ctx := True\<rparr>"
  have "hc_fault (write_zero (a 1) (write_zero (a 0) ?c)) \<longleftrightarrow> 2 ^ 32 - 4 \<le> unat (a 0) \<or> 2 ^ 32 - 4 \<le> unat (a 1)"
  proof (cases "unat (a 0) < 2 ^ 32 - 4")
    case True
    then show ?thesis
      using write_zero_ok(1) [of "a 1" "write_zero (a 0) ?c"] write_zero_ok(1) [OF True, of ?c]
        write_zero_fault(1) [of "a 1" "write_zero (a 0) ?c"] write_zero_keeps(2) [of "a 0" ?c] assms
      by (cases "unat (a 1) < 2 ^ 32 - 4") simp_all
  next
    case False
    then show ?thesis using write_zero_fault(1) [of "a 0" ?c] write_zero_keeps(1) assms by simp
  qed
  then show ?thesis using assms(1) by (simp add: wasi_environ_sizes_get_def Let_def)
qed

section \<open>What a guest can do\<close>

text \<open>Calls of the simple host functions with any arguments, calls of the WASI stubs whose pointers do not lie in the
  last bytes of the 32-bit address space, and the guest's own writes. The other stubs change nothing.\<close>

inductive simple_step :: "nat \<Rightarrow> simple_state \<Rightarrow> simple_state \<Rightarrow> bool" for L where
  env_call: "f \<in> set [host_get_request_header, host_get_request_url, host_get_request_method, host_get_client_ip,
      host_set_response_header, host_log_msg] \<Longrightarrow> env_short env \<Longrightarrow> simple_step L st (fst (f env st a))"
| fd_write: "unat (a 3) < 2 ^ 32 - 4 \<Longrightarrow> simple_step L st (fst (wasi_fd_write env st a))"
| clock_time_get: "unat (a 2) < 2 ^ 32 - 8 \<Longrightarrow> simple_step L st (fst (wasi_clock_time_get env st a))"
| random_get: "env_short env \<Longrightarrow> simple_step L st (fst (wasi_random_get env st a))"
| sizes_get: "f \<in> set [wasi_environ_sizes_get, wasi_args_sizes_get] \<Longrightarrow> unat (a 0) < 2 ^ 32 - 4 \<Longrightarrow> unat (a 1) < 2 ^ 32 - 4 \<Longrightarrow>
    simple_step L st (fst (f env st a))"
| own: "length (hc_memory (ss_ctx st)) \<le> length m \<Longrightarrow> length m \<le> L \<Longrightarrow>
    simple_step L st (set_hctx st ((ss_ctx st)\<lparr>hc_memory := m\<rparr>))"

lemma ctx_ok_store: "ctx_ok L c \<Longrightarrow> nat p + length bs \<le> length (hc_memory c) \<Longrightarrow> 0 \<le> p \<Longrightarrow> ctx_ok L (hc_store p bs c)"
  by (simp add: store_ok ctx_ok_def chunk_simps)

lemma ctx_ok_u32: "ctx_ok L c \<Longrightarrow> unat (of_nat (length (hc_memory c)) :: u32) = length (hc_memory c)"
  by (simp add: ctx_ok_def unsigned_of_nat take_bit_nat_eq_self)

lemma fd_write_ok:
  assumes "unat (a 3) < 2 ^ 32 - 4" "ctx_ok L (ss_ctx st)"
  shows "ctx_ok L (ss_ctx (fst (wasi_fd_write env st a)))"
proof -
  have "ctx_ok L (hc_store (int (unat (a 3))) (put32 t) (ss_ctx st))"
    if "\<not> a 3 + 4 > (of_nat (length (hc_memory (ss_ctx st))) :: u32)" for t
    using that pointer_add [of 4 "a 3"] ctx_ok_u32 [OF assms(2)] assms
    by (intro ctx_ok_store) (simp_all add: word_less_nat_alt not_less)
  moreover obtain out tot ok where "fd_write_loop (hc_memory (ss_ctx st)) (a 1) (a 2) 0 (ss_stderr st) 0 = (out, tot, ok)"
    using prod_cases3 by blast
  ultimately show ?thesis using assms(2) by (cases ok) (simp_all add: wasi_fd_write_def Let_def)
qed

lemma clock_ok:
  assumes "unat (a 2) < 2 ^ 32 - 8" "ctx_ok L (ss_ctx st)"
  shows "ctx_ok L (ss_ctx (fst (wasi_clock_time_get env st a)))"
proof -
  have "ctx_ok L (hc_store (int (unat (a 2))) (put64 t) (ss_ctx st))"
    if "\<not> a 2 + 8 > (of_nat (length (hc_memory (ss_ctx st))) :: u32)" for t
    using that pointer_add [of 8 "a 2"] ctx_ok_u32 [OF assms(2)] assms
    by (intro ctx_ok_store) (simp_all add: word_less_nat_alt not_less)
  then show ?thesis using assms(2) by (simp add: wasi_clock_time_get_def Let_def split: option.split prod.split)
qed

lemma random_get_cases:
  assumes "\<forall>k n bs. se_random env k n = Some bs \<longrightarrow> 0 < length bs \<and> length bs \<le> n"
  obtains (refused) "wasi_random_get env st a = (st, Result WASI_ERRNO_INVAL)"
  | (filled) bs b where "hc_memory_valid (ss_ctx st)" "unat (a 0) + unat (a 1) \<le> length (hc_memory (ss_ctx st))"
      "length bs \<le> unat (a 1)" "b \<longrightarrow> length bs = unat (a 1)"
      "wasi_random_get env st a = (set_hctx st ((ss_ctx st)\<lparr>hc_memory := put (unat (a 0)) bs (hc_memory (ss_ctx st))\<rparr>),
         Result (if b then WASI_ERRNO_SUCCESS else WASI_ERRNO_IO))"
proof (cases "hc_memory_valid (ss_ctx st) \<and> unat (a 0) + unat (a 1) \<le> length (hc_memory (ss_ctx st))")
  case False
  show ?thesis by (rule refused) (use False in \<open>auto simp: wasi_random_get_def Let_def unat_u32_sum64\<close>)
next
  case True
  obtain bs b where r: "random_loop (unat (a 1)) (se_random env) 0 (int (unat (a 0))) (unat (a 1)) 0 (ss_ctx st) =
      Some ((ss_ctx st)\<lparr>hc_memory := put (unat (a 0)) bs (hc_memory (ss_ctx st))\<rparr>, b)"
    "length bs \<le> unat (a 1)" "b \<longrightarrow> length bs = unat (a 1)"
    using random_loop_ends [where getrandom = "se_random env" and filled = 0 and n = "unat (a 1)" and fuel = "unat (a 1)"
      and P = "unat (a 0)" and c = "ss_ctx st" and k = 0, OF assms] True by auto
  show ?thesis
    by (rule filled [OF _ _ r(2,3)]) (use True r(1) in \<open>cases b; simp add: wasi_random_get_def Let_def unat_u32_sum64\<close>)+
qed

lemma random_ok: "env_short env \<Longrightarrow> ctx_ok L (ss_ctx st) \<Longrightarrow> ctx_ok L (ss_ctx (fst (wasi_random_get env st a)))"
  by (cases rule: random_get_cases [of env st a]) (auto simp: ctx_ok_def chunk_simps env_short_def)

lemma sizes_ok:
  assumes "unat (a 0) < 2 ^ 32 - 4" "unat (a 1) < 2 ^ 32 - 4" "ctx_ok L (ss_ctx st)"
  shows "ctx_ok L (ss_ctx (fst (wasi_environ_sizes_get env st a)))" "wasi_args_sizes_get = wasi_environ_sizes_get"
proof -
  show "ctx_ok L (ss_ctx (fst (wasi_environ_sizes_get env st a)))"
    using assms by (simp add: wasi_environ_sizes_get_def Let_def ctx_ok_def write_zero_ok)
  show "wasi_args_sizes_get = wasi_environ_sizes_get"
    by (simp add: fun_eq_iff wasi_args_sizes_get_def wasi_environ_sizes_get_def)
qed

lemma env_calls_ok:
  assumes "f \<in> set [host_get_request_header, host_get_request_url, host_get_request_method, host_get_client_ip,
      host_set_response_header, host_log_msg]" "env_short env" "ctx_ok L (ss_ctx st)"
  shows "ctx_ok L (ss_ctx (fst (f env st a)))"
proof -
  have c: "ctx_ok L (called st)" using assms(3) by simp
  note ok = answered_ok [OF get_header_ok [OF assms(3)] c] answered_ok [OF get_url_ok [OF assms(3)] c]
    answered_ok [OF get_method_ok [OF assms(3)] c] answered_ok [OF get_ip_ok [OF assms(2)] c] set_header_ok [OF assms(2,3)]
  from assms(1) consider "f = host_get_request_header" | "f = host_get_request_url" | "f = host_get_request_method"
    | "f = host_get_client_ip" | "f = host_set_response_header" | "f = host_log_msg"
    by (simp only: list.set insert_iff empty_iff) blast
  then show ?thesis by cases (simp_all only: ok log_msg_ok c)
qed

lemma simple_step_ok: "simple_step L st st' \<Longrightarrow> ctx_ok L (ss_ctx st) \<Longrightarrow> ctx_ok L (ss_ctx st')"
proof (induction rule: simple_step.induct)
  case (env_call f env st a)
  then show ?case by (rule env_calls_ok)
next
  case (sizes_get f a st env)
  then have "f = wasi_environ_sizes_get" using sizes_ok(2) [of a] by auto
  then show ?case using sizes_ok(1) sizes_get by simp
next
  case (own st m)
  then show ?case by (simp add: ctx_ok_def)
qed (simp_all only: fd_write_ok clock_ok random_ok)

interpretation simple_steps: step_invariant "simple_step L" "\<lambda>st. ctx_ok L (ss_ctx st)" for L
  by unfold_locales (rule simple_step_ok)

section \<open>Lemmas: calling an exported function\<close>

definition call_ok :: "nat \<Rightarrow> int \<Rightarrow> simple_call \<Rightarrow> bool" where
  "call_ok L result r \<longleftrightarrow> ctx_ok L (ss_ctx (sc_state r)) \<and> (sc_rv r = 0 \<or> sc_rv r = -1 \<and> sc_result r = result) \<and>
     (sc_stores r = [] \<or> sc_stores r = [Store_Deleted])"

lemma call_ok_simps [simp]:
  "call_ok L result \<lparr>sc_rv = -1, sc_result = result, sc_state = st, sc_stores = []\<rparr> = ctx_ok L (ss_ctx st)"
  "call_ok L result \<lparr>sc_rv = -1, sc_result = result, sc_state = st, sc_stores = [Store_Deleted]\<rparr> = ctx_ok L (ss_ctx st)"
  "call_ok L result \<lparr>sc_rv = 0, sc_result = w, sc_state = st, sc_stores = [Store_Deleted]\<rparr> = ctx_ok L (ss_ctx st)"
  by (auto simp: call_ok_def)

lemma engine_call_ok:
  assumes "guest_bound L wt" "L \<le> 2 ^ 30 - 2" "\<forall>pre f st. (simple_step L)\<^sup>*\<^sup>* st (fst (call pre f st))"
    and "pred_option (\<lambda>v. pred_option http_short (http_req v)) vctx"
  shows "call_ok L result (vwasm_engine_call wt call failure vsl engine vctx module_name func_name result)"
proof -
  let ?c = "\<lparr>hc_vrt = vctx, hc_wasm_ctx = False, hc_memory = [], hc_memory_valid = False, hc_fault = False\<rparr>"
  have c: "ctx_ok L ?c" "length m \<le> L \<Longrightarrow> ctx_ok L (?c\<lparr>hc_memory := m\<rparr>)" "length m \<le> L \<Longrightarrow> ctx_ok L (?c\<lparr>hc_memory := m, hc_memory_valid := b\<rparr>)"
    for m b using assms(2,4) by (simp_all add: ctx_ok_def)
  have run: "ctx_ok L (ss_ctx st')" if "call pre f st = (st', out)" "ctx_ok L (ss_ctx st)" for pre f st st' out
    using assms(3) that simple_steps.run_keeps by (metis fst_conv)
  have mem: "length m \<le> L" if "wt_instantiate wt pre k = Some (m, g)" for pre k m g using assms(1) that unfolding guest_bound_def by blast
  note eqs = vwasm_engine_call_def Let_def prod.case option.case
  consider (null) "engine = None \<or> module_name = None \<or> func_name = None"
    | (set) e name func where "engine = Some e" "module_name = Some name" "func_name = Some func" by fastforce
  then show ?thesis
  proof cases
    case null
    then show ?thesis using c(1) unfolding vwasm_engine_call_def Let_def by (auto split: option.split)
  next
    case (set e name func)
    show ?thesis
    proof (cases "find_module e name")
      case None
      then show ?thesis using c(1) unfolding eqs set by simp
    next
      case (Some idx)
      define pre where "pre = me_pre (eng_modules e ! idx)"
      show ?thesis
      proof (cases "wt_instantiate wt pre 0")
        case None
        then show ?thesis using c(1) unfolding eqs set Some pre_def by (simp split: sum.split)
      next
        case inst: (Some mg)
        obtain mem globs where mg: "mg = (mem, globs)" by fastforce
        obtain c1 where c1: "c1 = (if wt_export wt pre ''memory'' = Some WASMTIME_EXTERN_MEMORY
            then ?c\<lparr>hc_memory := mem, hc_memory_valid := True\<rparr> else ?c\<lparr>hc_memory := mem\<rparr>)" by simp
        have ok: "ctx_ok L c1" using c mem [OF inst [unfolded mg]] by (simp add: c1)
        define st where "st = set_hctx \<lparr>ss_ctx = ?c, ss_log = [], ss_stderr = []\<rparr> c1"
        obtain st' out where call: "call pre (cstr func) st = (st', out)" by fastforce
        have ok': "ctx_ok L (ss_ctx st)" "ctx_ok L (ss_ctx st')" using ok run [OF call] by (simp_all add: st_def)
        show ?thesis
          unfolding eqs set Some pre_def [symmetric] inst mg c1 [symmetric] st_def [symmetric] call
          using ok' c(1) by (cases out) (auto split: option.split)
      qed
    qed
  qed
qed

section \<open>Examples\<close>

definition idle_wt :: wasmtime where
  "idle_wt = \<lparr>wt_store_new = (\<lambda>_. True), wt_instantiate = (\<lambda>_ _. Some (''ab'', [])),
     wt_export = (\<lambda>_ name. if name = ''memory'' then Some WASMTIME_EXTERN_MEMORY else Some WASMTIME_EXTERN_FUNC),
     wt_alloc = (\<lambda>_ _ _ m. (None, m)), wt_call = (\<lambda>_ _ _ rs. (rs, Call_Done 0))\<rparr>"

lemma idle_wt_bound: "guest_bound 65536 idle_wt"
  by (simp add: guest_bound_def idle_wt_def alloc_limited_def)

definition one_module :: vwasm_engine where
  "one_module = (the (vwasm_engine_new (\<lambda>_. True)))\<lparr>eng_modules := [\<lparr>me_name = ''m'', me_module = 0, me_pre = 0\<rparr>]\<rparr>"

definition quiet_http :: http where
  "quiet_http = \<lparr>hd_method = Some ''GET'', hd_url = Some ''/'', hd_proto = None, hd_status = None,
     hd_lines = [None, Some ''Accept: b'', Some ''Host: a''], http_status = 0\<rparr>"

definition quiet_vrt :: vrt_ctx where
  "quiet_vrt = \<lparr>http_req = Some quiet_http, http_bereq = None, http_resp = None, http_beresp = None\<rparr>"

definition quiet_env :: simple_env where
  "quiet_env = \<lparr>se_al = (\<lambda>_. True),
     se_vn = \<lparr>v_GetHdr = (\<lambda>_ _. None), v_Unset = (\<lambda>hp _. hp), v_SetHeader = (\<lambda>hp _. hp), v_SetH = (\<lambda>hp _ _. hp), v_ws = (\<lambda>_. True)\<rparr>,
     se_client_ip = None, se_vsl = False, se_clock = (\<lambda>_. None), se_random = (\<lambda>_ n. if n = 0 then None else Some ''x'')\<rparr>"

definition page_state :: "bytes \<Rightarrow> simple_state" where
  "page_state m = \<lparr>ss_ctx = \<lparr>hc_vrt = Some quiet_vrt, hc_wasm_ctx = True, hc_memory = m, hc_memory_valid = True, hc_fault = False\<rparr>,
     ss_log = [], ss_stderr = []\<rparr>"

lemma page_memory [simp]: "hc_memory (ss_ctx (page_state m)) = m"
  by (simp add: page_state_def)

lemma put_nothing: "put n [] xs = xs"
  by (simp add: put_def)

lemma find_header_nul_free: "find_request_header n hds = Some v \<Longrightarrow> nul_free v"
proof (induction n hds rule: find_request_header.induct)
  case (3 n b hds)
  have "nul_free (skip_blanks (drop k (cstr b)))" for k
    using set_dropWhileD [of _ is_blank "drop k (cstr b)"] set_drop_subset [of k "cstr b"] cstr_nul_free [of b]
    by (auto simp: nul_free_def skip_blanks_def)
  then show ?case using 3 by (auto simp: Let_def split: if_splits)
qed simp_all

section \<open>Lemmas: the linker\<close>

definition host_linker :: "callback linker" where
  "host_linker =
    [(''env'', ''get_request_header'', i32s 4, 1, Inl host_get_request_header),
     (''env'', ''get_request_url'', i32s 2, 1, Inl host_get_request_url),
     (''env'', ''get_request_method'', i32s 2, 1, Inl host_get_request_method),
     (''env'', ''get_client_ip'', i32s 2, 1, Inl host_get_client_ip),
     (''env'', ''set_response_header'', i32s 4, 1, Inl host_set_response_header),
     (''env'', ''log_msg'', i32s 3, 0, Inl host_log_msg)]"

definition wasi_linker :: "callback linker" where
  "wasi_linker = map (\<lambda>(name, ps, rs, f). (''wasi_snapshot_preview1'', name, i32s ps, rs, Inl f))
    [(''fd_write'', 4, 1, wasi_fd_write), (''clock_time_get'', 3, 1, wasi_clock_time_get),
     (''random_get'', 2, 1, wasi_random_get), (''environ_sizes_get'', 2, 1, wasi_environ_sizes_get),
     (''environ_get'', 2, 1, wasi_environ_get), (''args_sizes_get'', 2, 1, wasi_args_sizes_get),
     (''args_get'', 2, 1, wasi_args_get), (''proc_exit'', 1, 0, wasi_proc_exit)]"

lemma host_linker_defined: "\<forall>k. ok k \<Longrightarrow> vwasm_host_define_imports ok [] = (host_linker, 0)"
  by (simp add: vwasm_host_define_imports_def defined_then_def define_func_4_1_def define_func_2_1_def define_func_3_0_def
    linker_define_def host_linker_def numeral_eq_Suc)

lemma wasi_linker_defined: "\<forall>k. ok k \<Longrightarrow> vwasm_host_define_wasi ok host_linker = (host_linker @ wasi_linker, 0)"
  by (simp add: vwasm_host_define_wasi_def defined_then_def wasi_define_func_def linker_define_def host_linker_def wasi_linker_def)

lemma host_names_apart: "\<forall>d \<in> set (host_linker @ wasi_linker). fst d = ''env'' \<longrightarrow> fst (snd d) \<notin> set (map fst proxy_imports)"
proof -
  have "list_all (\<lambda>n. n \<notin> set (map fst proxy_imports)) [''get_request_header'', ''get_request_url'', ''get_request_method'',
      ''get_client_ip'', ''set_response_header'', ''log_msg'']"
    unfolding proxy_imports_def list.map fst_conv by code_simp
  then show ?thesis by (simp add: host_linker_def wasi_linker_def del: set_map)
qed

section \<open>Properties\<close>



text \<open>C17: the exact calls in which a WASI stub writes outside the guest's memory. The pointers are checked in 32-bit
  arithmetic: one whose last bytes would lie beyond 4 GiB wraps around, passes the check and is written to.\<close>

theorem wasi_pointer_wraps:
  assumes "hc_memory_valid (ss_ctx st)" "\<not> hc_fault (ss_ctx st)" "7 \<le> length (hc_memory (ss_ctx st))"
    and "length (hc_memory (ss_ctx st)) < 2 ^ 32"
  shows "(hc_fault (ss_ctx (fst (wasi_environ_sizes_get env st a))) \<longleftrightarrow> 2 ^ 32 - 4 \<le> unat (a 0) \<or> 2 ^ 32 - 4 \<le> unat (a 1)) \<and>
    (hc_fault (ss_ctx (fst (wasi_fd_write env st a))) \<longleftrightarrow>
       snd (wasi_fd_write env st a) = Result WASI_ERRNO_SUCCESS \<and> 2 ^ 32 - 4 \<le> unat (a 3)) \<and>
    (hc_fault (ss_ctx (fst (wasi_clock_time_get env st a))) \<longleftrightarrow>
       snd (wasi_clock_time_get env st a) = Result WASI_ERRNO_SUCCESS \<and> 2 ^ 32 - 8 \<le> unat (a 2))"
  using sizes_fault fd_write_fault clock_fault assms by simp

theorem wasi_pointer_wraps_witness:
  "hc_fault (ss_ctx (fst (wasi_environ_sizes_get quiet_env (page_state (replicate 16 NUL)) (\<lambda>_. 0xFFFFFFFF))))"
  using wasi_pointer_wraps [of "page_state (replicate 16 NUL)" quiet_env "\<lambda>_. 0xFFFFFFFF"] by (simp add: page_state_def)

text \<open>C20: filling a buffer with random bytes ends: if every call of \<open>getrandom\<close> that succeeds delivers between one
  byte and what was asked for, the loop has returned after at most one call per byte, with success, an
  input/output error or a refused buffer; on success the buffer is filled, and nothing outside it changes.\<close>

theorem random_get_ends:
  assumes "\<forall>k n bs. se_random env k n = Some bs \<longrightarrow> 0 < length bs \<and> length bs \<le> n"
  shows "snd (wasi_random_get env st a) = Result WASI_ERRNO_INVAL \<and> fst (wasi_random_get env st a) = st \<or>
    (\<exists>bs. snd (wasi_random_get env st a) \<in> {Result WASI_ERRNO_SUCCESS, Result WASI_ERRNO_IO} \<and> length bs \<le> unat (a 1) \<and>
       hc_memory (ss_ctx (fst (wasi_random_get env st a))) = put (unat (a 0)) bs (hc_memory (ss_ctx st)) \<and>
       (snd (wasi_random_get env st a) = Result WASI_ERRNO_SUCCESS \<longrightarrow> length bs = unat (a 1)))"
  using assms
proof (cases rule: random_get_cases [of env st a])
  case refused
  then show ?thesis by simp
next
  case (filled bs b)
  then show ?thesis by (intro disjI2 exI [of _ bs]) (auto simp: WASI_ERRNO_SUCCESS_def WASI_ERRNO_IO_def)
qed

theorem random_get_ends_witness:
  "\<exists>bs. length bs \<le> 4 \<and>
    hc_memory (ss_ctx (fst (wasi_random_get quiet_env (page_state (replicate 16 NUL)) (\<lambda>_. 4)))) = put 4 bs (replicate 16 NUL)"
proof -
  have "\<forall>k n bs. se_random quiet_env k n = Some bs \<longrightarrow> 0 < length bs \<and> length bs \<le> n" by (auto simp: quiet_env_def split: if_splits)
  from random_get_ends [OF this, of "page_state (replicate 16 NUL)" "\<lambda>_. 4"] show ?thesis
  proof
    assume "snd (wasi_random_get quiet_env (page_state (replicate 16 NUL)) (\<lambda>_. 4)) = Result WASI_ERRNO_INVAL \<and>
      fst (wasi_random_get quiet_env (page_state (replicate 16 NUL)) (\<lambda>_. 4)) = page_state (replicate 16 NUL)"
    then show ?thesis by (intro exI [of _ "[]"]) (simp add: put_nothing)
  qed auto
qed

text \<open>The linker of an engine takes all three groups of callbacks, because no two of them share a module and a
  name: unless an allocation fails, all 53 are defined and the engine can be created.\<close>

theorem engine_linker_complete:
  assumes "\<forall>k. ok_host k" "\<forall>k. ok_wasi k" "\<forall>k. ok_proxy k"
  shows "\<exists>l. engine_linker ok_host ok_wasi ok_proxy = (l, 0) \<and> length l = 53 \<and>
    (\<forall>d \<in> set proxy_imports. (''env'', fst d, fst (snd d), 1, Inr (snd (snd d))) \<in> set l)"
proof -
  let ?h = "host_linker @ wasi_linker" let ?ds = "map (\<lambda>(name, ks, f). (name, ks, Inr f)) proxy_imports"
  have ds: "map fst ?ds = map fst proxy_imports" by (simp add: case_prod_beta comp_def)
  have names: "fst ` set ?ds = set (map fst proxy_imports)" by (metis ds list.set_map)
  have "define_all ok_proxy 0 ?ds ?h = (?h @ map (\<lambda>(n, ps, f). (''env'', n, ps, 1, f)) ?ds, 0)"
  proof (rule define_all_ok [OF assms(3)])
    show "distinct (map fst ?ds)" unfolding ds by (rule import_names_distinct)
    show "\<forall>d \<in> set ?h. fst d = ''env'' \<longrightarrow> fst (snd d) \<notin> fst ` set ?ds" unfolding names by (rule host_names_apart)
  qed
  then have "engine_linker ok_host ok_wasi ok_proxy = (?h @ map (\<lambda>(n, ps, f). (''env'', n, ps, 1, f)) ?ds, 0)"
    by (simp add: engine_linker_def host_linker_defined [OF assms(1)] wasi_linker_defined [OF assms(2)] defined_then_def)
  moreover have "length (?h @ map (\<lambda>(n, ps, f). (''env'', n, ps, 1, f)) ?ds) = 53"
    by (simp add: host_linker_def wasi_linker_def proxy_imports_def)
  ultimately show ?thesis by (intro exI [of _ "?h @ map (\<lambda>(n, ps, f). (''env'', n, ps, 1, f)) ?ds"]) (force simp: image_iff)
qed

theorem engine_linker_complete_witness:
  "\<exists>l. engine_linker (\<lambda>_. True) (\<lambda>_. True) (\<lambda>_. True) = (l, 0) \<and> length l = 53"
  using engine_linker_complete [of "\<lambda>_. True" "\<lambda>_. True" "\<lambda>_. True"] by auto

text \<open>A simple host function called from a proxy-wasm execution overwrites the engine pointer of the context: the
  callbacks share a linker, but the store's data is then a \<open>struct vwasm_proxy_ctx\<close>, whose second member is
  \<open>engine\<close> where \<open>struct vwasm_host_ctx\<close> has \<open>wasm_ctx\<close>.\<close>

theorem host_call_overwrites_engine:
  assumes "length data \<ge> 3"
  shows "load_member proxy_ctx_layout ''engine'' (host_prologue ctx data) = Some ctx"
  using assms by (simp add: load_member_def host_prologue_def store_member_def proxy_ctx_layout_def host_ctx_layout_def)

theorem host_call_overwrites_engine_witness:
  "load_member proxy_ctx_layout ''engine'' (host_prologue 7 [1, 2, 3]) = Some 7"
  by (rule host_call_overwrites_engine) simp



end
