(* ===== verification/Vmod.thy ===== *)
theory Vmod
  imports Lifecycle Host_Functions
begin

text \<open>
  The functions VCL calls, \<^verbatim>\<open>src/vmod_wasm.c\<close>: the list of engines, one per loaded VCL, the event handler that
  maintains it, and the entry points that find the engine of their VCL and call it. A function of type
  \<open>VOID\<close> yields what it passes to \<open>VRT_fail\<close>, if anything. Each locked section is one step.
\<close>

section \<open>One engine per VCL\<close>

text \<open>The nodes of the list have addresses, because unlinking compares pointers. \<open>vm_destroyed\<close> is a ghost: the nodes
  whose engine was destroyed.\<close>

record vmod_wasm_vcl =
  vv_vcl :: nat
  vv_engine :: vwasm_engine

record vmod_state =
  vwasm_vcls :: "(nat \<times> vmod_wasm_vcl) list"
  vm_brk :: nat
  vm_destroyed :: "nat list"

definition vmod_wasm_find_vcl_locked :: "nat \<Rightarrow> vmod_state \<Rightarrow> (nat \<times> vmod_wasm_vcl) option" where
  "vmod_wasm_find_vcl_locked vcl st = find (\<lambda>(_, vwv). vv_vcl vwv = vcl) (vwasm_vcls st)"

fun unlink_node :: "nat \<Rightarrow> (nat \<times> 'a) list \<Rightarrow> (nat \<times> 'a) list" where
  "unlink_node node [] = []"
| "unlink_node node ((a, v) # vs) = (if a = node then vs else (a, v) # unlink_node node vs)"

definition vmod_wasm_unlink_vcl_locked :: "nat \<Rightarrow> vmod_state \<Rightarrow> vmod_state" where
  "vmod_wasm_unlink_vcl_locked node st = st\<lparr>vwasm_vcls := unlink_node node (vwasm_vcls st)\<rparr>"

definition vmod_wasm_get_engine :: "nat option \<Rightarrow> vmod_state \<Rightarrow> vwasm_engine option" where
  "vmod_wasm_get_engine ctx st =
     (case ctx of
        None \<Rightarrow> None
      | Some vcl \<Rightarrow> map_option (\<lambda>(_, vwv). vv_engine vwv) (vmod_wasm_find_vcl_locked vcl st))"

text \<open>What a call does to the engine it got.\<close>

definition put_engine :: "nat \<Rightarrow> vwasm_engine \<Rightarrow> vmod_state \<Rightarrow> vmod_state" where
  "put_engine vcl e st =
     (case vmod_wasm_find_vcl_locked vcl st of
        None \<Rightarrow> st
      | Some (a, _) \<Rightarrow>
          st\<lparr>vwasm_vcls := map (\<lambda>(b, vwv). (b, if b = a then vwv\<lparr>vv_engine := e\<rparr> else vwv)) (vwasm_vcls st)\<rparr>)"

definition vmod_wasm_error_result :: "vwasm_engine option \<Rightarrow> int" where
  "vmod_wasm_error_result engine =
     (if engine \<noteq> None \<and> vwasm_engine_get_fail_mode engine = VWASM_FAIL_OPEN then 0 else -1)"

section \<open>Events\<close>

datatype vcl_event = VCL_EVENT_LOAD | VCL_EVENT_DISCARD | VCL_EVENT_OTHER

text \<open>\<open>priv\<close> may be NULL, and hold NULL or a node. \<open>al\<close> is the allocator, \<open>ok\<close> that of the engine, \<open>filter_err\<close>
  whether \<open>VRT_AddFilter\<close> reports an error.\<close>

definition clear_priv :: "nat \<Rightarrow> nat option option \<Rightarrow> nat option option" where
  "clear_priv node priv = (if priv = Some (Some node) then Some None else priv)"

definition vmod_vmod_event ::
  "malloc \<Rightarrow> (nat \<Rightarrow> bool) \<Rightarrow> bool \<Rightarrow> nat \<Rightarrow> vcl_event \<Rightarrow> vmod_state \<Rightarrow> nat option option \<Rightarrow> vmod_state \<times> nat option option \<times> int" where
  "vmod_vmod_event al ok filter_err vcl ev st priv =
     (case ev of
        VCL_EVENT_LOAD \<Rightarrow>
          if \<not> al 0 then (st, priv, -1)
          else (case vwasm_engine_new ok of
                  None \<Rightarrow> (st, priv, -1)
                | Some engine \<Rightarrow>
                    (let node = vm_brk st;
                         st = st\<lparr>vm_brk := vm_brk st + 1\<rparr>
                     in if vmod_wasm_find_vcl_locked vcl st \<noteq> None
                        then (st\<lparr>vm_destroyed := node # vm_destroyed st\<rparr>, priv, -1)
                        else
                          (let st = st\<lparr>vwasm_vcls := (node, \<lparr>vv_vcl = vcl, vv_engine = engine\<rparr>) # vwasm_vcls st\<rparr>;
                               priv = (if priv = None then None else Some (Some node))
                           in if filter_err
                              then (let st = vmod_wasm_unlink_vcl_locked node st
                                    in (st\<lparr>vm_destroyed := node # vm_destroyed st\<rparr>, clear_priv node priv, -1))
                              else (st, priv, 0))))
      | VCL_EVENT_DISCARD \<Rightarrow>
          (let vwv = (case priv of
                        Some (Some node) \<Rightarrow> Some node
                      | _ \<Rightarrow> map_option fst (vmod_wasm_find_vcl_locked vcl st))
           in case vwv of
                None \<Rightarrow> (st, priv, 0)
              | Some node \<Rightarrow>
                  (let st = vmod_wasm_unlink_vcl_locked node st
                   in (st\<lparr>vm_destroyed := node # vm_destroyed st\<rparr>, clear_priv node priv, 0)))
      | VCL_EVENT_OTHER \<Rightarrow> (st, priv, 0))"

section \<open>Loading and settings\<close>

definition empty_string :: "bytes option \<Rightarrow> bool" where
  "empty_string s = (case s of None \<Rightarrow> True | Some t \<Rightarrow> cstr t = [])"

text \<open>What a function of the engine leaves is stored back.\<close>

definition store_back :: "nat \<Rightarrow> vwasm_engine option \<Rightarrow> vmod_state \<Rightarrow> vmod_state" where
  "store_back vcl engine st = (case engine of None \<Rightarrow> st | Some e \<Rightarrow> put_engine vcl e st)"

definition vmod_load ::
  "malloc \<Rightarrow> (bytes \<Rightarrow> bytes option) \<Rightarrow> (bytes \<Rightarrow> nat option) \<Rightarrow> (nat \<Rightarrow> nat option) \<Rightarrow> nat \<Rightarrow> bytes option \<Rightarrow> bytes option
   \<Rightarrow> vmod_state \<Rightarrow> vmod_state \<times> bytes option" where
  "vmod_load al fs compile pre vcl name path st =
     (if empty_string name then (st, Some ''wasm.load(): module name is required'')
      else if empty_string path then (st, Some ''wasm.load(): path is required'')
      else case vmod_wasm_get_engine (Some vcl) st of
             None \<Rightarrow> (st, Some ''wasm.load(): engine not initialized'')
           | Some e \<Rightarrow>
               (case vwasm_engine_load_module al fs compile pre (Some e) name path of
                  (engine, rv) \<Rightarrow>
                    (store_back vcl engine st,
                     if rv \<noteq> 0
                     then Some (''wasm.load(): failed to load module '' @ [CHR 0x27] @ cstr (the name) @ [CHR 0x27] @ '' from '' @
                                [CHR 0x27] @ cstr (the path) @ [CHR 0x27])
                     else None)))"

definition vmod_execute ::
  "wasmtime \<Rightarrow> (nat \<Rightarrow> bytes \<Rightarrow> simple_state \<Rightarrow> simple_state \<times> simple_outcome) \<Rightarrow> bytes + bytes \<Rightarrow> bool \<Rightarrow> nat \<Rightarrow> vrt_ctx
   \<Rightarrow> bytes option \<Rightarrow> bytes option \<Rightarrow> vmod_state \<Rightarrow> int \<times> bytes option \<times> (vsl_tag \<times> bytes) list" where
  "vmod_execute wt call failure vsl vcl v name func st =
     (if empty_string name then (-1, Some ''wasm.execute(): module name is required'', [])
      else if empty_string func then (-1, Some ''wasm.execute(): function name is required'', [])
      else case vmod_wasm_get_engine (Some vcl) st of
             None \<Rightarrow> (-1, None, [])
           | Some e \<Rightarrow>
               (let r = vwasm_engine_call wt call failure vsl (Some e) (Some v) name func 0;
                    log = ss_log (sc_state r)
                in if sc_rv r \<noteq> 0
                   then (vmod_wasm_error_result (Some e), None,
                         log @ [(SLT_Error, ''wasm.execute(): failed to call '' @ [CHR 0x27] @ cstr (the func) @ [CHR 0x27] @
                                   '' in module '' @ [CHR 0x27] @ cstr (the name) @ [CHR 0x27])])
                   else (sc_result r, None, log)))"

definition VMOD_WASM_VERSION :: bytes where
  "VMOD_WASM_VERSION = ''4.3.5''"

definition vmod_version :: bytes where
  "vmod_version = VMOD_WASM_VERSION"

definition vmod_set_memory_limit :: "nat \<Rightarrow> int \<Rightarrow> vmod_state \<Rightarrow> vmod_state \<times> bytes option" where
  "vmod_set_memory_limit vcl limit st =
     (if limit \<le> 0 then (st, Some ''wasm.set_memory_limit(): limit must be positive'')
      else case vmod_wasm_get_engine (Some vcl) st of
             None \<Rightarrow> (st, Some ''wasm.set_memory_limit(): engine not initialized'')
           | Some e \<Rightarrow> (store_back vcl (vwasm_engine_set_memory_limit (Some e) (of_int limit)) st, None))"

definition vmod_get_memory_limit :: "nat \<Rightarrow> vmod_state \<Rightarrow> int" where
  "vmod_get_memory_limit vcl st =
     (case vmod_wasm_get_engine (Some vcl) st of
        None \<Rightarrow> 0
      | Some e \<Rightarrow> sint (vwasm_engine_get_memory_limit (Some e)))"

definition vmod_set_epoch_deadline :: "nat \<Rightarrow> int \<Rightarrow> vmod_state \<Rightarrow> vmod_state \<times> bytes option" where
  "vmod_set_epoch_deadline vcl ms st =
     (if ms \<le> 0 then (st, Some ''wasm.set_epoch_deadline(): ms must be positive'')
      else case vmod_wasm_get_engine (Some vcl) st of
             None \<Rightarrow> (st, Some ''wasm.set_epoch_deadline(): engine not initialized'')
           | Some e \<Rightarrow> (store_back vcl (vwasm_engine_set_epoch_deadline (Some e) (of_int ms)) st, None))"

definition vmod_get_epoch_deadline :: "nat \<Rightarrow> vmod_state \<Rightarrow> int" where
  "vmod_get_epoch_deadline vcl st =
     (case vmod_wasm_get_engine (Some vcl) st of
        None \<Rightarrow> 0
      | Some e \<Rightarrow> sint (vwasm_engine_get_epoch_deadline (Some e)))"

definition vmod_set_allowed_upstreams :: "malloc \<Rightarrow> nat \<Rightarrow> bytes option \<Rightarrow> vmod_state \<Rightarrow> vmod_state \<times> bytes option" where
  "vmod_set_allowed_upstreams al vcl upstream_list st =
     (case vmod_wasm_get_engine (Some vcl) st of
        None \<Rightarrow> (st, Some ''wasm.set_allowed_upstreams(): engine not initialized'')
      | Some e \<Rightarrow> (store_back vcl (vwasm_engine_set_allowed_upstreams al (Some e) upstream_list) st, None))"

definition vmod_set_http_call_limit :: "nat \<Rightarrow> int \<Rightarrow> vmod_state \<Rightarrow> vmod_state \<times> bytes option" where
  "vmod_set_http_call_limit vcl limit st =
     (if limit < 0 then (st, Some ''wasm.set_http_call_limit(): limit must be >= 0'')
      else case vmod_wasm_get_engine (Some vcl) st of
             None \<Rightarrow> (st, Some ''wasm.set_http_call_limit(): engine not initialized'')
           | Some e \<Rightarrow> (store_back vcl (vwasm_engine_set_http_call_max (Some e) (of_int limit)) st, None))"

definition vmod_set_fail_mode :: "nat \<Rightarrow> bytes option \<Rightarrow> vmod_state \<Rightarrow> vmod_state \<times> bytes option" where
  "vmod_set_fail_mode vcl mode st =
     (case vmod_wasm_get_engine (Some vcl) st of
        None \<Rightarrow> (st, Some ''wasm.set_fail_mode(): engine not initialized'')
      | Some e \<Rightarrow>
          if empty_string mode then (st, Some ''wasm.set_fail_mode(): mode is required'')
          else if cstr (the mode) = ''open'' then (store_back vcl (vwasm_engine_set_fail_mode (Some e) VWASM_FAIL_OPEN) st, None)
          else if cstr (the mode) = ''closed'' then (store_back vcl (vwasm_engine_set_fail_mode (Some e) VWASM_FAIL_CLOSED) st, None)
          else (st, Some (''wasm.set_fail_mode(): invalid mode '' @ [CHR 0x27] @ cstr (the mode) @ [CHR 0x27] @
                          '' (use '' @ [CHR 0x22] @ ''open'' @ [CHR 0x22] @ '' or '' @ [CHR 0x22] @ ''closed'' @ [CHR 0x22] @ '')'')))"

definition vmod_set_store_pool_size ::
  "malloc \<Rightarrow> wasmtime \<Rightarrow> nat \<Rightarrow> bytes option \<Rightarrow> int \<Rightarrow> global_stores \<Rightarrow> vmod_state \<Rightarrow> vmod_state \<times> global_stores \<times> bytes option" where
  "vmod_set_store_pool_size al wt vcl module sz g st =
     (case vmod_wasm_get_engine (Some vcl) st of
        None \<Rightarrow> (st, g, Some ''wasm.set_store_pool_size: engine not initialized'')
      | Some e \<Rightarrow>
          if empty_string module then (st, g, Some ''wasm.set_store_pool_size: module name required'')
          else if sz < 1 \<or> sz > 256 then (st, g, Some ''wasm.set_store_pool_size: size must be 1-256'')
          else (case vwasm_engine_init_pool al wt (Some e) module (nat sz) None None g of
                  (engine, g, rv) \<Rightarrow>
                    (store_back vcl engine st, g,
                     if rv \<noteq> 0 then Some (''wasm.set_store_pool_size: pool init failed for '' @ cstr (the module)) else None)))"

definition vmod_set_http_pool_size :: "malloc \<Rightarrow> nat \<Rightarrow> int \<Rightarrow> vmod_state \<Rightarrow> vmod_state \<times> bytes option" where
  "vmod_set_http_pool_size al vcl sz st =
     (case vmod_wasm_get_engine (Some vcl) st of
        None \<Rightarrow> (st, Some ''wasm.set_http_pool_size: engine not initialized'')
      | Some e \<Rightarrow>
          if sz < 1 \<or> sz > 1024 then (st, Some ''wasm.set_http_pool_size: size must be 1-1024'')
          else (case vwasm_engine_init_http_pool al (Some e) (nat sz) of
                  (engine, _, rv) \<Rightarrow>
                    (store_back vcl engine st, if rv \<noteq> 0 then Some ''wasm.set_http_pool_size: pool init failed'' else None)))"

section \<open>Statistics\<close>

text \<open>\<open>ws\<close> is whether \<open>WS_Copy\<close> finds room. The numbers are printed into a buffer of \<open>STATS_BUF\<close> bytes; what is copied
  to the workspace is as long as \<open>snprintf\<close> says the text is.\<close>

definition STATS_BUF :: nat where
  "STATS_BUF = 1024"

definition stats_json :: "vwasm_stats \<Rightarrow> bytes" where
  "stats_json s =
     (let q = (\<lambda>name. [CHR 0x22] @ name @ [CHR 0x22] @ '':'') in
      ''{'' @ q ''calls_total'' @ dec (unat (calls_total s)) @ '','' @ q ''calls_ok'' @ dec (unat (calls_ok_cnt s)) @
      '','' @ q ''calls_error'' @ dec (unat (calls_error s)) @
      '','' @ q ''calls_timeout'' @ dec (unat (calls_timeout s)) @ '','' @ q ''local_responses'' @ dec (unat (local_responses s)) @
      '','' @ q ''http_calls'' @ dec (unat (http_calls_cnt s)) @
      '','' @ q ''http_calls_blocked'' @ dec (unat (http_calls_blocked s)) @
      '','' @ q ''body_bytes_in'' @ dec (unat (body_bytes_in s)) @ ''}'')"

definition vmod_get_stats_json :: "bool \<Rightarrow> nat \<Rightarrow> vmod_state \<Rightarrow> bytes" where
  "vmod_get_stats_json ws vcl st =
     (case vmod_wasm_get_engine (Some vcl) st of
        None \<Rightarrow> ''{}''
      | Some e \<Rightarrow>
          (let buf = take (STATS_BUF - 1) (stats_json (eng_stats e)) @ [NUL];
               len = length (stats_json (eng_stats e))
           in if ws then cstr (take (len + 1) buf) else ''{}''))"

definition vmod_get_pool_stats_json :: "malloc \<Rightarrow> bool \<Rightarrow> nat \<Rightarrow> bytes option \<Rightarrow> vmod_state \<Rightarrow> bytes" where
  "vmod_get_pool_stats_json al ws vcl module st =
     (case vmod_wasm_get_engine (Some vcl) st of
        None \<Rightarrow> ''{}''
      | Some e \<Rightarrow>
          if module = None then ''{}''
          else case vwasm_engine_get_pool_stats_json al (Some e) module of
                 None \<Rightarrow> ''{}''
               | Some json \<Rightarrow> if ws then cstr json else ''{}'')"

definition vmod_get_http_pool_stats_json :: "malloc \<Rightarrow> bool \<Rightarrow> nat \<Rightarrow> vmod_state \<Rightarrow> bytes" where
  "vmod_get_http_pool_stats_json al ws vcl st =
     (case vmod_wasm_get_engine (Some vcl) st of
        None \<Rightarrow> ''{}''
      | Some e \<Rightarrow>
          (case vwasm_engine_get_http_pool_stats_json al (Some e) of
             None \<Rightarrow> ''{}''
           | Some json \<Rightarrow> if ws then cstr json else ''{}''))"

section \<open>Filters\<close>

text \<open>What a call leaves: the state, the value returned to VCL, the records logged by the entry point itself, and the
  execution, if there was one.\<close>

record vmod_call =
  vc_state :: vmod_state
  vc_rv :: int
  vc_log :: "(vsl_tag \<times> bytes) list"
  vc_exec :: "exec_result option"

definition name_required :: "bytes \<Rightarrow> (vsl_tag \<times> bytes) list" where
  "name_required function = [(SLT_Error, function @ '': module name required'')]"

text \<open>The end the four entry points share.\<close>

definition filter_result :: "nat \<Rightarrow> exec_result \<Rightarrow> vmod_state \<Rightarrow> vmod_call" where
  "filter_result vcl r st =
     \<lparr>vc_state = put_engine vcl (er_engine r) st,
      vc_rv = (if er_rv r < 0 then vmod_wasm_error_result (Some (er_engine r))
               else if er_status r > 0 then er_status r
               else er_rv r),
      vc_log = [], vc_exec = Some r\<rparr>"

definition vmod_proxy_wasm_on_request ::
  "wasmtime \<Rightarrow> exec_env \<Rightarrow> nat \<Rightarrow> global_stores \<Rightarrow> vrt_ctx \<Rightarrow> bytes option \<Rightarrow> vmod_state \<Rightarrow> vmod_call" where
  "vmod_proxy_wasm_on_request wt xe vcl g v module st =
     (case vmod_wasm_get_engine (Some vcl) st of
        None \<Rightarrow> \<lparr>vc_state = st, vc_rv = -1, vc_log = [], vc_exec = None\<rparr>
      | Some e \<Rightarrow>
          if empty_string module
          then \<lparr>vc_state = st, vc_rv = -1, vc_log = name_required ''wasm.proxy_wasm_on_request()'', vc_exec = None\<rparr>
          else filter_result vcl (vwasm_proxy_wasm_call wt xe e g v module 0) st)"

definition vmod_proxy_wasm_on_response ::
  "wasmtime \<Rightarrow> exec_env \<Rightarrow> nat \<Rightarrow> global_stores \<Rightarrow> vrt_ctx \<Rightarrow> bytes option \<Rightarrow> vmod_state \<Rightarrow> vmod_call" where
  "vmod_proxy_wasm_on_response wt xe vcl g v module st =
     (case vmod_wasm_get_engine (Some vcl) st of
        None \<Rightarrow> \<lparr>vc_state = st, vc_rv = -1, vc_log = [], vc_exec = None\<rparr>
      | Some e \<Rightarrow>
          if empty_string module
          then \<lparr>vc_state = st, vc_rv = -1, vc_log = name_required ''wasm.proxy_wasm_on_response()'', vc_exec = None\<rparr>
          else filter_result vcl (vwasm_proxy_wasm_response_call wt xe e g v module 0) st)"

definition vmod_proxy_wasm_on_request_configured ::
  "wasmtime \<Rightarrow> exec_env \<Rightarrow> nat \<Rightarrow> global_stores \<Rightarrow> vrt_ctx \<Rightarrow> bytes option \<Rightarrow> bytes option \<Rightarrow> bytes option \<Rightarrow> vmod_state \<Rightarrow> vmod_call" where
  "vmod_proxy_wasm_on_request_configured wt xe vcl g v module vm_cfg plugin_cfg st =
     (case vmod_wasm_get_engine (Some vcl) st of
        None \<Rightarrow> \<lparr>vc_state = st, vc_rv = -1, vc_log = [], vc_exec = None\<rparr>
      | Some e \<Rightarrow>
          if empty_string module
          then \<lparr>vc_state = st, vc_rv = -1, vc_log = name_required ''wasm.proxy_wasm_on_request_configured()'', vc_exec = None\<rparr>
          else filter_result vcl (vwasm_proxy_wasm_call_with_config wt xe e g v module vm_cfg plugin_cfg 0) st)"

definition vmod_proxy_wasm_on_response_configured ::
  "wasmtime \<Rightarrow> exec_env \<Rightarrow> nat \<Rightarrow> global_stores \<Rightarrow> vrt_ctx \<Rightarrow> bytes option \<Rightarrow> bytes option \<Rightarrow> bytes option \<Rightarrow> vmod_state \<Rightarrow> vmod_call" where
  "vmod_proxy_wasm_on_response_configured wt xe vcl g v module vm_cfg plugin_cfg st =
     (case vmod_wasm_get_engine (Some vcl) st of
        None \<Rightarrow> \<lparr>vc_state = st, vc_rv = -1, vc_log = [], vc_exec = None\<rparr>
      | Some e \<Rightarrow>
          if empty_string module
          then \<lparr>vc_state = st, vc_rv = -1, vc_log = name_required ''wasm.proxy_wasm_on_response_configured()'', vc_exec = None\<rparr>
          else filter_result vcl (vwasm_proxy_wasm_response_call_with_config wt xe e g v module vm_cfg plugin_cfg 0) st)"

section \<open>Filter chains\<close>

definition CHAIN_MODULES :: nat where
  "CHAIN_MODULES = 64"

definition chain_sep :: "byte \<Rightarrow> bool" where
  "chain_sep c \<longleftrightarrow> c = CHR ''|'' \<or> c = SP \<or> c = HT"

text \<open>The loop over the copy of the specification; \<open>n\<close> modules were found so far.\<close>

function parse_chain :: "nat \<Rightarrow> bytes \<Rightarrow> bytes list" where
  "parse_chain n p =
     (if p = [] \<or> n \<ge> CHAIN_MODULES then []
      else
        (let p = dropWhile chain_sep p
         in if p = [] then []
            else takeWhile (\<lambda>c. \<not> chain_sep c) p # parse_chain (n + 1) (drop 1 (dropWhile (\<lambda>c. \<not> chain_sep c) p))))"
  by pat_completeness auto

termination
  by (relation "measure (\<lambda>(n, p). CHAIN_MODULES - n)") auto

definition chain_result :: "nat \<Rightarrow> exec_result \<Rightarrow> vmod_state \<Rightarrow> vmod_call" where
  "chain_result vcl r st =
     \<lparr>vc_state = put_engine vcl (er_engine r) st,
      vc_rv = (if er_rv r < 0 then vmod_wasm_error_result (Some (er_engine r)) else er_rv r),
      vc_log = [], vc_exec = Some r\<rparr>"

definition vmod_filter_chain ::
  "malloc \<Rightarrow> (nat \<Rightarrow> wasmtime \<times> exec_env) \<Rightarrow> nat \<Rightarrow> global_stores \<Rightarrow> vrt_ctx \<Rightarrow> bytes option \<Rightarrow> vmod_state \<Rightarrow> vmod_call" where
  "vmod_filter_chain al xes vcl g v chain_spec st =
     (case vmod_wasm_get_engine (Some vcl) st of
        None \<Rightarrow> \<lparr>vc_state = st, vc_rv = -1, vc_log = [], vc_exec = None\<rparr>
      | Some e \<Rightarrow>
          if empty_string chain_spec \<or> \<not> al 0 then \<lparr>vc_state = st, vc_rv = -1, vc_log = [], vc_exec = None\<rparr>
          else chain_result vcl (vwasm_filter_chain_request xes e g v (map Some (parse_chain 0 (cstr (the chain_spec)))) 0) st)"

definition vmod_filter_chain_response ::
  "malloc \<Rightarrow> (nat \<Rightarrow> wasmtime \<times> exec_env) \<Rightarrow> nat \<Rightarrow> global_stores \<Rightarrow> vrt_ctx \<Rightarrow> bytes option \<Rightarrow> vmod_state \<Rightarrow> vmod_call" where
  "vmod_filter_chain_response al xes vcl g v chain_spec st =
     (case vmod_wasm_get_engine (Some vcl) st of
        None \<Rightarrow> \<lparr>vc_state = st, vc_rv = -1, vc_log = [], vc_exec = None\<rparr>
      | Some e \<Rightarrow>
          if empty_string chain_spec \<or> \<not> al 0 then \<lparr>vc_state = st, vc_rv = -1, vc_log = [], vc_exec = None\<rparr>
          else chain_result vcl (vwasm_filter_chain_response xes e g v (map Some (parse_chain 0 (cstr (the chain_spec)))) 0) st)"

end
