(* ===== verification/Spec2Isabelle.thy ===== *)
theory Spec2Isabelle
  imports Guest_Memory Shared_Data Shared_Queue Metrics Http_Cache Http_Conns Http_Parse Http_Call Http_Framing Header_Map Wasm_Engine
    Proxy_Host Proxy_Properties Guest_Runs Store_Pool Pool_Threads Exec_Safety Vdp_Properties Simple_Host Vmod_Properties
begin

text \<open>
  A verification of vmod-wasm, the Varnish module that runs proxy-wasm filters in Wasmtime. Paths are those of the
  repository. Names in the theories are those of the C code where HOL leaves them free; a definition without a
  counterpart of its own in C is a part of the function named at it.

  \<^bold>\<open>The program.\<close> VCL calls the entry points of \<^verbatim>\<open>src/vmod_wasm.c\<close>. They look up the engine of their VCL and run
  one module, or a chain of modules, on a request or a response (\<^verbatim>\<open>src/wasm_engine.c\<close>). An execution takes a store
  from the pool of the module (\<^verbatim>\<open>src/store_pool.c\<close>) or makes one, calls the callbacks the module exports, and
  ends the store, unless the response body is still to be delivered: then \<^verbatim>\<open>src/vdp_wasm.c\<close> calls the module for
  each chunk and ends the store. While it runs, the module calls host functions: headers
  (\<^verbatim>\<open>src/proxy_wasm_headers.c\<close>), properties (\<^verbatim>\<open>src/proxy_wasm_properties.c\<close>), callouts (\<^verbatim>\<open>src/proxy_wasm_http.c\<close>
  over \<^verbatim>\<open>src/http_pool.c\<close>), shared data and queues (\<^verbatim>\<open>src/proxy_wasm_shared.c\<close>), and the rest in
  \<^verbatim>\<open>src/proxy_wasm.c\<close>; all of them read and write the module's memory with \<^verbatim>\<open>src/proxy_wasm_mem.h\<close>. Modules that are
  not proxy-wasm filters are called with \<open>vwasm_engine_call\<close> and use \<^verbatim>\<open>src/host_functions.c\<close>.

  \<^bold>\<open>Conventions.\<close> A byte is a \<open>char\<close>, C integers are words of their width, a pointer that may be NULL is an
  option, \<open>malloc\<close> is an oracle saying which allocation succeeds, and functions that change something return the
  changed record. What a lock protects is one step. An access outside a guest's memory sets a ghost flag
  (\<open>mem_fault\<close>, \<open>hc_fault\<close>), so that its absence is a statement. Varnish, Wasmtime, the network, clocks, DNS and
  random numbers are parameters (\<open>varnish\<close>, \<open>vrt_info\<close>, \<open>exec_env\<close>, \<open>wasmtime\<close>, \<open>net_env\<close>, \<open>simple_env\<close>);
  what is assumed of them is a named hypothesis (\<open>guest_bound\<close>, \<open>env_ok\<close>, \<open>property_laws\<close>, \<open>appends\<close>), each with an
  instance in a witness.

  \<^bold>\<open>Theories.\<close>
  \<^item> \<open>Prelude\<close>: bytes, C strings, decimal and little-endian numbers, and the locale \<open>step_invariant\<close>: an
    invariant kept by every step is kept by every run.
  \<^item> \<open>Guest_Memory\<close> (\<^verbatim>\<open>src/proxy_wasm_mem.h\<close>): what is returned to a guest arrives, in its bounds.
  \<^item> \<open>Shared_Data\<close>, \<open>Shared_Queue\<close> (\<^verbatim>\<open>src/proxy_wasm_shared.c\<close>): a hash table and linked lists in a heap implement
    a map with tokens and bounded first-in-first-out queues (locales \<open>cas_store\<close>, \<open>fifo_store\<close>); a write with a
    stale token is refused.
  \<^item> \<open>Metrics\<close>: the metric functions, and that the report fits its buffer.
  \<^item> \<open>Http_State\<close>, \<open>Http_Addr\<close>, \<open>Circuit_Breaker\<close>, \<open>Http_Cache\<close>, \<open>Http_Conns\<close> (\<^verbatim>\<open>src/http_pool.c\<close>): the filter of
    private addresses, the breakers as a state machine (locale \<open>breakers\<close>), and that no descriptor is lost.
  \<^item> \<open>Http_Parse\<close>, \<open>Http_Call\<close>, \<open>Http_Framing\<close> (\<^verbatim>\<open>src/proxy_wasm_http.c\<close>): a module cannot inject lines into a
    request or reach an upstream the policy forbids; responses are framed and completed as announced.
  \<^item> \<open>Proxy_Context\<close>, \<open>Header_Map\<close>, \<open>Proxy_Host\<close>, \<open>Proxy_Properties\<close>: the context of a stream and the host functions;
    header maps survive a round trip, their reported size is that of their serialization.
  \<^item> \<open>Wasm_Engine\<close>: the engine's modules, settings, allowlist and timers.
  \<^item> \<open>Host_Table\<close>, \<open>Guest_Runs\<close>: the table of imports, and what no guest can break by any sequence of calls.
  \<^item> \<open>Runtime\<close>, \<open>Store_Types\<close>, \<open>Store_Pool\<close>, \<open>Pool_Threads\<close>: calls into a guest, warm instances, pools, and the
    pool under any interleaving of the atomic operations of any number of threads.
  \<^item> \<open>Lifecycle\<close>, \<open>Exec_Lemmas\<close>, \<open>Exec_Properties\<close>, \<open>Exec_Safety\<close>: whole executions and chains. The locale
    \<open>exec_invariant\<close> lifts an invariant of the host functions to executions; it is used for the host's
    invariant and for what an execution leaves alone in the engine.
  \<^item> \<open>Vdp\<close>, \<open>Vdp_Properties\<close> (\<^verbatim>\<open>src/vdp_wasm.c\<close>): chunks pass in order, and the execution left behind is ended once.
  \<^item> \<open>Host_Functions\<close>, \<open>Simple_Host\<close> (\<^verbatim>\<open>src/host_functions.c\<close>): the simple functions and the WASI stubs, which calls
    of them are safe, and which are not.
  \<^item> \<open>Vmod\<close>, \<open>Vmod_Properties\<close> (\<^verbatim>\<open>src/vmod_wasm.c\<close>): the list of engines, the entry points, and their results.

  \<^bold>\<open>Bounds.\<close> The properties of executions hold for guests whose memory is limited to \<open>L\<close> bytes, \<open>L\<close> below 4 GiB - 1
  (the default limit is 16 MiB), and for request, response and body buffers below 4 GiB; without the last
  bound the host can be made to write outside a guest's memory, which \<open>Guest_Runs\<close> proves. The simple functions
  use signed offsets, and their bound is 1 GiB. All loops are total functions except the one around \<open>getrandom\<close>,
  whose fuel is one call per byte; \<open>Simple_Host\<close> proves that this is enough when every successful call delivers a
  byte. The loop over callout responses ends because the tokens it visits grow.

  \<^bold>\<open>Not modelled.\<close> The thread that advances Wasmtime's epoch and the interruption it causes, which is an ordinary
  trap here. The loops that repeat an interrupted \<open>read\<close> or \<open>write\<close>, which are part of the network. Executions of
  different threads that use one engine at the same time, beyond the pools and the race in \<open>Http_Conns\<close>. Modules
  that call simple functions or WASI stubs from a proxy-wasm execution, which give the functions a context of
  the wrong type (\<open>Host_Functions\<close>, last section). The assertions on magic numbers. The variants of \<open>random_get\<close> for
  systems other than Linux.
\<close>

end
